(* ===== verification/Prelude.thy ===== *)
theory Prelude
  imports
    "HOL-Library.List_Lexorder"
    "HOL-Library.Char_ord"
    "HOL-Library.Sublist"
    "HOL-Library.Word"
begin

section \<open>Shared vocabulary of the vitvm development\<close>

text \<open>
  What every component shares: the Go values the sources pass around (byte slices and
  strings are both lists of \<open>char\<close>, a Go byte), errors as values, the computations of the
  sources as state passing functions that return an error or a value together with the
  state they leave behind, the rules that carry the component proofs (\<open>keeps\<close> for
  invariants, \<open>ensures\<close> for results), and the functions of package \<open>strings\<close> that
  the sources call. The collection \<open>io\<close> holds the equations that unfold a computation.
\<close>

named_theorems io "equations that unfold a computation step by step"

subsection \<open>Bytes, strings, machine integers\<close>

type_synonym bytes = "char list"

text \<open>Go's \<open>int64\<close> (and \<open>int\<close> on the 64-bit targets): arithmetic wraps around.\<close>

definition int64 :: "int \<Rightarrow> int" where
  "int64 x = signed_take_bit 63 x"

lemma int64_id: "- (2 ^ 63) \<le> x \<Longrightarrow> x < 2 ^ 63 \<Longrightarrow> int64 x = x"
  by (simp add: int64_def signed_take_bit_int_eq_self)

lemma int64_wraps: "int64 (2 ^ 63) = - (2 ^ 63)"
  by (simp add: int64_def signed_take_bit_eq_take_bit_shift)

subsection \<open>Errors\<close>

datatype errno = ENOENT | ENOTDIR | EEXIST | EISDIR | ENOTEMPTY | ELOOP | EINVAL | ENXIO

text \<open>
  An error value: a system call's errno, the sentinels \<open>cas.ErrNotFound\<close> and
  \<open>remote.ErrNotFound\<close>, an error made by \<open>fmt.Errorf\<close> or \<open>errors.New\<close> (its format, its
  arguments, the error it wraps), or a run-time panic.
\<close>

datatype err =
    Errno errno
  | ErrBlobNotFound
  | ErrObjectNotFound
  | Errorf string "string list" "err option"
  | Panic string

subsection \<open>Computations\<close>

type_synonym ('s, 'a) io = "'s \<Rightarrow> (err + 'a) \<times> 's"

definition ret :: "'a \<Rightarrow> ('s, 'a) io" where
  "ret x = (\<lambda>s. (Inr x, s))"

definition fail :: "err \<Rightarrow> ('s, 'a) io" where
  "fail e = (\<lambda>s. (Inl e, s))"

definition bindE :: "('s, 'a) io \<Rightarrow> ('a \<Rightarrow> ('s, 'b) io) \<Rightarrow> ('s, 'b) io" where
  "bindE m f = (\<lambda>s. case m s of (Inl e, s') \<Rightarrow> (Inl e, s') | (Inr x, s') \<Rightarrow> f x s')"

text \<open>Go's \<open>x, err := f()\<close> where the caller looks at \<open>err\<close> itself.\<close>

definition attempt :: "('s, 'a) io \<Rightarrow> ('s, err + 'a) io" where
  "attempt m = (\<lambda>s. case m s of (r, s') \<Rightarrow> (Inr r, s'))"

definition gets :: "('s \<Rightarrow> 'a) \<Rightarrow> ('s, 'a) io" where
  "gets f = (\<lambda>s. (Inr (f s), s))"

definition modify :: "('s \<Rightarrow> 's) \<Rightarrow> ('s, unit) io" where
  "modify f = (\<lambda>s. (Inr (), f s))"

definition lift_res :: "err + 'a \<Rightarrow> ('s, 'a) io" where
  "lift_res r = (\<lambda>s. (r, s))"

text \<open>A Go \<open>range\<close> loop whose body may return early with an error.\<close>

fun for_each :: "'a list \<Rightarrow> ('a \<Rightarrow> ('s, unit) io) \<Rightarrow> ('s, unit) io" where
  "for_each [] f = ret ()"
| "for_each (x # xs) f = bindE (f x) (\<lambda>_. for_each xs f)"

lemma ret_app [simp]: "ret x s = (Inr x, s)"
  by (simp add: ret_def)

lemma fail_app [simp]: "fail e s = (Inl e, s)"
  by (simp add: fail_def)

lemma gets_app [simp]: "gets f s = (Inr (f s), s)"
  by (simp add: gets_def)

lemma modify_app [simp]: "modify f s = (Inr (), f s)"
  by (simp add: modify_def)

lemma lift_res_app [simp]: "lift_res r s = (r, s)"
  by (simp add: lift_res_def)

lemma attempt_app: "attempt m s = (Inr (fst (m s)), snd (m s))"
  by (simp add: attempt_def split: prod.splits)

lemma bindE_Inr [simp]: "m s = (Inr x, s') \<Longrightarrow> bindE m f s = f x s'"
  by (simp add: bindE_def)

text \<open>A truth value as the result needs rules of its own: the simplifier rewrites \<open>x = False\<close>.\<close>

lemma bindE_bool [simp]:
  "m s = (Inr False, s') \<Longrightarrow> bindE m f s = f False s'"
  "m s = (Inr True, s') \<Longrightarrow> bindE m f s = f True s'"
  by (simp_all add: bindE_def)

lemma bindE_Inl [simp]: "m s = (Inl e, s') \<Longrightarrow> bindE m f s = (Inl e, s')"
  by (simp add: bindE_def)

lemma bindE_gets [io]: "bindE (gets g) f s = f (g s) s"
  by (simp add: bindE_def)

lemma bindE_modify [io]: "bindE (modify g) f s = f () (g s)"
  by (simp add: bindE_def)

lemma bindE_ret [io]: "bindE (ret x) f = f x"
  by (simp add: bindE_def fun_eq_iff)

lemma bindE_fail [io]: "bindE (fail e) f = fail e"
  by (simp add: bindE_def fun_eq_iff)

lemma bindE_lift_res [io]:
  "bindE (lift_res r) f s = (case r of Inl e \<Rightarrow> (Inl e, s) | Inr x \<Rightarrow> f x s)"
  by (simp add: bindE_def split: sum.splits)

lemma bindE_attempt [io]: "bindE (attempt m) f s = f (fst (m s)) (snd (m s))"
  by (simp add: bindE_def attempt_app)

lemma bindE_assoc: "bindE (bindE m f) g = bindE m (\<lambda>x. bindE (f x) g)"
  by (simp add: bindE_def fun_eq_iff split: prod.splits sum.splits)

lemma bindE_eq_Inr:
  "bindE m f s = (Inr y, s'') \<longleftrightarrow> (\<exists>x s'. m s = (Inr x, s') \<and> f x s' = (Inr y, s''))"
  by (auto simp: bindE_def split: prod.splits sum.splits)

lemma bindE_InrE:
  assumes "bindE m f s = (Inr y, s'')"
  obtains x s' where "m s = (Inr x, s')" and "f x s' = (Inr y, s'')"
  using assms by (auto simp: bindE_eq_Inr)

lemma for_each_Cons_Inr: "f x s = (Inr (), t) \<Longrightarrow> for_each (x # xs) f s = for_each xs f t"
  by simp

lemma for_each_append: "for_each (xs @ ys) f = bindE (for_each xs f) (\<lambda>_. for_each ys f)"
  by (induction xs) (simp_all add: bindE_ret bindE_assoc)

subsection \<open>Rules for invariants and results\<close>

text \<open>
  \<open>keeps P m\<close>: whether \<open>m\<close> succeeds or returns an error, the state it leaves behind still
  satisfies \<open>P\<close>. \<open>ensures P m Q\<close>: from a state with \<open>P\<close>, where \<open>m\<close> succeeds its result
  and state satisfy \<open>Q\<close>. \<open>succeeds P m Q\<close>: from a state with \<open>P\<close>, \<open>m\<close> does succeed, with
  \<open>Q\<close>.
\<close>

definition keeps :: "('s \<Rightarrow> bool) \<Rightarrow> ('s, 'a) io \<Rightarrow> bool" where
  "keeps P m \<longleftrightarrow> (\<forall>s. P s \<longrightarrow> P (snd (m s)))"

definition ensures :: "('s \<Rightarrow> bool) \<Rightarrow> ('s, 'a) io \<Rightarrow> ('a \<Rightarrow> 's \<Rightarrow> bool) \<Rightarrow> bool" where
  "ensures P m Q \<longleftrightarrow> (\<forall>s x s'. P s \<longrightarrow> m s = (Inr x, s') \<longrightarrow> Q x s')"

lemma keepsI: "(\<And>s. P s \<Longrightarrow> P (snd (m s))) \<Longrightarrow> keeps P m"
  by (simp add: keeps_def)

lemma keepsD: "keeps P m \<Longrightarrow> P s \<Longrightarrow> m s = (r, s') \<Longrightarrow> P s'"
  by (force simp: keeps_def)

lemma keeps_ret [intro, simp]: "keeps P (ret x)"
  by (simp add: keeps_def)

lemma keeps_fail [intro, simp]: "keeps P (fail e)"
  by (simp add: keeps_def)

lemma keeps_gets [intro, simp]: "keeps P (gets f)"
  by (simp add: keeps_def)

lemma keeps_lift_res [intro, simp]: "keeps P (lift_res r)"
  by (simp add: keeps_def)

lemma keeps_attempt [intro]: "keeps P m \<Longrightarrow> keeps P (attempt m)"
  by (simp add: keeps_def attempt_app)

lemma keeps_bindE [intro]: "keeps P m \<Longrightarrow> (\<And>x. keeps P (f x)) \<Longrightarrow> keeps P (bindE m f)"
  by (fastforce simp: keeps_def bindE_def split: prod.splits sum.splits)

lemma keeps_for_each [intro]: "(\<And>x. x \<in> set xs \<Longrightarrow> keeps P (f x)) \<Longrightarrow> keeps P (for_each xs f)"
  by (induction xs) auto

lemma keeps_if [intro]: "(b \<Longrightarrow> keeps P m) \<Longrightarrow> (\<not> b \<Longrightarrow> keeps P n) \<Longrightarrow> keeps P (if b then m else n)"
  by simp

lemma ensuresI: "(\<And>s x s'. P s \<Longrightarrow> m s = (Inr x, s') \<Longrightarrow> Q x s') \<Longrightarrow> ensures P m Q"
  by (simp add: ensures_def)

lemma ensuresD: "ensures P m Q \<Longrightarrow> P s \<Longrightarrow> m s = (Inr x, s') \<Longrightarrow> Q x s'"
  by (simp add: ensures_def)

lemma ensures_bindE:
  "ensures P m R \<Longrightarrow> (\<And>x. ensures (R x) (f x) Q) \<Longrightarrow> ensures P (bindE m f) Q"
  by (fastforce simp: ensures_def bindE_eq_Inr)

subsection \<open>Package strings\<close>

definition HasPrefix :: "string \<Rightarrow> string \<Rightarrow> bool" where
  "HasPrefix s p \<longleftrightarrow> take (length p) s = p"

definition HasSuffix :: "string \<Rightarrow> string \<Rightarrow> bool" where
  "HasSuffix s p \<longleftrightarrow> length p \<le> length s \<and> drop (length s - length p) s = p"

definition TrimPrefix :: "string \<Rightarrow> string \<Rightarrow> string" where
  "TrimPrefix s p = (if HasPrefix s p then drop (length p) s else s)"

definition TrimSuffix :: "string \<Rightarrow> string \<Rightarrow> string" where
  "TrimSuffix s p = (if HasSuffix s p then take (length s - length p) s else s)"

lemma HasPrefix_iff: "HasPrefix s p \<longleftrightarrow> (\<exists>r. s = p @ r)"
  by (auto simp: HasPrefix_def) (metis append_take_drop_id)

lemma TrimPrefix_append [simp]: "TrimPrefix (p @ s) p = s"
  by (simp add: TrimPrefix_def HasPrefix_def)

lemma TrimSuffix_append [simp]: "TrimSuffix (s @ p) p = s"
  by (simp add: TrimSuffix_def HasSuffix_def)

text \<open>\<open>strings.Split(s, sep)\<close> and \<open>strings.Join(parts, sep)\<close> for a one-byte separator.\<close>

fun split_on :: "char \<Rightarrow> string \<Rightarrow> string list" where
  "split_on d [] = [[]]"
| "split_on d (c # cs) =
     (if c = d then [] # split_on d cs
      else case split_on d cs of [] \<Rightarrow> [[c]] | w # ws \<Rightarrow> (c # w) # ws)"

fun join_with :: "char \<Rightarrow> string list \<Rightarrow> string" where
  "join_with d [] = []"
| "join_with d [w] = w"
| "join_with d (w # v # ws) = w @ d # join_with d (v # ws)"

lemma split_on_nonempty [simp]: "split_on d s \<noteq> []"
  by (induction s) (auto split: list.splits)

lemma split_on_no_sep: "d \<notin> set w \<Longrightarrow> split_on d w = [w]"
  by (induction w) auto

lemma split_on_append_sep: "d \<notin> set w \<Longrightarrow> split_on d (w @ d # s) = w # split_on d s"
  by (induction w) auto

lemma split_on_join_with:
  "ws \<noteq> [] \<Longrightarrow> (\<forall>w \<in> set ws. d \<notin> set w) \<Longrightarrow> split_on d (join_with d ws) = ws"
  by (induction d ws rule: join_with.induct) (simp_all add: split_on_no_sep split_on_append_sep)

lemma join_with_split_on: "join_with d (split_on d s) = s"
proof (induction s)
  case (Cons c cs)
  obtain w ws where "split_on d cs = w # ws"
    by (cases "split_on d cs") auto
  with Cons show ?case
    by (cases ws) auto
qed simp

lemma split_on_parts: "w \<in> set (split_on d s) \<Longrightarrow> d \<notin> set w"
  by (induction s arbitrary: w) (auto split: if_splits list.splits)

definition Contains :: "string \<Rightarrow> string \<Rightarrow> bool" where
  "Contains s sub \<longleftrightarrow> sublist sub s"

text \<open>The encodings of the runes \<open>unicode.IsSpace\<close> holds of.\<close>

definition space_runes :: "string list" where
  "space_runes = [[CHR 0x09], [CHR 0x0A], [CHR 0x0B], [CHR 0x0C], [CHR 0x0D], [CHR 0x20], [CHR 0xC2, CHR 0x85],
     [CHR 0xC2, CHR 0xA0], [CHR 0xE1, CHR 0x9A, CHR 0x80]] @
     map (\<lambda>n. [CHR 0xE2, CHR 0x80, char_of n]) ([0x80..<0x8B] @ [0xA8, 0xA9, 0xAF]) @
     [[CHR 0xE2, CHR 0x81, CHR 0x9F], [CHR 0xE3, CHR 0x80, CHR 0x80]]"

function trim_front :: "string list \<Rightarrow> string \<Rightarrow> string" where
  "trim_front runes s =
     (case find (\<lambda>r. r \<noteq> [] \<and> HasPrefix s r) runes of
        None \<Rightarrow> s
      | Some r \<Rightarrow> trim_front runes (drop (length r) s))"
  by pat_completeness auto
termination
proof (relation "measure (\<lambda>(runes, s). length s)", simp)
  fix runes s r assume "find (\<lambda>r. r \<noteq> [] \<and> HasPrefix s r) runes = Some r"
  then have "r \<noteq> []" "HasPrefix s r" by (auto simp: find_Some_iff)
  then show "((runes, drop (length r) s), runes, s) \<in> measure (\<lambda>(runes, s). length s)"
    by (auto simp: HasPrefix_iff)
qed

declare trim_front.simps [simp del]

definition TrimSpace :: "string \<Rightarrow> string" where
  "TrimSpace s = rev (trim_front (map rev space_runes) (rev (trim_front space_runes s)))"

end
