(* ===== verification/GoJson.thy ===== *)
theory GoJson
  imports Prelude
begin

section \<open>Package encoding/json\<close>

text \<open>
  The JSON documents vitvm stores and exchanges. \<open>emit\<close> prints a value the way
  \<open>json.Marshal\<close> (compact) and \<open>json.MarshalIndent(v, "", "  ")\<close> do: Go's escapes, HTML
  characters escaped, bytes that are not UTF-8 replaced by U+FFFD. \<open>parse_json\<close> reads a
  document: white space between tokens is skipped, escapes and surrogate pairs are decoded,
  invalid UTF-8 is replaced. A number keeps its literal text, as the decoder does until it
  knows the field's type. The main result is \<open>parse_emit\<close>: every printed value reads back,
  in both layouts, provided its strings are UTF-8.
\<close>

subsection \<open>Decimal and hexadecimal digits\<close>

definition digit_char :: "nat \<Rightarrow> char" where
  "digit_char d = char_of (48 + d)"

definition digit_val :: "char \<Rightarrow> nat option" where
  "digit_val c = (let n = of_char c in if 48 \<le> n \<and> n \<le> 57 then Some (n - 48) else None)"

fun dec_nat :: "nat \<Rightarrow> string" where
  "dec_nat n = (if n < 10 then [digit_char n] else dec_nat (n div 10) @ [digit_char (n mod 10)])"

declare dec_nat.simps [simp del]

definition itoa :: "int \<Rightarrow> string" where
  "itoa i = (if i < 0 then CHR ''-'' # dec_nat (nat (- i)) else dec_nat (nat i))"

fun read_digits :: "nat \<Rightarrow> string \<Rightarrow> nat option" where
  "read_digits acc [] = Some acc"
| "read_digits acc (c # cs) =
     (case digit_val c of None \<Rightarrow> None | Some d \<Rightarrow> read_digits (10 * acc + d) cs)"

text \<open>\<open>strconv.ParseInt\<close> of a literal: digits with an optional sign, and nothing else.\<close>

definition parse_int :: "string \<Rightarrow> int option" where
  "parse_int s =
     (case s of
        [] \<Rightarrow> None
      | c # cs \<Rightarrow>
          if c = CHR ''-'' then (if cs = [] then None else map_option (\<lambda>n. - int n) (read_digits 0 cs))
          else map_option int (read_digits 0 s))"

lemma digit_val_char [simp]: "d < 10 \<Longrightarrow> digit_val (digit_char d) = Some d"
  by (simp add: digit_val_def digit_char_def Let_def)

lemma digit_char_not_minus: "d < 10 \<Longrightarrow> digit_char d \<noteq> CHR ''-''"
  using digit_val_char [of d] by (auto simp: digit_val_def)

lemma read_digits_append:
  "read_digits a (xs @ ys) = (case read_digits a xs of None \<Rightarrow> None | Some b \<Rightarrow> read_digits b ys)"
  by (induction xs arbitrary: a) (auto split: option.splits)

lemma read_dec_nat: "read_digits 0 (dec_nat n) = Some n"
proof (induction n rule: dec_nat.induct)
  case (1 n)
  show ?case
  proof (cases "n < 10")
    case True
    then show ?thesis by (subst dec_nat.simps) simp
  next
    case False
    with "1.IH" show ?thesis by (subst dec_nat.simps) (simp add: read_digits_append)
  qed
qed

lemma dec_nat_nonempty [simp]: "dec_nat n \<noteq> []"
  by (subst dec_nat.simps) simp

lemma dec_nat_digits: "c \<in> set (dec_nat n) \<Longrightarrow> \<exists>d < 10. c = digit_char d"
proof (induction n rule: dec_nat.induct)
  case (1 n)
  show ?case
  proof (cases "n < 10")
    case True
    with 1(2) show ?thesis by (subst (asm) dec_nat.simps) auto
  next
    case False
    with 1(2) have "c \<in> set (dec_nat (n div 10)) \<or> c = digit_char (n mod 10)"
      by (subst (asm) dec_nat.simps) auto
    with False "1.IH" show ?thesis by (auto intro: exI [of _ "n mod 10"])
  qed
qed

lemma parse_int_itoa [simp]: "parse_int (itoa i) = Some i"
proof (cases "i < 0")
  case True
  then show ?thesis by (simp add: itoa_def parse_int_def read_dec_nat)
next
  case False
  obtain c cs where d: "dec_nat (nat i) = c # cs" by (cases "dec_nat (nat i)") auto
  with dec_nat_digits [of c "nat i"] digit_char_not_minus have "c \<noteq> CHR ''-''" by auto
  with False d read_dec_nat [of "nat i"] show ?thesis
    by (simp add: itoa_def parse_int_def)
qed

definition hex_digit :: "nat \<Rightarrow> char" where
  "hex_digit d = char_of (if d < 10 then 48 + d else 87 + d)"

definition hex_val :: "char \<Rightarrow> nat option" where
  "hex_val c =
     (let n = of_char c in
      if 48 \<le> n \<and> n \<le> 57 then Some (n - 48)
      else if 97 \<le> n \<and> n \<le> 102 then Some (n - 87)
      else if 65 \<le> n \<and> n \<le> 70 then Some (n - 55)
      else None)"

lemma hex_val_digit [simp]: "d < 16 \<Longrightarrow> hex_val (hex_digit d) = Some d"
  by (auto simp: hex_val_def hex_digit_def Let_def)

text \<open>\<open>hex.EncodeToString\<close>.\<close>

definition hex_encode :: "bytes \<Rightarrow> string" where
  "hex_encode b = concat (map (\<lambda>c. [hex_digit (of_char c div 16), hex_digit (of_char c mod 16)]) b)"

lemma length_hex_encode: "length (hex_encode b) = 2 * length b"
  by (induction b) (auto simp: hex_encode_def)

lemma hex_digit_inj: "a < 16 \<Longrightarrow> b < 16 \<Longrightarrow> hex_digit a = hex_digit b \<Longrightarrow> a = b"
  by (metis hex_val_digit option.inject)

lemma hex_encode_inj: "hex_encode a = hex_encode b \<Longrightarrow> a = b"
proof (induction a arbitrary: b)
  case Nil
  then show ?case by (cases b) (auto simp: hex_encode_def)
next
  case (Cons x xs)
  then obtain y ys where b: "b = y # ys" by (cases b) (auto simp: hex_encode_def)
  have lt: "of_char c div 16 < (16::nat)" "of_char c mod 16 < (16::nat)" for c :: char
    using nat_of_char_less_256 [of c] by linarith+
  from Cons.prems b have
    h: "hex_digit (of_char x div 16) = hex_digit (of_char y div 16)"
       "hex_digit (of_char x mod 16) = hex_digit (of_char y mod 16)"
    and t: "hex_encode xs = hex_encode ys"
    by (auto simp: hex_encode_def)
  from h lt have "of_char x div 16 = (of_char y div 16 :: nat)" "of_char x mod 16 = (of_char y mod 16 :: nat)"
    by (blast dest: hex_digit_inj)+
  then have "of_char x = (of_char y :: nat)" by (metis div_mult_mod_eq)
  with Cons.IH [OF t] b show ?case by simp
qed

subsection \<open>UTF-8\<close>

abbreviation byte :: "char \<Rightarrow> nat" where "byte c \<equiv> of_char c"

definition byte_in :: "string \<Rightarrow> nat \<Rightarrow> nat \<Rightarrow> nat \<Rightarrow> bool" where
  "byte_in s i lo hi \<longleftrightarrow> i < length s \<and> lo \<le> byte (s ! i) \<and> byte (s ! i) \<le> hi"

text \<open>
  \<open>utf8.DecodeRune\<close>: the number of bytes of the rune at the front of \<open>s\<close>, 0 when the bytes
  are not UTF-8 (overlong forms, surrogates and values beyond U+10FFFF are not).
\<close>

definition two_bytes :: "string \<Rightarrow> bool" where
  "two_bytes s \<longleftrightarrow> byte_in s 0 0xC2 0xDF \<and> byte_in s 1 0x80 0xBF"

definition three_bytes :: "string \<Rightarrow> bool" where
  "three_bytes s \<longleftrightarrow>
     (byte_in s 0 0xE0 0xE0 \<and> byte_in s 1 0xA0 0xBF \<or>
      byte_in s 0 0xE1 0xEC \<and> byte_in s 1 0x80 0xBF \<or>
      byte_in s 0 0xED 0xED \<and> byte_in s 1 0x80 0x9F \<or>
      byte_in s 0 0xEE 0xEF \<and> byte_in s 1 0x80 0xBF) \<and> byte_in s 2 0x80 0xBF"

definition four_bytes :: "string \<Rightarrow> bool" where
  "four_bytes s \<longleftrightarrow>
     (byte_in s 0 0xF0 0xF0 \<and> byte_in s 1 0x90 0xBF \<or>
      byte_in s 0 0xF1 0xF3 \<and> byte_in s 1 0x80 0xBF \<or>
      byte_in s 0 0xF4 0xF4 \<and> byte_in s 1 0x80 0x8F) \<and>
     byte_in s 2 0x80 0xBF \<and> byte_in s 3 0x80 0xBF"

definition rune_len :: "string \<Rightarrow> nat" where
  "rune_len s =
     (if byte_in s 0 0 0x7F then 1
      else if two_bytes s then 2
      else if three_bytes s then 3
      else if four_bytes s then 4
      else 0)"

definition high_at :: "string \<Rightarrow> nat \<Rightarrow> bool" where
  "high_at s i \<longleftrightarrow> i < length s \<and> 128 \<le> byte (s ! i)"

lemma byte_in_high: "byte_in s i lo hi \<Longrightarrow> 128 \<le> lo \<Longrightarrow> high_at s i"
  by (simp add: byte_in_def high_at_def)

lemma two_bytes_high: "two_bytes s \<Longrightarrow> high_at s 0 \<and> high_at s 1"
  by (auto simp: two_bytes_def dest: byte_in_high)

lemma three_bytes_high: "three_bytes s \<Longrightarrow> high_at s 0 \<and> high_at s 1 \<and> high_at s 2"
  by (auto simp: three_bytes_def dest: byte_in_high)

lemma four_bytes_high: "four_bytes s \<Longrightarrow> high_at s 0 \<and> high_at s 1 \<and> high_at s 2 \<and> high_at s 3"
  by (auto simp: four_bytes_def dest: byte_in_high)

lemmas multi_high = two_bytes_high three_bytes_high four_bytes_high

lemma rune_len_high:
  assumes "\<not> byte_in s 0 0 0x7F" and "i < rune_len s"
  shows "high_at s i"
proof -
  consider "two_bytes s" "i < 2" | "three_bytes s" "i < 3" | "four_bytes s" "i < 4"
    using assms by (auto simp: rune_len_def split: if_splits)
  then show ?thesis
    by cases (auto simp: less_Suc_eq numeral_2_eq_2 numeral_3_eq_3 numeral_eq_Suc
      dest!: multi_high)
qed

lemma rune_len_le: "rune_len s \<le> length s"
proof (cases "byte_in s 0 0 0x7F \<or> rune_len s = 0")
  case True
  then show ?thesis by (cases "rune_len s = 0") (simp_all add: rune_len_def byte_in_def Suc_le_eq)
next
  case False
  then have "high_at s (rune_len s - 1)" by (intro rune_len_high) auto
  with False show ?thesis by (auto simp: high_at_def)
qed

function valid_utf8 :: "string \<Rightarrow> bool" where
  "valid_utf8 s =
     (if s = [] then True else if rune_len s = 0 then False else valid_utf8 (drop (rune_len s) s))"
  by pat_completeness auto
termination
  by (relation "measure length") auto

declare valid_utf8.simps [simp del]

definition rune_error :: string where
  "rune_error = [CHR 0xEF, CHR 0xBF, CHR 0xBD]"

text \<open>The replacement of every byte that is not part of a rune by U+FFFD.\<close>

function utf8_fix :: "string \<Rightarrow> string" where
  "utf8_fix s =
     (if s = [] then []
      else if rune_len s = 0 then rune_error @ utf8_fix (tl s)
      else take (rune_len s) s @ utf8_fix (drop (rune_len s) s))"
  by pat_completeness auto
termination
  by (relation "measure length") auto

declare utf8_fix.simps [simp del]

lemma utf8_fix_valid: "valid_utf8 s \<Longrightarrow> utf8_fix s = s"
proof (induction s rule: utf8_fix.induct)
  case (1 s)
  then show ?case
    by (subst utf8_fix.simps) (auto simp: valid_utf8.simps [of s] split: if_splits)
qed

lemma byte_in_take: "i < n \<Longrightarrow> n \<le> length s \<Longrightarrow> byte_in (take n s @ x) i lo hi \<longleftrightarrow> byte_in s i lo hi"
  by (auto simp: byte_in_def nth_append)

lemma rune_len_take:
  assumes "rune_len s \<noteq> 0"
  shows "rune_len (take (rune_len s) s @ x) = rune_len s"
proof -
  note b = byte_in_take [OF _ rune_len_le, where x = x]
  consider "rune_len s = 1" "byte_in s 0 0 0x7F" | "rune_len s = 2" "\<not> byte_in s 0 0 0x7F" "two_bytes s"
    | "rune_len s = 3" "\<not> byte_in s 0 0 0x7F" "\<not> two_bytes s" "three_bytes s"
    | "rune_len s = 4" "\<not> byte_in s 0 0 0x7F" "\<not> two_bytes s" "\<not> three_bytes s" "four_bytes s"
    using assms by (auto simp: rune_len_def split: if_splits)
  then show ?thesis
  proof cases
    case 1
    with b [of 0 s 0 "0x7F"] have "byte_in (take 1 s @ x) 0 0 0x7F" by simp
    with 1(1) show ?thesis by (simp add: rune_len_def)
  next
    case 2
    with b [of _ s] have "\<not> byte_in (take 2 s @ x) 0 0 0x7F" "two_bytes (take 2 s @ x)" by (simp_all add: two_bytes_def)
    with 2(1) show ?thesis by (simp add: rune_len_def)
  next
    case 3
    with b [of _ s] have "\<not> byte_in (take 3 s @ x) 0 0 0x7F" "\<not> two_bytes (take 3 s @ x)" "three_bytes (take 3 s @ x)"
      by (simp_all add: two_bytes_def three_bytes_def)
    with 3(1) show ?thesis by (simp add: rune_len_def)
  next
    case 4
    with b [of _ s] have "\<not> byte_in (take 4 s @ x) 0 0 0x7F" "\<not> two_bytes (take 4 s @ x)" "\<not> three_bytes (take 4 s @ x)"
      "four_bytes (take 4 s @ x)"
      by (simp_all add: two_bytes_def three_bytes_def four_bytes_def)
    with 4(1) show ?thesis by (simp add: rune_len_def)
  qed
qed

lemma rune_len_error: "rune_len (rune_error @ x) = 3"
  by (simp add: rune_error_def rune_len_def byte_in_def two_bytes_def three_bytes_def)

lemma rune_error_length: "length rune_error = 3" "rune_error \<noteq> []"
  by (simp_all add: rune_error_def)

lemma valid_utf8_rune: "rune_len (p @ x) = length p \<Longrightarrow> p \<noteq> [] \<Longrightarrow> valid_utf8 x \<Longrightarrow> valid_utf8 (p @ x)"
  by (subst valid_utf8.simps) simp

lemma valid_utf8_fix [simp]: "valid_utf8 (utf8_fix s)"
proof (induction s rule: utf8_fix.induct)
  case (1 s)
  show ?case
  proof (cases "s = [] \<or> rune_len s = 0")
    case True
    with "1.IH"(1) show ?thesis
      by (subst utf8_fix.simps)
        (auto simp: valid_utf8.simps [of "[]"] rune_len_error rune_error_length intro!: valid_utf8_rune)
  next
    case False
    then have "take (rune_len s) s \<noteq> []" "length (take (rune_len s) s) = rune_len s" using rune_len_le [of s] by auto
    with "1.IH"(2) False rune_len_take [of s] show ?thesis
      by (subst utf8_fix.simps) (auto intro!: valid_utf8_rune)
  qed
qed

lemma rune_len_ascii: "byte c < 128 \<Longrightarrow> rune_len (c # s) = 1"
  by (simp add: rune_len_def byte_in_def)

lemma valid_utf8_ascii: "\<forall>c \<in> set s. byte c < 128 \<Longrightarrow> valid_utf8 s"
  by (induction s) (simp_all add: valid_utf8.simps [of "_ # _"] valid_utf8.simps [of "[]"] rune_len_ascii)

lemma rune_multi:
  assumes "128 \<le> byte (hd s)"
  shows "\<forall>c \<in> set (take (rune_len s) s). 128 \<le> byte c"
proof (cases "s = []")
  case False
  with assms have "\<not> byte_in s 0 0 0x7F" by (auto simp: byte_in_def hd_conv_nth)
  then show ?thesis using rune_len_high by (fastforce simp: in_set_conv_nth high_at_def)
qed simp

text \<open>\<open>utf8.AppendRune\<close>.\<close>

definition enc_rune :: "nat \<Rightarrow> string" where
  "enc_rune r =
     (if r < 0x80 then [char_of r]
      else if r < 0x800 then [char_of (0xC0 + r div 0x40), char_of (0x80 + r mod 0x40)]
      else if 0xD800 \<le> r \<and> r \<le> 0xDFFF \<or> 0x10FFFF < r then rune_error
      else if r < 0x10000 then
        [char_of (0xE0 + r div 0x1000), char_of (0x80 + r div 0x40 mod 0x40), char_of (0x80 + r mod 0x40)]
      else
        [char_of (0xF0 + r div 0x40000), char_of (0x80 + r div 0x1000 mod 0x40),
         char_of (0x80 + r div 0x40 mod 0x40), char_of (0x80 + r mod 0x40)])"

lemma enc_rune_separators:
  "enc_rune 0x2028 = [CHR 0xE2, CHR 0x80, CHR 0xA8]" "enc_rune 0x2029 = [CHR 0xE2, CHR 0x80, CHR 0xA9]"
  by (simp_all add: enc_rune_def char_of_eq_iff)

subsection \<open>String literals\<close>

abbreviation quote :: char where "quote \<equiv> CHR 0x22"
abbreviation backslash :: char where "backslash \<equiv> CHR 0x5C"

definition hex4_text :: "nat \<Rightarrow> string" where
  "hex4_text r = [hex_digit (r div 0x1000 mod 16), hex_digit (r div 0x100 mod 16),
                  hex_digit (r div 0x10 mod 16), hex_digit (r mod 16)]"

definition u_escape :: "nat \<Rightarrow> string" where
  "u_escape r = backslash # CHR ''u'' # hex4_text r"

definition esc_ascii :: "char \<Rightarrow> string" where
  "esc_ascii c =
     (if c = quote \<or> c = backslash then [backslash, c]
      else if c = CHR 0x08 then [backslash, CHR ''b'']
      else if c = CHR 0x0C then [backslash, CHR ''f'']
      else if c = CHR 0x0A then [backslash, CHR ''n'']
      else if c = CHR 0x0D then [backslash, CHR ''r'']
      else if c = CHR 0x09 then [backslash, CHR ''t'']
      else if byte c < 32 \<or> c = CHR ''<'' \<or> c = CHR ''>'' \<or> c = CHR ''&'' then u_escape (byte c)
      else [c])"

function esc :: "string \<Rightarrow> string" where
  "esc s =
     (if s = [] then []
      else if byte (hd s) < 128 then esc_ascii (hd s) @ esc (tl s)
      else if rune_len s = 0 then u_escape 0xFFFD @ esc (tl s)
      else if take 3 s = [CHR 0xE2, CHR 0x80, CHR 0xA8] then u_escape 0x2028 @ esc (drop 3 s)
      else if take 3 s = [CHR 0xE2, CHR 0x80, CHR 0xA9] then u_escape 0x2029 @ esc (drop 3 s)
      else take (rune_len s) s @ esc (drop (rune_len s) s))"
  by pat_completeness auto
termination
  by (relation "measure length") auto

declare esc.simps [simp del]

definition hex4 :: "string \<Rightarrow> (nat \<times> string) option" where
  "hex4 s =
     (case s of
        a # b # c # d # r \<Rightarrow>
          (case (hex_val a, hex_val b, hex_val c, hex_val d) of
             (Some w, Some x, Some y, Some z) \<Rightarrow> Some (((w * 16 + x) * 16 + y) * 16 + z, r)
           | _ \<Rightarrow> None)
      | _ \<Rightarrow> None)"

lemma hex4_length: "hex4 s = Some (n, r) \<Longrightarrow> length r < length s"
  by (auto simp: hex4_def split: list.splits option.splits)

lemma nibbles:
  "(r::nat) = 16 * c + z \<Longrightarrow> c = 16 * b + y \<Longrightarrow> b = 16 * a + x \<Longrightarrow> ((a * 16 + x) * 16 + y) * 16 + z = r"
  by simp

lemma hex4_text: "r < 0x10000 \<Longrightarrow> hex4 (hex4_text r @ s) = Some (r, s)"
proof -
  assume r: "r < 0x10000"
  have "r div 16 div 16 = r div 256" "r div 256 div 16 = r div 4096"
    by (simp_all add: div_mult2_eq [symmetric])
  then have "r div 16 = 16 * (r div 256) + r div 16 mod 16"
    and "r div 256 = 16 * (r div 4096) + r div 256 mod 16"
    by (metis mult_div_mod_eq)+
  moreover have "r = 16 * (r div 16) + r mod 16" by simp
  ultimately have "((r div 4096 * 16 + r div 256 mod 16) * 16 + r div 16 mod 16) * 16 + r mod 16 = r"
    by (intro nibbles)
  moreover from r have "r div 4096 < 16" by simp
  ultimately show ?thesis by (simp add: hex4_def hex4_text_def)
qed

text \<open>The second half of a surrogate pair, if one follows.\<close>

definition low_surrogate :: "string \<Rightarrow> (nat \<times> string) option" where
  "low_surrogate s =
     (case s of
        a # b # r \<Rightarrow>
          if a = backslash \<and> b = CHR ''u'' then
            (case hex4 r of
               Some (n, r') \<Rightarrow> if 0xDC00 \<le> n \<and> n \<le> 0xDFFF then Some (n, r') else None
             | None \<Rightarrow> None)
          else None
      | _ \<Rightarrow> None)"

lemma low_surrogate_length: "low_surrogate s = Some (n, r) \<Longrightarrow> length r < length s"
  by (auto simp: low_surrogate_def split: list.splits option.splits if_splits dest: hex4_length)

definition simple_escape :: "char \<Rightarrow> char option" where
  "simple_escape c =
     (if c = quote \<or> c = backslash \<or> c = CHR ''/'' then Some c
      else if c = CHR ''b'' then Some (CHR 0x08)
      else if c = CHR ''f'' then Some (CHR 0x0C)
      else if c = CHR ''n'' then Some (CHR 0x0A)
      else if c = CHR ''r'' then Some (CHR 0x0D)
      else if c = CHR ''t'' then Some (CHR 0x09)
      else None)"

definition pre :: "string \<Rightarrow> (string \<times> string) option \<Rightarrow> (string \<times> string) option" where
  "pre p = map_option (\<lambda>(s, r). (p @ s, r))"

text \<open>The bytes of a string literal up to its closing quote, escapes decoded, and the rest.\<close>

function lex_str :: "string \<Rightarrow> (string \<times> string) option" where
  "lex_str [] = None"
| "lex_str (c # cs) =
     (if c = quote then Some ([], cs)
      else if c = backslash then
        (case cs of
           [] \<Rightarrow> None
         | e # r \<Rightarrow>
             if e = CHR ''u'' then
               (case hex4 r of
                  None \<Rightarrow> None
                | Some (n, r') \<Rightarrow>
                    if 0xD800 \<le> n \<and> n \<le> 0xDBFF then
                      (case low_surrogate r' of
                         Some (m, r'') \<Rightarrow>
                           pre (enc_rune (0x10000 + (n - 0xD800) * 0x400 + (m - 0xDC00))) (lex_str r'')
                       | None \<Rightarrow> pre rune_error (lex_str r'))
                    else pre (enc_rune n) (lex_str r'))
             else (case simple_escape e of None \<Rightarrow> None | Some d \<Rightarrow> pre [d] (lex_str r)))
      else if byte c < 32 then None
      else pre [c] (lex_str cs))"
  by pat_completeness auto
termination
  by (relation "measure length") (auto dest!: hex4_length low_surrogate_length)

lemma lex_str_high: "\<forall>c \<in> set bs. 128 \<le> byte c \<Longrightarrow> lex_str (bs @ r) = pre bs (lex_str r)"
proof (induction bs)
  case (Cons c bs)
  then have "c \<noteq> quote" "c \<noteq> backslash" "\<not> byte c < 32" by auto
  with Cons show ?case by (simp add: pre_def option.map_comp comp_def case_prod_beta')
qed (simp add: pre_def option.map_ident_strong split: prod.splits)

lemma lex_str_u:
  "r < 0x10000 \<Longrightarrow> \<not> (0xD800 \<le> r \<and> r \<le> 0xDBFF) \<Longrightarrow> lex_str (u_escape r @ s) = pre (enc_rune r) (lex_str s)"
  by (auto simp: u_escape_def hex4_text)

lemma pre_Cons: "c \<noteq> quote \<Longrightarrow> c \<noteq> backslash \<Longrightarrow> 32 \<le> byte c \<Longrightarrow> lex_str (c # s) = pre [c] (lex_str s)"
  by simp

lemma lex_str_simple:
  "e \<noteq> CHR ''u'' \<Longrightarrow> simple_escape e = Some d \<Longrightarrow> lex_str (backslash # e # s) = pre [d] (lex_str s)"
  by simp

lemma lex_str_ascii:
  assumes "byte c < 128"
  shows "lex_str (esc_ascii c @ s) = pre [c] (lex_str s)"
proof -
  show ?thesis
  proof (cases "c \<in> {quote, backslash, CHR 0x08, CHR 0x0C, CHR 0x0A, CHR 0x0D, CHR 0x09}")
    case True
    then show ?thesis by (auto simp: esc_ascii_def lex_str_simple simple_escape_def)
  next
    case False
    then have "esc_ascii c = u_escape (byte c) \<or> (esc_ascii c = [c] \<and> 32 \<le> byte c)"
      by (simp add: esc_ascii_def)
    with assms False show ?thesis
      by (auto simp: lex_str_u enc_rune_def pre_Cons)
  qed
qed

lemma pre_pre [simp]: "pre p (pre q x) = pre (p @ q) x"
  by (cases x) (auto simp: pre_def)

lemma pre_Some [simp]: "pre p (Some (s, r)) = Some (p @ s, r)"
  by (simp add: pre_def)

text \<open>
  What is read back of any byte string written as a literal: the string itself where it is UTF-8,
  and U+FFFD in the place of every byte that is not part of a rune.
\<close>

lemma lex_str_esc: "lex_str (esc s @ quote # r) = Some (utf8_fix s, r)"
proof (induction s rule: esc.induct)
  case (1 s)
  show ?case
  proof (cases "s = []")
    case True
    then show ?thesis by (simp add: esc.simps utf8_fix.simps [of "[]"])
  next
    case False
    show ?thesis
    proof (cases "byte (hd s) < 128")
      case True
      from False obtain c t where s: "s = c # t" by (cases s) auto
      with True "1.IH"(1) False show ?thesis
        by (simp add: esc.simps [of "c # t"] utf8_fix.simps [of "c # t"] rune_len_ascii lex_str_ascii)
    next
      case high: False
      have three: "rune_len s = 3" if "take 3 s = [a, b, c]" "byte a = 0xE2" "byte b = 0x80"
        "byte c \<in> {0xA8, 0xA9}" for a b c
      proof -
        from that(1) obtain t where "s = a # b # c # t"
          by (metis append_take_drop_id append_Cons append_Nil)
        with that show ?thesis
          by (auto simp: rune_len_def byte_in_def two_bytes_def three_bytes_def)
      qed
      consider (bad) "rune_len s = 0" | (ls) "rune_len s \<noteq> 0" "take 3 s = [CHR 0xE2, CHR 0x80, CHR 0xA8]"
        | (ps) "rune_len s \<noteq> 0" "take 3 s = [CHR 0xE2, CHR 0x80, CHR 0xA9]"
        | (raw) "rune_len s \<noteq> 0" "take 3 s \<noteq> [CHR 0xE2, CHR 0x80, CHR 0xA8]" "take 3 s \<noteq> [CHR 0xE2, CHR 0x80, CHR 0xA9]"
        by blast
      then show ?thesis
      proof cases
        case bad
        have "enc_rune 0xFFFD = rune_error" by (simp add: enc_rune_def rune_error_def char_of_eq_iff)
        with "1.IH"(2) False high bad show ?thesis
          by (simp add: esc.simps [of s] utf8_fix.simps [of s] lex_str_u)
      next
        case ls
        with "1.IH"(3) three [OF ls(2)] False high show ?thesis
          by (simp add: esc.simps [of s] utf8_fix.simps [of s] lex_str_u enc_rune_separators)
      next
        case ps
        then have "take 3 s \<noteq> [CHR 0xE2, CHR 0x80, CHR 0xA8]" by simp
        with "1.IH"(4) ps three [OF ps(2)] False high show ?thesis
          by (simp add: esc.simps [of s] utf8_fix.simps [of s] lex_str_u enc_rune_separators)
      next
        case raw
        from high have "\<forall>c \<in> set (take (rune_len s) s). 128 \<le> byte c"
          by (intro rune_multi) simp
        with "1.IH"(5) raw False high show ?thesis
          by (simp add: esc.simps [of s] utf8_fix.simps [of s] lex_str_high)
      qed
    qed
  qed
qed

lemma lex_str_length: "lex_str s = Some (t, r) \<Longrightarrow> length r < length s"
proof (induction s arbitrary: t r rule: lex_str.induct)
  case (2 c cs)
  have pre: "\<exists>t'. x = Some (t', r)" if "pre p x = Some (t, r)" for p x
    using that by (cases x) (auto simp: pre_def)
  show ?case
    using 2 by (auto split: if_splits list.splits option.splits
        dest!: pre hex4_length low_surrogate_length) fastforce+
qed simp

subsection \<open>Values and their text\<close>

datatype json =
    JNull
  | JBool bool
  | JNum string
  | JStr string
  | JArr "json list"
  | JObj "(string \<times> json) list"

text \<open>
  The layout: \<open>None\<close> is \<open>json.Marshal\<close>, \<open>Some d\<close> is \<open>json.MarshalIndent\<close> with two spaces
  per level, at depth \<open>d\<close>.
\<close>

definition newline :: "nat option \<Rightarrow> string" where
  "newline d = (case d of None \<Rightarrow> [] | Some n \<Rightarrow> CHR 0x0A # replicate (2 * n) (CHR '' ''))"

definition deeper :: "nat option \<Rightarrow> nat option" where
  "deeper d = map_option Suc d"

definition colon :: "nat option \<Rightarrow> string" where
  "colon d = (if d = None then '':'' else '': '')"

definition str_text :: "string \<Rightarrow> string" where
  "str_text s = quote # esc s @ [quote]"

fun emit :: "nat option \<Rightarrow> json \<Rightarrow> string"
  and emit_elems :: "nat option \<Rightarrow> json list \<Rightarrow> string"
  and emit_fields :: "nat option \<Rightarrow> (string \<times> json) list \<Rightarrow> string" where
  "emit d JNull = ''null''"
| "emit d (JBool b) = (if b then ''true'' else ''false'')"
| "emit d (JNum s) = s"
| "emit d (JStr s) = str_text s"
| "emit d (JArr js) =
     (if js = [] then ''[]''
      else CHR ''['' # emit_elems (deeper d) js @ newline d @ '']'')"
| "emit d (JObj fs) =
     (if fs = [] then ''{}''
      else CHR ''{'' # emit_fields (deeper d) fs @ newline d @ ''}'')"
| "emit_elems d [] = []"
| "emit_elems d [j] = newline d @ emit d j"
| "emit_elems d (j # k # js) = newline d @ emit d j @ '','' @ emit_elems d (k # js)"
| "emit_fields d [] = []"
| "emit_fields d [(s, j)] = newline d @ str_text s @ colon d @ emit d j"
| "emit_fields d ((s, j) # f # fs) =
     newline d @ str_text s @ colon d @ emit d j @ '','' @ emit_fields d (f # fs)"

subsection \<open>Tokens\<close>

datatype tok =
    LBrace | RBrace | LBrack | RBrack | Comma | Colon
  | TStr string | TNum string | TTrue | TFalse | TNull

fun toks :: "json \<Rightarrow> tok list"
  and toks_elems :: "json list \<Rightarrow> tok list"
  and toks_fields :: "(string \<times> json) list \<Rightarrow> tok list" where
  "toks JNull = [TNull]"
| "toks (JBool b) = [if b then TTrue else TFalse]"
| "toks (JNum s) = [TNum s]"
| "toks (JStr s) = [TStr s]"
| "toks (JArr js) = LBrack # toks_elems js @ [RBrack]"
| "toks (JObj fs) = LBrace # toks_fields fs @ [RBrace]"
| "toks_elems [] = []"
| "toks_elems [j] = toks j"
| "toks_elems (j # k # js) = toks j @ Comma # toks_elems (k # js)"
| "toks_fields [] = []"
| "toks_fields [(s, j)] = TStr s # Colon # toks j"
| "toks_fields ((s, j) # f # fs) = TStr s # Colon # toks j @ Comma # toks_fields (f # fs)"

definition is_ws :: "char \<Rightarrow> bool" where
  "is_ws c \<longleftrightarrow> c = CHR '' '' \<or> c = CHR 0x09 \<or> c = CHR 0x0A \<or> c = CHR 0x0D"

definition is_digit :: "char \<Rightarrow> bool" where
  "is_digit c \<longleftrightarrow> digit_val c \<noteq> None"

definition num_char :: "char \<Rightarrow> bool" where
  "num_char c \<longleftrightarrow> is_digit c \<or> c = CHR ''-'' \<or> c = CHR ''+'' \<or> c = CHR ''.'' \<or> c = CHR ''e'' \<or> c = CHR ''E''"

text \<open>The grammar of a number: an integer part without leading zeros, a fraction, an exponent.\<close>

definition exp_ok :: "string \<Rightarrow> bool" where
  "exp_ok s =
     (case s of
        [] \<Rightarrow> True
      | c # r \<Rightarrow>
          (c = CHR ''e'' \<or> c = CHR ''E'') \<and>
          (let d = (case r of x # r' \<Rightarrow> if x = CHR ''+'' \<or> x = CHR ''-'' then r' else r | [] \<Rightarrow> [])
           in d \<noteq> [] \<and> list_all is_digit d))"

definition frac_ok :: "string \<Rightarrow> bool" where
  "frac_ok s =
     (case s of
        c # r \<Rightarrow> if c = CHR ''.'' then takeWhile is_digit r \<noteq> [] \<and> exp_ok (dropWhile is_digit r) else exp_ok s
      | [] \<Rightarrow> True)"

definition num_ok :: "string \<Rightarrow> bool" where
  "num_ok s =
     (let u = (case s of c # r \<Rightarrow> if c = CHR ''-'' then r else s | [] \<Rightarrow> []);
          i = takeWhile is_digit u
      in i \<noteq> [] \<and> (hd i = CHR ''0'' \<longrightarrow> i = ''0'') \<and> frac_ok (dropWhile is_digit u))"

definition cons_tok :: "tok \<Rightarrow> tok list option \<Rightarrow> tok list option" where
  "cons_tok t = map_option (Cons t)"

definition punct :: "char \<Rightarrow> tok option" where
  "punct c =
     (if c = CHR ''{'' then Some LBrace else if c = CHR ''}'' then Some RBrace
      else if c = CHR ''['' then Some LBrack else if c = CHR '']'' then Some RBrack
      else if c = CHR '','' then Some Comma else if c = CHR '':'' then Some Colon else None)"

function scan :: "string \<Rightarrow> tok list option" where
  "scan [] = Some []"
| "scan (c # cs) =
     (if is_ws c then scan cs
      else case punct c of
        Some t \<Rightarrow> cons_tok t (scan cs)
      | None \<Rightarrow>
          if c = quote then
            (case lex_str cs of None \<Rightarrow> None | Some (s, r) \<Rightarrow> cons_tok (TStr (utf8_fix s)) (scan r))
          else if is_digit c \<or> c = CHR ''-'' then
            (let n = takeWhile num_char (c # cs)
             in if num_ok n then cons_tok (TNum n) (scan (drop (length n - 1) cs)) else None)
          else if HasPrefix (c # cs) ''true'' then cons_tok TTrue (scan (drop 3 cs))
          else if HasPrefix (c # cs) ''false'' then cons_tok TFalse (scan (drop 4 cs))
          else if HasPrefix (c # cs) ''null'' then cons_tok TNull (scan (drop 3 cs))
          else None)"
  by pat_completeness auto
termination
  by (relation "measure length") (auto dest!: lex_str_length)

subsection \<open>Parsing\<close>

text \<open>The fuel bounds the number of calls; two per token are enough (\<open>parse_toks\<close>).\<close>

fun pval :: "nat \<Rightarrow> tok list \<Rightarrow> (json \<times> tok list) option"
  and pelems :: "nat \<Rightarrow> tok list \<Rightarrow> (json list \<times> tok list) option"
  and pfields :: "nat \<Rightarrow> tok list \<Rightarrow> ((string \<times> json) list \<times> tok list) option" where
  "pval 0 ts = None"
| "pval (Suc n) ts =
     (case ts of
        TNull # r \<Rightarrow> Some (JNull, r)
      | TTrue # r \<Rightarrow> Some (JBool True, r)
      | TFalse # r \<Rightarrow> Some (JBool False, r)
      | TNum s # r \<Rightarrow> Some (JNum s, r)
      | TStr s # r \<Rightarrow> Some (JStr s, r)
      | LBrack # RBrack # r \<Rightarrow> Some (JArr [], r)
      | LBrack # r \<Rightarrow> (case pelems n r of None \<Rightarrow> None | Some (js, r') \<Rightarrow> Some (JArr js, r'))
      | LBrace # RBrace # r \<Rightarrow> Some (JObj [], r)
      | LBrace # r \<Rightarrow> (case pfields n r of None \<Rightarrow> None | Some (fs, r') \<Rightarrow> Some (JObj fs, r'))
      | _ \<Rightarrow> None)"
| "pelems 0 ts = None"
| "pelems (Suc n) ts =
     (case pval n ts of
        Some (j, Comma # r) \<Rightarrow> (case pelems n r of None \<Rightarrow> None | Some (js, r') \<Rightarrow> Some (j # js, r'))
      | Some (j, RBrack # r) \<Rightarrow> Some ([j], r)
      | _ \<Rightarrow> None)"
| "pfields 0 ts = None"
| "pfields (Suc n) ts =
     (case ts of
        TStr s # Colon # r \<Rightarrow>
          (case pval n r of
             Some (j, Comma # r') \<Rightarrow>
               (case pfields n r' of None \<Rightarrow> None | Some (fs, r'') \<Rightarrow> Some ((s, j) # fs, r''))
           | Some (j, RBrace # r') \<Rightarrow> Some ([(s, j)], r')
           | _ \<Rightarrow> None)
      | _ \<Rightarrow> None)"

definition parse_json :: "bytes \<Rightarrow> json option" where
  "parse_json s =
     (case scan s of
        None \<Rightarrow> None
      | Some ts \<Rightarrow> (case pval (2 * length ts + 2) ts of Some (j, []) \<Rightarrow> Some j | _ \<Rightarrow> None))"

subsection \<open>What is printed reads back\<close>

fun json_ok :: "json \<Rightarrow> bool" where
  "json_ok (JNum s) = num_ok s"
| "json_ok (JStr s) = valid_utf8 s"
| "json_ok (JArr js) = (\<forall>j \<in> set js. json_ok j)"
| "json_ok (JObj fs) = (\<forall>f \<in> set fs. valid_utf8 (fst f) \<and> json_ok (snd f))"
| "json_ok _ = True"

text \<open>What survives of a value whose strings need not be UTF-8.\<close>

fun json_fix :: "json \<Rightarrow> json" where
  "json_fix (JStr s) = JStr (utf8_fix s)"
| "json_fix (JArr js) = JArr (map json_fix js)"
| "json_fix (JObj fs) = JObj (map (\<lambda>f. (utf8_fix (fst f), json_fix (snd f))) fs)"
| "json_fix j = j"

fun nums_ok :: "json \<Rightarrow> bool" where
  "nums_ok (JNum s) = num_ok s"
| "nums_ok (JArr js) = (\<forall>j \<in> set js. nums_ok j)"
| "nums_ok (JObj fs) = (\<forall>f \<in> set fs. nums_ok (snd f))"
| "nums_ok _ = True"

lemma json_ok_fix: "json_ok j \<Longrightarrow> json_fix j = j \<and> nums_ok j"
  by (induction j rule: json_ok.induct) (auto simp: utf8_fix_valid intro!: map_idI)

lemma pval_LBrack:
  "(\<And>x. ts \<noteq> RBrack # x) \<Longrightarrow> pval (Suc n) (LBrack # ts) =
     (case pelems n ts of None \<Rightarrow> None | Some (js, r') \<Rightarrow> Some (JArr js, r'))"
  by (auto split: list.splits tok.splits)

lemma pval_atoms:
  "0 < n \<Longrightarrow> pval n (TNull # r) = Some (JNull, r)"
  "0 < n \<Longrightarrow> pval n (TTrue # r) = Some (JBool True, r)"
  "0 < n \<Longrightarrow> pval n (TFalse # r) = Some (JBool False, r)"
  "0 < n \<Longrightarrow> pval n (TNum s # r) = Some (JNum s, r)"
  "0 < n \<Longrightarrow> pval n (TStr s # r) = Some (JStr s, r)"
  by (cases n; simp)+

lemma toks_elems_start: "js \<noteq> [] \<Longrightarrow> toks_elems js @ s \<noteq> RBrack # x"
  by (cases js rule: toks_elems.cases; cases "hd js") auto

lemma parse_toks_aux:
  "2 * length (toks j) \<le> n \<Longrightarrow> pval n (toks j @ r) = Some (j, r)"
  "js \<noteq> [] \<Longrightarrow> 2 * length (toks_elems js) + 1 \<le> n \<Longrightarrow> pelems n (toks_elems js @ RBrack # r) = Some (js, r)"
  "fs \<noteq> [] \<Longrightarrow> 2 * length (toks_fields fs) + 1 \<le> n \<Longrightarrow> pfields n (toks_fields fs @ RBrace # r) = Some (fs, r)"
proof (induction j and js and fs arbitrary: n r and n r and n r rule: toks_toks_elems_toks_fields.induct)
  case (5 js)
  then obtain m where n: "n = Suc m" by (cases n) auto
  show ?case
  proof (cases "js = []")
    case False
    with 5 n toks_elems_start [OF False] show ?thesis
      by (simp add: pval_LBrack del: pval.simps)
  qed (use n in simp)
next
  case (6 fs)
  then obtain m where n: "n = Suc m" by (cases n) auto
  show ?case
  proof (cases "fs = []")
    case False
    then obtain s j fs' where "fs = (s, j) # fs'" by (cases fs) auto
    with 6 n show ?thesis by (cases fs') auto
  qed (use n in simp)
next
  case (8 j)
  then obtain m where "n = Suc m" by (cases n) auto
  with 8 show ?case by (simp del: pval.simps)
next
  case (9 j k js)
  then obtain m where "n = Suc m" by (cases n) auto
  with 9 show ?case by (simp del: pval.simps toks_elems.simps(3) add: toks_elems.simps(3) [of j])
next
  case (11 s j)
  then obtain m where "n = Suc m" by (cases n) auto
  with 11 show ?case by (simp del: pval.simps)
next
  case (12 s j f fs)
  then obtain m where "n = Suc m" by (cases n) auto
  with 12 show ?case by (simp del: pval.simps toks_fields.simps(3) add: toks_fields.simps(3) [of s j])
qed (auto simp: pval_atoms)

lemma parse_toks: "pval (2 * length (toks j) + 2) (toks j) = Some (j, [])"
  using parse_toks_aux(1) [of j "2 * length (toks j) + 2" "[]"] by simp

text \<open>What may follow a value in a document: anything that does not continue a number.\<close>

definition stops :: "string \<Rightarrow> bool" where
  "stops r \<longleftrightarrow> r = [] \<or> \<not> num_char (hd r)"

definition join_toks :: "tok list \<Rightarrow> tok list option \<Rightarrow> tok list option" where
  "join_toks ts = map_option (append ts)"

lemma join_toks_simps [simp]:
  "cons_tok t x = join_toks [t] x" "join_toks ts (join_toks us x) = join_toks (ts @ us) x"
  "join_toks ts (Some us) = Some (ts @ us)" "join_toks [] x = x"
  by (cases x; simp add: join_toks_def cons_tok_def)+

lemma lex_ws [simp]: "is_ws c \<Longrightarrow> scan (c # s) = scan s"
  by simp

lemma lex_replicate: "is_ws c \<Longrightarrow> scan (replicate n c @ s) = scan s"
  by (induction n) simp_all

lemma lex_newline [simp]: "scan (newline d @ s) = scan s"
proof -
  have "is_ws (CHR 0x0A)" "is_ws (CHR '' '')" by (simp_all add: is_ws_def)
  then show ?thesis by (simp add: newline_def lex_replicate del: scan.simps split: option.splits)
qed

lemma lex_punct: "punct c = Some t \<Longrightarrow> scan (c # s) = join_toks [t] (scan s)"
  by (auto simp: punct_def is_ws_def split: if_splits)

lemma lex_puncts [simp]:
  "scan (CHR ''['' # s) = join_toks [LBrack] (scan s)" "scan (CHR '']'' # s) = join_toks [RBrack] (scan s)"
  "scan (CHR ''{'' # s) = join_toks [LBrace] (scan s)" "scan (CHR ''}'' # s) = join_toks [RBrace] (scan s)"
  "scan (CHR '','' # s) = join_toks [Comma] (scan s)" "scan (CHR '':'' # s) = join_toks [Colon] (scan s)"
  by (simp_all add: lex_punct punct_def del: scan.simps)

lemma lex_colon [simp]: "scan (colon d @ s) = join_toks [Colon] (scan s)"
  by (simp add: colon_def is_ws_def del: scan.simps)

lemma lex_str_text: "scan (str_text s @ r) = join_toks [TStr (utf8_fix s)] (scan r)"
  by (simp add: str_text_def is_ws_def punct_def lex_str_esc utf8_fix_valid)

lemma lex_words:
  "scan (CHR ''n'' # CHR ''u'' # CHR ''l'' # CHR ''l'' # r) = join_toks [TNull] (scan r)"
  "scan (CHR ''t'' # CHR ''r'' # CHR ''u'' # CHR ''e'' # r) = join_toks [TTrue] (scan r)"
  "scan (CHR ''f'' # CHR ''a'' # CHR ''l'' # CHR ''s'' # CHR ''e'' # r) = join_toks [TFalse] (scan r)"
  by (simp_all add: is_ws_def punct_def HasPrefix_def is_digit_def digit_val_def)

lemma digit_num_char: "is_digit c \<Longrightarrow> num_char c"
  by (simp add: num_char_def)

lemma digits_num_char: "list_all is_digit d \<Longrightarrow> list_all num_char d"
  by (auto simp: list_all_iff digit_num_char)

lemma list_all_split: "list_all P (takeWhile Q s) \<Longrightarrow> list_all P (dropWhile Q s) \<Longrightarrow> list_all P s"
  by (metis list_all_append takeWhile_dropWhile_id)

lemma digits_takeWhile: "list_all num_char (takeWhile is_digit s)"
  by (auto simp: list_all_iff digit_num_char dest: set_takeWhileD)

lemma exp_ok_chars: "exp_ok s \<Longrightarrow> list_all num_char s"
  by (auto simp: exp_ok_def num_char_def Let_def dest!: digits_num_char split: list.splits if_splits)

lemma frac_ok_chars: "frac_ok s \<Longrightarrow> list_all num_char s"
  using exp_ok_chars [of s]
  by (auto simp: frac_ok_def split: list.splits if_splits
      intro: exp_ok_chars list_all_split [OF digits_takeWhile])
    (simp add: num_char_def)

lemma num_ok_chars: "num_ok s \<Longrightarrow> list_all num_char s \<and> s \<noteq> [] \<and> (is_digit (hd s) \<or> hd s = CHR ''-'')"
proof -
  assume n: "num_ok s"
  define u where "u = (case s of c # r \<Rightarrow> if c = CHR ''-'' then r else s | [] \<Rightarrow> [])"
  from n have i: "takeWhile is_digit u \<noteq> []" and f: "frac_ok (dropWhile is_digit u)"
    by (auto simp: num_ok_def u_def Let_def)
  have "list_all num_char u" by (rule list_all_split [OF digits_takeWhile frac_ok_chars [OF f]])
  moreover from i obtain d v where "u = d # v" "is_digit d"
    by (cases u) (auto split: if_splits)
  ultimately show ?thesis
    by (auto simp: u_def num_char_def split: list.splits if_splits)
qed

lemma lex_num:
  assumes "num_ok s" and "stops r"
  shows "scan (s @ r) = join_toks [TNum s] (scan r)"
proof -
  from num_ok_chars [OF assms(1)] obtain c cs where s: "s = c # cs"
    and c: "is_digit c \<or> c = CHR ''-''" and a: "list_all num_char s"
    by (cases s) auto
  from a assms(2) have t: "takeWhile num_char (s @ r) = s"
    by (cases r) (auto simp: stops_def list_all_iff takeWhile_append2)
  from c have "\<not> is_ws c" "punct c = None" "c \<noteq> quote"
    by (auto simp: is_digit_def digit_val_def is_ws_def punct_def)
  with c t s assms(1) show ?thesis by (simp add: Let_def)
qed

lemma stops_simps [simp]:
  "stops []" "stops (CHR '','' # r)" "stops (CHR '']'' # r)" "stops (CHR ''}'' # r)"
  "stops (CHR 0x0A # r)"
  by (simp_all add: stops_def num_char_def is_digit_def digit_val_def)

lemma stops_newline [simp]: "stops (newline d @ CHR '']'' # r)" "stops (newline d @ CHR ''}'' # r)"
  by (auto simp: newline_def split: option.splits)

lemma lex_emit_aux:
  "nums_ok j \<Longrightarrow> stops r \<Longrightarrow> scan (emit d j @ r) = join_toks (toks (json_fix j)) (scan r)"
  "list_all nums_ok js \<Longrightarrow> stops r \<Longrightarrow> scan (emit_elems d js @ r) = join_toks (toks_elems (map json_fix js)) (scan r)"
  "list_all (\<lambda>f. nums_ok (snd f)) fs \<Longrightarrow> stops r \<Longrightarrow>
     scan (emit_fields d fs @ r) = join_toks (toks_fields (map (\<lambda>f. (utf8_fix (fst f), json_fix (snd f))) fs)) (scan r)"
proof (induction d j and d js and d fs arbitrary: r and r and r
    rule: emit_emit_elems_emit_fields.induct)
  case (5 d js)
  then show ?case by (cases "js = []") (simp_all add: list_all_iff del: scan.simps)
next
  case (6 d fs)
  then show ?case by (cases "fs = []") (simp_all add: list_all_iff del: scan.simps)
qed (simp_all add: lex_words lex_num lex_str_text del: scan.simps)

lemma lex_emit: "json_ok j \<Longrightarrow> stops r \<Longrightarrow> scan (emit d j @ r) = join_toks (toks j) (scan r)"
  using lex_emit_aux(1) [of j r d] json_ok_fix [of j] by simp

lemma parse_emit_fix: "nums_ok j \<Longrightarrow> parse_json (emit d j) = Some (json_fix j)"
proof -
  assume "nums_ok j"
  then have "scan (emit d j) = Some (toks (json_fix j))"
    using lex_emit_aux(1) [of j "[]" d] by simp
  with parse_toks [of "json_fix j"] show ?thesis by (simp add: parse_json_def)
qed

lemma parse_emit: "json_ok j \<Longrightarrow> parse_json (emit d j) = Some j"
  using parse_emit_fix [of j d] json_ok_fix [of j] by simp

lemma is_digit_char: "d < 10 \<Longrightarrow> is_digit (digit_char d)"
  by (simp add: is_digit_def)

lemma digit_char_zero: "d < 10 \<Longrightarrow> digit_char d = CHR ''0'' \<Longrightarrow> d = 0"
  using digit_val_char [of d] by (simp add: digit_val_def)

lemma takeWhile_dec_nat: "takeWhile is_digit (dec_nat n) = dec_nat n" "dropWhile is_digit (dec_nat n) = []"
  using dec_nat_digits is_digit_char by (metis takeWhile_eq_all_conv, metis dropWhile_eq_Nil_conv)

lemma hd_dec_nat: "n \<noteq> 0 \<Longrightarrow> hd (dec_nat n) \<noteq> CHR ''0''"
proof (induction n rule: dec_nat.induct)
  case (1 n)
  show ?case
  proof (cases "n < 10")
    case True
    with "1.prems" digit_char_zero [of n] show ?thesis by (subst dec_nat.simps) auto
  next
    case False
    with "1.IH" show ?thesis by (subst dec_nat.simps) simp
  qed
qed

lemma num_ok_dec_nat:
  "dec_nat n \<noteq> [] \<and> (hd (dec_nat n) = CHR ''0'' \<longrightarrow> dec_nat n = ''0'') \<and> frac_ok []"
proof (cases "n = 0")
  case True
  then show ?thesis
    by (subst (1 2 3) dec_nat.simps) (simp add: digit_char_def char_of_eq_iff frac_ok_def)
next
  case False
  then show ?thesis by (simp add: hd_dec_nat frac_ok_def)
qed

lemma num_ok_itoa [simp]: "num_ok (itoa i)"
proof (cases "i < 0")
  case True
  then show ?thesis
    using num_ok_dec_nat [of "nat (- i)"] by (simp add: num_ok_def itoa_def takeWhile_dec_nat Let_def)
next
  case False
  obtain c cs where d: "dec_nat (nat i) = c # cs" by (cases "dec_nat (nat i)") auto
  with dec_nat_digits [of c "nat i"] digit_char_not_minus have "c \<noteq> CHR ''-''" by auto
  with False d num_ok_dec_nat [of "nat i"] takeWhile_dec_nat [of "nat i"] show ?thesis
    by (auto simp: num_ok_def itoa_def Let_def split: if_splits)
qed

subsection \<open>Decoding into structs\<close>

text \<open>
  A member of the document goes to the field whose name it has, letter case aside; a later
  member overrides an earlier one, \<open>null\<close> leaves the field as it is, and a field no member
  names keeps its zero value. A member of the wrong type, or a number out of the field's
  range, is an error.
\<close>

definition lower :: "string \<Rightarrow> string" where
  "lower = map (\<lambda>c. if 65 \<le> byte c \<and> byte c \<le> 90 then char_of (byte c + 32) else c)"

definition member :: "string \<Rightarrow> (string \<times> json) list \<Rightarrow> json option" where
  "member name fs =
     (case filter (\<lambda>(k, v). lower k = name \<and> v \<noteq> JNull) fs of
        [] \<Rightarrow> None
      | ms \<Rightarrow> Some (snd (last ms)))"

definition dec_str :: "json option \<Rightarrow> string option" where
  "dec_str j = (case j of None \<Rightarrow> Some [] | Some (JStr s) \<Rightarrow> Some s | _ \<Rightarrow> None)"

definition dec_bool :: "json option \<Rightarrow> bool option" where
  "dec_bool j = (case j of None \<Rightarrow> Some False | Some (JBool b) \<Rightarrow> Some b | _ \<Rightarrow> None)"

definition dec_int :: "int \<Rightarrow> int \<Rightarrow> json option \<Rightarrow> int option" where
  "dec_int lo hi j =
     (case j of
        None \<Rightarrow> Some 0
      | Some (JNum s) \<Rightarrow>
          (case parse_int s of
             None \<Rightarrow> None
           | Some i \<Rightarrow> if lo \<le> i \<and> i \<le> hi then Some i else None)
      | _ \<Rightarrow> None)"

definition dec_int64 :: "json option \<Rightarrow> int option" where
  "dec_int64 = dec_int (- (2 ^ 63)) (2 ^ 63 - 1)"

fun all_some :: "'a option list \<Rightarrow> 'a list option" where
  "all_some [] = Some []"
| "all_some (x # xs) =
     (case x of None \<Rightarrow> None | Some y \<Rightarrow> map_option (Cons y) (all_some xs))"

definition dec_list :: "(json \<Rightarrow> 'a option) \<Rightarrow> json option \<Rightarrow> 'a list option" where
  "dec_list f j =
     (case j of None \<Rightarrow> Some [] | Some (JArr js) \<Rightarrow> all_some (map f js) | _ \<Rightarrow> None)"

text \<open>A string list; a \<open>null\<close> element leaves the zero value.\<close>

definition dec_str_elem :: "json \<Rightarrow> string option" where
  "dec_str_elem j = dec_str (if j = JNull then None else Some j)"

lemma all_some_map: "(\<forall>x \<in> set xs. f (g x) = Some x) \<Longrightarrow> all_some (map f (map g xs)) = Some xs"
  by (induction xs) auto

lemma dec_str_simps [simp]: "dec_str None = Some []" "dec_str (Some (JStr s)) = Some s"
  by (simp_all add: dec_str_def)

lemma dec_bool_simps [simp]: "dec_bool None = Some False" "dec_bool (Some (JBool b)) = Some b"
  by (simp_all add: dec_bool_def)

lemma dec_int_simps [simp]:
  "dec_int lo hi None = Some 0"
  "lo \<le> i \<Longrightarrow> i \<le> hi \<Longrightarrow> dec_int lo hi (Some (JNum (itoa i))) = Some i"
  by (simp_all add: dec_int_def)

lemma dec_int64_itoa: "int64 i = i \<Longrightarrow> dec_int64 (Some (JNum (itoa i))) = Some i"
  using signed_take_bit_int_greater_eq_minus_exp [of 63 i] signed_take_bit_int_less_exp [of 63 i]
  by (simp add: dec_int64_def int64_def)

lemma dec_list_strs: "dec_list dec_str_elem (Some (JArr (map JStr xs))) = Some xs"
  using all_some_map [of xs dec_str_elem JStr] by (simp add: dec_list_def dec_str_elem_def)

lemma member_simps:
  "member n [] = None"
  "member n ((k, v) # fs) =
     (case member n fs of Some j \<Rightarrow> Some j
      | None \<Rightarrow> if lower k = n \<and> v \<noteq> JNull then Some v else None)"
  by (auto simp: member_def split: list.splits)

end
