(* ===== verification/GoTime.thy ===== *)
theory GoTime
  imports GoJson
begin

section \<open>Times\<close>

text \<open>
  The values of \<open>time.Time\<close> the sources store: the wall clock of a zone that is \<open>t_off\<close> minutes ahead
  of UTC, compared as \<open>After\<close> compares them (by the instant), written to JSON as RFC 3339 with as many
  digits of the second as needed, and read back the way \<open>time.Parse\<close> reads it: an hour of one digit, a
  comma before the fraction and offsets up to \<open>24:60\<close> are accepted. Every time vitvm makes is in UTC
  (\<open>time.Now().UTC()\<close>); a record from elsewhere may have an offset. \<open>UnmarshalJSON\<close> looks at the quoted
  text as it stands, where the model's reader has undone the escapes of the JSON string, so that
  it also reads texts that Go refuses.
\<close>

datatype time = At (t_year: nat) (t_month: nat) (t_day: nat) (t_hour: nat) (t_min: nat) (t_sec: nat) (t_nsec: nat) (t_off: int)

abbreviation UTC :: "nat \<Rightarrow> nat \<Rightarrow> nat \<Rightarrow> nat \<Rightarrow> nat \<Rightarrow> nat \<Rightarrow> nat \<Rightarrow> time" where
  "UTC y mo d h mi s ns \<equiv> At y mo d h mi s ns 0"

text \<open>The zero value of \<open>time.Time\<close>.\<close>

definition zero_time :: time where
  "zero_time = UTC 1 1 1 0 0 0 0"

definition leap :: "nat \<Rightarrow> bool" where
  "leap y \<longleftrightarrow> y mod 4 = 0 \<and> (y mod 100 \<noteq> 0 \<or> y mod 400 = 0)"

definition days_in :: "nat \<Rightarrow> nat \<Rightarrow> nat" where
  "days_in m y = (if m = 2 then (if leap y then 29 else 28) else if m \<in> {4, 6, 9, 11} then 30 else 31)"

text \<open>A time as it can be read, and one that can be written as well: its offset is less than a day.\<close>

definition time_read :: "time \<Rightarrow> bool" where
  "time_read t \<longleftrightarrow> int (t_year t) < 10000 \<and> 1 \<le> t_month t \<and> t_month t \<le> 12 \<and> 1 \<le> t_day t \<and>
     t_day t \<le> days_in (t_month t) (t_year t) \<and> t_hour t < 24 \<and> t_min t < 60 \<and> t_sec t < 60 \<and> int (t_nsec t) < 10 ^ 9 \<and>
     \<bar>t_off t\<bar> \<le> 24 * 60 + 60"

definition time_ok :: "time \<Rightarrow> bool" where
  "time_ok t \<longleftrightarrow> time_read t \<and> \<bar>t_off t\<bar> < 24 * 60"

text \<open>The instant a time names, in nanoseconds from the first day of year 0.\<close>

definition days_before :: "nat \<Rightarrow> nat \<Rightarrow> nat \<Rightarrow> nat" where
  "days_before y mo d =
     365 * y + (y + 3) div 4 + (y + 399) div 400 - (y + 99) div 100 + sum_list (map (\<lambda>m. days_in m y) [1..<mo]) + (d - 1)"

definition instant :: "time \<Rightarrow> int" where
  "instant t =
     (((int (days_before (t_year t) (t_month t) (t_day t)) * 24 + int (t_hour t)) * 60 + int (t_min t) - t_off t) * 60 +
      int (t_sec t)) * 10 ^ 9 + int (t_nsec t)"

subsection \<open>RFC 3339\<close>

fun pad :: "nat \<Rightarrow> nat \<Rightarrow> string" where
  "pad 0 n = []"
| "pad (Suc k) n = pad k (n div 10) @ [digit_char (n mod 10)]"

definition trim_zeros :: "string \<Rightarrow> string" where
  "trim_zeros s = rev (dropWhile (\<lambda>c. c = CHR ''0'') (rev s))"

definition frac_text :: "nat \<Rightarrow> string" where
  "frac_text ns = (if ns = 0 then [] else CHR ''.'' # trim_zeros (pad 9 ns))"

definition zone_text :: "int \<Rightarrow> string" where
  "zone_text off =
     (if off = 0 then ''Z''
      else (if off < 0 then CHR ''-'' else CHR ''+'') # pad 2 (nat \<bar>off\<bar> div 60) @ CHR '':'' # pad 2 (nat \<bar>off\<bar> mod 60))"

definition time_text :: "time \<Rightarrow> string" where
  "time_text t = pad 4 (t_year t) @ CHR ''-'' # pad 2 (t_month t) @ CHR ''-'' # pad 2 (t_day t) @
     CHR ''T'' # pad 2 (t_hour t) @ CHR '':'' # pad 2 (t_min t) @ CHR '':'' # pad 2 (t_sec t) @
     frac_text (t_nsec t) @ zone_text (t_off t)"

definition read_num :: "nat \<Rightarrow> string \<Rightarrow> (nat \<times> string) option" where
  "read_num k s = (if length s < k then None
     else map_option (\<lambda>n. (n, drop k s)) (read_digits 0 (take k s)))"

definition read_char :: "char \<Rightarrow> string \<Rightarrow> string option" where
  "read_char c s = (case s of [] \<Rightarrow> None | d # r \<Rightarrow> if d = c then Some r else None)"

text \<open>The digits after a point or a comma, at least one, those beyond the ninth dropped.\<close>

definition read_frac :: "string \<Rightarrow> (nat \<times> string) option" where
  "read_frac s =
     (case s of
        [] \<Rightarrow> Some (0, s)
      | c # r \<Rightarrow>
          if c \<noteq> CHR ''.'' \<and> c \<noteq> CHR '','' then Some (0, s)
          else
            let ds = takeWhile is_digit r in
            if ds = [] then None
            else map_option (\<lambda>n. (n, dropWhile is_digit r))
                   (read_digits 0 (take 9 (ds @ replicate 9 (CHR ''0'')))))"

text \<open>An hour may have one digit.\<close>

definition read_hour :: "string \<Rightarrow> (nat \<times> string) option" where
  "read_hour s = (case read_num 2 s of Some x \<Rightarrow> Some x | None \<Rightarrow> read_num 1 s)"

definition read_zone :: "string \<Rightarrow> int option" where
  "read_zone s =
     (if s = ''Z'' then Some 0
      else case s of
        [] \<Rightarrow> None
      | sg # s \<Rightarrow>
          if sg \<noteq> CHR ''+'' \<and> sg \<noteq> CHR ''-'' then None
          else
            Option.bind (read_num 2 s) (\<lambda>(h, s). Option.bind (read_char (CHR '':'') s) (\<lambda>s.
            Option.bind (read_num 2 s) (\<lambda>(m, s).
              if s = [] \<and> h \<le> 24 \<and> m \<le> 60 then Some ((if sg = CHR ''-'' then - 1 else 1) * int (60 * h + m)) else None))))"

definition parse_time :: "string \<Rightarrow> time option" where
  "parse_time s =
     Option.bind (read_num 4 s) (\<lambda>(y, s). Option.bind (read_char (CHR ''-'') s) (\<lambda>s.
     Option.bind (read_num 2 s) (\<lambda>(mo, s). Option.bind (read_char (CHR ''-'') s) (\<lambda>s.
     Option.bind (read_num 2 s) (\<lambda>(d, s). Option.bind (read_char (CHR ''T'') s) (\<lambda>s.
     Option.bind (read_hour s) (\<lambda>(h, s). Option.bind (read_char (CHR '':'') s) (\<lambda>s.
     Option.bind (read_num 2 s) (\<lambda>(mi, s). Option.bind (read_char (CHR '':'') s) (\<lambda>s.
     Option.bind (read_num 2 s) (\<lambda>(sec, s). Option.bind (read_frac s) (\<lambda>(ns, s).
     Option.bind (read_zone s) (\<lambda>off.
       let t = At y mo d h mi sec ns off in
       if time_read t then Some t else None)))))))))))))"

lemma length_pad [simp]: "length (pad k n) = k"
  by (induction k arbitrary: n) auto

lemma read_pad: "read_digits a (pad k n) = Some (a * 10 ^ k + n mod 10 ^ k)"
proof (induction k arbitrary: n)
  case (Suc k)
  have "n div 10 mod 10 ^ k * 10 + n mod 10 = n mod 10 ^ Suc k"
    using mod_mult2_eq [of n 10 "10 ^ k"] by simp
  with Suc show ?case by (simp add: read_digits_append algebra_simps)
qed simp

lemma read_num_pad: "n < 10 ^ k \<Longrightarrow> read_num k (pad k n @ r) = Some (n, r)"
  by (simp add: read_num_def read_pad)

lemma read_char_Cons [simp]: "read_char c (c # r) = Some r"
  by (simp add: read_char_def)

lemma pad_digits: "c \<in> set (pad k n) \<Longrightarrow> is_digit c"
  by (induction k arbitrary: n) (auto simp: is_digit_char)

lemma trim_zeros_append:
  "trim_zeros s @ replicate (length s - length (trim_zeros s)) (CHR ''0'') = s"
proof -
  let ?z = "takeWhile (\<lambda>c. c = CHR ''0'') (rev s)" and ?d = "dropWhile (\<lambda>c. c = CHR ''0'') (rev s)"
  have "?z = replicate (length ?z) (CHR ''0'')"
    by (rule replicate_length_same [symmetric]) (auto dest: set_takeWhileD)
  moreover have "rev ?d @ rev ?z = s" using takeWhile_dropWhile_id [of _ "rev s"] by (metis rev_append rev_rev_ident)
  moreover have "length s - length (trim_zeros s) = length ?z"
    unfolding trim_zeros_def by (metis add_diff_cancel_right' length_append length_rev takeWhile_dropWhile_id)
  ultimately show ?thesis unfolding trim_zeros_def by (metis rev_replicate)
qed

lemma set_trim_zeros: "set (trim_zeros s) \<subseteq> set s"
  unfolding trim_zeros_def using set_dropWhileD by fastforce

lemma read_zeros: "read_digits 0 (replicate k (CHR ''0'')) = Some 0"
proof -
  have "digit_val (CHR ''0'') = Some 0" by (simp add: digit_val_def)
  then show ?thesis by (induction k) simp_all
qed

lemma read_frac_text:
  assumes "ns < 10 ^ 9" and z: "z \<noteq> []" "\<not> is_digit (hd z)" "hd z \<noteq> CHR ''.''" "hd z \<noteq> CHR '',''"
  shows "read_frac (frac_text ns @ z) = Some (ns, z)"
proof (cases "ns = 0")
  case True
  with z show ?thesis by (cases z) (simp_all add: frac_text_def read_frac_def)
next
  case False
  let ?s = "pad 9 ns" and ?t = "trim_zeros (pad 9 ns)"
  have r: "read_digits 0 ?s = Some ns" using read_pad [of 0 9 ns] assms(1) by simp
  have ne: "?t \<noteq> []"
  proof
    assume "?t = []"
    with trim_zeros_append [of ?s] have "?s = replicate 9 (CHR ''0'')" by simp
    with r read_zeros [of 9] False show False by simp
  qed
  have d: "\<forall>c \<in> set ?t. is_digit c" using set_trim_zeros pad_digits by blast
  have tw: "takeWhile is_digit (?t @ z) = ?t" "dropWhile is_digit (?t @ z) = z"
    using d z by (cases z; simp add: takeWhile_append2 dropWhile_append2)+
  have l: "length ?t \<le> 9"
    using arg_cong [OF trim_zeros_append [of ?s], of length] by simp
  have "take 9 (?t @ replicate 9 (CHR ''0'')) = ?t @ replicate (9 - length ?t) (CHR ''0'')"
    using l by simp
  also have "\<dots> = ?s" using trim_zeros_append [of ?s] by simp
  finally show ?thesis
    using tw ne r False by (simp add: frac_text_def read_frac_def Let_def)
qed

lemma read_zone_text:
  assumes "\<bar>off\<bar> < 24 * 60"
  shows "read_zone (zone_text off) = Some off"
proof (cases "off = 0")
  case False
  let ?n = "nat \<bar>off\<bar>"
  have b: "?n div 60 \<le> 24" "?n mod 60 \<le> 60" using assms by (simp_all add: div_le_mono less_imp_le)
  have p: "read_num 2 (pad 2 (?n div 60) @ r) = Some (?n div 60, r)" "read_num 2 (pad 2 (?n mod 60)) = Some (?n mod 60, [])" for r
    using read_num_pad [of "?n div 60" 2 r] read_num_pad [of "?n mod 60" 2 "[]"] b by simp_all
  have "int (60 * (?n div 60) + ?n mod 60) = \<bar>off\<bar>" by (simp only: mult_div_mod_eq)
  with b p False show ?thesis by (simp add: read_zone_def zone_text_def)
qed (simp add: read_zone_def zone_text_def)

lemma zone_text_hd: "zone_text off \<noteq> []" "\<not> is_digit (hd (zone_text off))" "hd (zone_text off) \<noteq> CHR ''.''" "hd (zone_text off) \<noteq> CHR '',''"
  by (simp_all add: zone_text_def is_digit_def digit_val_def)

lemma parse_time_text: "time_ok t \<Longrightarrow> parse_time (time_text t) = Some t"
proof (cases t)
  case (At y mo d h mi s ns off)
  assume ok: "time_ok t"
  then have b: "y < 10 ^ 4" "mo < 10 ^ 2" "d < 10 ^ 2" "h < 10 ^ 2" "mi < 10 ^ 2" "s < 10 ^ 2" "ns < 10 ^ 9" "\<bar>off\<bar> < 24 * 60"
    by (auto simp: time_ok_def time_read_def At days_in_def split: if_splits)
  have "read_hour (pad 2 h @ r) = Some (h, r)" for r using b by (simp add: read_hour_def read_num_pad)
  then show ?thesis
    using ok b read_frac_text [OF b(7) zone_text_hd] read_zone_text [OF b(8)]
    by (simp add: At time_text_def parse_time_def read_num_pad time_ok_def)
qed

lemma time_text_ascii: "valid_utf8 (time_text t)"
proof -
  have d: "byte c < 128" if "is_digit c" for c
    using that by (auto simp: is_digit_def digit_val_def Let_def split: if_splits)
  have "byte c < 128" if "c \<in> set (trim_zeros (pad k n))" for c k n
    using that set_trim_zeros pad_digits d by blast
  with pad_digits d show ?thesis
    by (intro valid_utf8_ascii) (auto simp: time_text_def frac_text_def zone_text_def split: if_splits)
qed

lemma parse_time_read: "parse_time s = Some t \<Longrightarrow> time_read t"
  by (auto simp: parse_time_def Let_def bind_eq_Some_conv split: if_splits)

definition dec_time :: "json option \<Rightarrow> time option" where
  "dec_time j = (case j of None \<Rightarrow> Some zero_time | Some (JStr s) \<Rightarrow> parse_time s | _ \<Rightarrow> None)"

lemma dec_time_text: "time_ok t \<Longrightarrow> dec_time (Some (JStr (time_text t))) = Some t"
  by (simp add: dec_time_def parse_time_text)

end
