(* ===== verification/HostFs.thy ===== *)
theory HostFs
  imports Prelude "HOL-Library.Finite_Map"
begin

unbundle bit_operations_syntax

section \<open>The host filesystem under vitvm\<close>

text \<open>
  The parts of packages \<open>os\<close> and \<open>path/filepath\<close> that vitvm calls, over a model of a POSIX
  filesystem: a finite map from absolute paths (lists of names) to inodes. A regular file's
  contents are cells, \<open>None\<close> for a byte in a hole of a sparse file, so that \<open>SEEK_DATA\<close> and
  \<open>SEEK_HOLE\<close> can be told from the contents. Path resolution follows symbolic links the way
  the kernel does, with its limit of 40. Permissions are not checked (vitvm runs as the owner
  or root), and a system call fails only for the reasons the file tree gives; running out of
  space and device errors are left out. The lemmas give the effect of every call on a
  well-formed tree (\<open>fs_ok\<close>) at a path whose parent is a directory, as one update of the map,
  and that every call keeps the tree well formed.
\<close>

subsection \<open>Inodes, paths and the world\<close>

type_synonym path = "string list"
type_synonym mode = "32 word"

text \<open>The permission bits the sources write in octal.\<close>

abbreviation mode_0755 :: mode where "mode_0755 \<equiv> 493"
abbreviation mode_0777 :: mode where "mode_0777 \<equiv> 511"
abbreviation mode_0700 :: mode where "mode_0700 \<equiv> 448"
abbreviation mode_0644 :: mode where "mode_0644 \<equiv> 420"
abbreviation mode_0600 :: mode where "mode_0600 \<equiv> 384"

datatype inode =
    File mode "char option list"
  | Dir mode
  | Link string
  | Special mode

type_synonym fs = "(path, inode) fmap"

record world =
  hfs :: fs
  umask :: mode
  lseek_ok :: bool \<comment> \<open>whether the filesystem answers \<open>SEEK_DATA\<close> and \<open>SEEK_HOLE\<close>\<close>
  zeroHashes :: "int \<rightharpoonup> string" \<comment> \<open>the process-wide memo of package \<open>cas\<close>\<close>

definition fread :: "char option list \<Rightarrow> bytes" where
  "fread cs = map (\<lambda>c. case c of None \<Rightarrow> CHR 0x00 | Some b \<Rightarrow> b) cs"

definition fdata :: "bytes \<Rightarrow> char option list" where
  "fdata b = map Some b"

lemma fread_fdata [simp]: "fread (fdata b) = b"
  by (simp add: fread_def fdata_def comp_def)

lemma length_fdata [simp]: "length (fdata b) = length b"
  by (simp add: fdata_def)

lemma length_fread [simp]: "length (fread cs) = length cs"
  by (simp add: fread_def)

definition ok_name :: "string \<Rightarrow> bool" where
  "ok_name n \<longleftrightarrow> n \<noteq> [] \<and> n \<noteq> ''.'' \<and> n \<noteq> ''..'' \<and> CHR ''/'' \<notin> set n"

definition inode_at :: "fs \<Rightarrow> path \<Rightarrow> inode option" where
  "inode_at f p = (if p = [] then Some (Dir mode_0755) else fmlookup f p)"

fun is_dir :: "inode \<Rightarrow> bool" where
  "is_dir (Dir m) = True"
| "is_dir _ = False"

fun is_link :: "inode \<Rightarrow> bool" where
  "is_link (Link t) = True"
| "is_link _ = False"

definition is_dir_at :: "fs \<Rightarrow> path \<Rightarrow> bool" where
  "is_dir_at f p \<longleftrightarrow> (case inode_at f p of None \<Rightarrow> False | Some i \<Rightarrow> is_dir i)"

text \<open>\<open>filepath.Clean\<close> of the components \<open>cs\<close> below the clean absolute path \<open>p\<close>.\<close>

fun clean_from :: "path \<Rightarrow> string list \<Rightarrow> path" where
  "clean_from p [] = p"
| "clean_from p (c # cs) =
     (if c = [] \<or> c = ''.'' then clean_from p cs
      else if c = ''..'' then clean_from (butlast p) cs
      else clean_from (p @ [c]) cs)"

text \<open>\<open>filepath.Join(p, s)\<close> for a clean absolute \<open>p\<close> and a slash-separated \<open>s\<close>.\<close>

definition fp_join :: "path \<Rightarrow> string \<Rightarrow> path" where
  "fp_join p s = clean_from p (split_on (CHR ''/'') s)"

subsection \<open>Path resolution\<close>

function resolve :: "nat \<Rightarrow> fs \<Rightarrow> bool \<Rightarrow> path \<Rightarrow> string list \<Rightarrow> errno + path" where
  "resolve n f follow cur [] = Inr cur"
| "resolve n f follow cur (c # cs) =
     (if c = [] \<or> c = ''.'' then resolve n f follow cur cs
      else if c = ''..'' then resolve n f follow (butlast cur) cs
      else case inode_at f (cur @ [c]) of
        None \<Rightarrow> if cs = [] then Inr (cur @ [c]) else Inl ENOENT
      | Some (Link t) \<Rightarrow>
          if cs = [] \<and> \<not> follow then Inr (cur @ [c])
          else if n = 0 then Inl ELOOP
          else resolve (n - 1) f follow (if HasPrefix t ''/'' then [] else cur)
                 (split_on (CHR ''/'') t @ cs)
      | Some (Dir m) \<Rightarrow> resolve n f follow (cur @ [c]) cs
      | Some i \<Rightarrow> if cs = [] then Inr (cur @ [c]) else Inl ENOTDIR)"
  by pat_completeness auto
termination
  by (relation "measures [\<lambda>(n, f, fl, cur, cs). n, \<lambda>(n, f, fl, cur, cs). length cs]") auto

definition namei :: "fs \<Rightarrow> bool \<Rightarrow> path \<Rightarrow> err + path" where
  "namei f follow p = (case resolve 40 f follow [] p of Inl e \<Rightarrow> Inl (Errno e) | Inr q \<Rightarrow> Inr q)"

subsection \<open>System calls\<close>

text \<open>Each call is a computation over the filesystem; \<open>on_fs\<close> runs it in the world.\<close>

definition on_fs :: "(fs, 'a) io \<Rightarrow> ('z world_scheme, 'a) io" where
  "on_fs m = (\<lambda>w. case m (hfs w) of (r, f) \<Rightarrow> (r, w\<lparr>hfs := f\<rparr>))"

definition stat_with :: "bool \<Rightarrow> fs \<Rightarrow> path \<Rightarrow> err + inode" where
  "stat_with follow f p =
     (case namei f follow p of
        Inl e \<Rightarrow> Inl e
      | Inr q \<Rightarrow> (case inode_at f q of None \<Rightarrow> Inl (Errno ENOENT) | Some i \<Rightarrow> Inr i))"

definition Stat :: "fs \<Rightarrow> path \<Rightarrow> err + inode" where
  "Stat = stat_with True"

definition Lstat :: "fs \<Rightarrow> path \<Rightarrow> err + inode" where
  "Lstat = stat_with False"

definition exists_at :: "fs \<Rightarrow> path \<Rightarrow> bool" where
  "exists_at f p = (case Stat f p of Inl e \<Rightarrow> False | Inr i \<Rightarrow> True)"

definition open_cells :: "fs \<Rightarrow> path \<Rightarrow> err + char option list" where
  "open_cells f p =
     (case Stat f p of
        Inl e \<Rightarrow> Inl e
      | Inr (File m cs) \<Rightarrow> Inr cs
      | Inr (Dir m) \<Rightarrow> Inl (Errno EISDIR)
      | Inr i \<Rightarrow> Inl (Errno ENXIO))"

definition ReadFile :: "fs \<Rightarrow> path \<Rightarrow> err + bytes" where
  "ReadFile f p = (case open_cells f p of Inl e \<Rightarrow> Inl e | Inr cs \<Rightarrow> Inr (fread cs))"

definition Readlink :: "fs \<Rightarrow> path \<Rightarrow> err + string" where
  "Readlink f p =
     (case Lstat f p of
        Inl e \<Rightarrow> Inl e
      | Inr (Link t) \<Rightarrow> Inr t
      | Inr i \<Rightarrow> Inl (Errno EINVAL))"

definition create_with :: "path \<Rightarrow> inode \<Rightarrow> (fs, unit) io" where
  "create_with p i = (\<lambda>f.
     case namei f False p of
       Inl e \<Rightarrow> (Inl e, f)
     | Inr q \<Rightarrow> (case inode_at f q of
         None \<Rightarrow> (Inr (), fmupd q i f)
       | Some j \<Rightarrow> (Inl (Errno EEXIST), f)))"

definition Mkdir :: "mode \<Rightarrow> path \<Rightarrow> mode \<Rightarrow> (fs, unit) io" where
  "Mkdir um p m = create_with p (Dir (m AND NOT um))"

definition Symlink :: "string \<Rightarrow> path \<Rightarrow> (fs, unit) io" where
  "Symlink t p = (if t = [] then fail (Errno ENOENT) else create_with p (Link t))"

text \<open>The last step of \<open>os.MkdirAll\<close>: a failed \<open>Mkdir\<close> is fine where a directory is there now.\<close>

definition mkdir_checked :: "mode \<Rightarrow> path \<Rightarrow> mode \<Rightarrow> (fs, unit) io" where
  "mkdir_checked um p m f =
     (case Mkdir um p m f of
        (Inr _, g) \<Rightarrow> (Inr (), g)
      | (Inl e, g) \<Rightarrow> (case Lstat g p of Inr (Dir m') \<Rightarrow> (Inr (), g) | _ \<Rightarrow> (Inl e, g)))"

function MkdirAll :: "mode \<Rightarrow> path \<Rightarrow> mode \<Rightarrow> (fs, unit) io" where
  "MkdirAll um p m f =
     (case Stat f p of
        Inr i \<Rightarrow> if is_dir i then (Inr (), f) else (Inl (Errno ENOTDIR), f)
      | Inl e \<Rightarrow>
          (case (if p = [] then (Inr (), f) else MkdirAll um (butlast p) m f) of
             (Inl e', f') \<Rightarrow> (Inl e', f')
           | (Inr _, f') \<Rightarrow> mkdir_checked um p m f'))"
  by pat_completeness auto
termination
  by (relation "measure (\<lambda>(um, p, m, f). length p)") auto

declare MkdirAll.simps [simp del]

text \<open>
  \<open>os.OpenFile(p, O_CREATE|O_TRUNC|O_WRONLY, m)\<close>, the cells written and the file closed:
  the mode is given to a file that is created, and kept by one that is truncated.
\<close>

definition WriteCells :: "mode \<Rightarrow> path \<Rightarrow> char option list \<Rightarrow> mode \<Rightarrow> (fs, unit) io" where
  "WriteCells um p cs m = (\<lambda>f.
     case namei f True p of
       Inl e \<Rightarrow> (Inl e, f)
     | Inr q \<Rightarrow> (case inode_at f q of
         None \<Rightarrow> (Inr (), fmupd q (File (m AND NOT um) cs) f)
       | Some (File m' old) \<Rightarrow> (Inr (), fmupd q (File m' cs) f)
       | Some (Dir m') \<Rightarrow> (Inl (Errno EISDIR), f)
       | Some i \<Rightarrow> (Inl (Errno ENXIO), f)))"

definition WriteFile :: "mode \<Rightarrow> path \<Rightarrow> bytes \<Rightarrow> mode \<Rightarrow> (fs, unit) io" where
  "WriteFile um p b m = WriteCells um p (fdata b) m"

definition has_children :: "fs \<Rightarrow> path \<Rightarrow> bool" where
  "has_children f p \<longleftrightarrow> (\<exists>q \<in> fset (fmdom f). strict_prefix p q)"

definition Remove :: "path \<Rightarrow> (fs, unit) io" where
  "Remove p = (\<lambda>f.
     case namei f False p of
       Inl e \<Rightarrow> (Inl e, f)
     | Inr q \<Rightarrow> (case inode_at f q of
         None \<Rightarrow> (Inl (Errno ENOENT), f)
       | Some (Dir m) \<Rightarrow> if q = [] \<or> has_children f q then (Inl (Errno ENOTEMPTY), f) else (Inr (), fmdrop q f)
       | Some i \<Rightarrow> (Inr (), fmdrop q f)))"

definition RemoveAll :: "path \<Rightarrow> (fs, unit) io" where
  "RemoveAll p = (\<lambda>f.
     case namei f False p of
       Inl e \<Rightarrow> if e = Errno ENOENT then (Inr (), f) else (Inl e, f)
     | Inr q \<Rightarrow> (Inr (), fmfilter (\<lambda>k. \<not> prefix q k) f))"

text \<open>\<open>os.Rename\<close> of a regular file over a file, a link, or nothing.\<close>

definition Rename :: "path \<Rightarrow> path \<Rightarrow> (fs, unit) io" where
  "Rename a b = (\<lambda>f.
     case (namei f False a, namei f False b) of
       (Inr p, Inr q) \<Rightarrow>
         (case (inode_at f p, inode_at f q) of
            (Some (File m cs), None) \<Rightarrow> (Inr (), fmupd q (File m cs) (fmdrop p f))
          | (Some (File m cs), Some (Dir m')) \<Rightarrow> (Inl (Errno EEXIST), f)
          | (Some (File m cs), Some i) \<Rightarrow>
              if p = q then (Inr (), f) else (Inr (), fmupd q (File m cs) (fmdrop p f))
          | (Some i, _) \<Rightarrow> (Inl (Errno EINVAL), f)
          | (None, _) \<Rightarrow> (Inl (Errno ENOENT), f))
     | (Inl e, _) \<Rightarrow> (Inl e, f)
     | (_, Inl e) \<Rightarrow> (Inl e, f))"

text \<open>
  \<open>filepath.WalkDir(root, fn)\<close>: what lies below \<open>root\<close>, in the order in which it is visited,
  each entry with its path relative to \<open>root\<close>. Directories are read in the order of their
  names and visited before their contents, which is the lexicographic order of the component
  lists; links are not followed. The visit of the root itself, which every caller skips, is
  left out.
\<close>

definition fs_paths :: "fs \<Rightarrow> path list" where
  "fs_paths f = sorted_list_of_fset (fmdom f)"

definition below :: "fs \<Rightarrow> path \<Rightarrow> (path \<times> inode) list" where
  "below f q =
     map (\<lambda>p. (drop (length q) p, the (fmlookup f p))) (filter (strict_prefix q) (fs_paths f))"

definition WalkDir :: "fs \<Rightarrow> path \<Rightarrow> err + (path \<times> inode) list" where
  "WalkDir f root =
     (case namei f False root of
        Inl e \<Rightarrow> Inl e
      | Inr q \<Rightarrow>
          (case inode_at f q of
             None \<Rightarrow> Inl (Errno ENOENT)
           | Some i \<Rightarrow> Inr (if is_dir i then below f q else [])))"

subsection \<open>Well-formed trees\<close>

definition slash_free :: "path \<Rightarrow> bool" where
  "slash_free p \<longleftrightarrow> (\<forall>c \<in> set p. CHR ''/'' \<notin> set c)"

text \<open>A place where an inode may stand: a proper name in an existing directory.\<close>

definition slot :: "fs \<Rightarrow> path \<Rightarrow> bool" where
  "slot f p \<longleftrightarrow> p = [] \<or> (ok_name (last p) \<and> is_dir_at f (butlast p))"

definition fs_ok :: "fs \<Rightarrow> bool" where
  "fs_ok f \<longleftrightarrow> (\<forall>p \<in> fset (fmdom f). p \<noteq> [] \<and> slot f p)"

lemma is_dir_at_Nil [simp]: "is_dir_at f []"
  by (simp add: is_dir_at_def inode_at_def)

lemma inode_at_Nil [simp]: "inode_at f [] = Some (Dir mode_0755)"
  by (simp add: inode_at_def)

lemma inode_at_snoc [simp]: "inode_at f (d @ [n]) = fmlookup f (d @ [n])"
  by (simp add: inode_at_def)

lemma inode_at_lookup: "p \<noteq> [] \<Longrightarrow> inode_at f p = fmlookup f p"
  by (simp add: inode_at_def)

lemma is_dir_at_cong: "fmlookup g p = fmlookup f p \<Longrightarrow> is_dir_at g p = is_dir_at f p"
  by (simp add: is_dir_at_def inode_at_def)

lemma is_dir_atE:
  assumes "is_dir_at f p"
  obtains m where "inode_at f p = Some (Dir m)"
  using assms by (auto simp: is_dir_at_def split: option.splits elim: is_dir.elims)

lemma is_dir_atI: "fmlookup f p = Some (Dir m) \<Longrightarrow> is_dir_at f p"
  by (simp add: is_dir_at_def inode_at_def)

lemma slotI [intro]: "is_dir_at f d \<Longrightarrow> ok_name n \<Longrightarrow> slot f (d @ [n])"
  by (simp add: slot_def)

lemma fs_okD:
  assumes "fs_ok f" and "fmlookup f p = Some i"
  shows "p \<noteq> []" and "ok_name (last p)" and "is_dir_at f (butlast p)"
  using assms by (auto simp: fs_ok_def slot_def dest: fmdomI)

lemma fs_ok_parent:
  assumes "fs_ok f" and "is_dir_at f p"
  shows "is_dir_at f (butlast p)"
proof (cases "p = []")
  case False
  from assms(2) obtain m where "inode_at f p = Some (Dir m)" by (rule is_dir_atE)
  with False assms(1) show ?thesis by (auto simp: inode_at_lookup intro: fs_okD)
qed simp

lemma fs_ok_prefix:
  assumes "fs_ok f" and "is_dir_at f (p @ q)"
  shows "is_dir_at f p"
  using assms(2)
proof (induction q rule: rev_induct)
  case (snoc x xs)
  then have "is_dir_at f (butlast (p @ xs @ [x]))"
    using fs_ok_parent [OF assms(1)] by blast
  with snoc.IH show ?case by (simp add: butlast_append)
qed simp

lemma fs_ok_above:
  assumes "fs_ok f" and "fmlookup f p = Some i" and "strict_prefix d p"
  shows "is_dir_at f d"
proof -
  from assms(3) obtain z where z: "p = d @ z" "z \<noteq> []" by (auto simp: strict_prefix_def prefix_def)
  with fs_okD(3) [OF assms(1,2)] have "is_dir_at f (d @ butlast z)" by (simp add: butlast_append)
  then show ?thesis by (rule fs_ok_prefix [OF assms(1)])
qed

lemma fs_ok_names:
  assumes "fs_ok f" and "is_dir_at f p"
  shows "\<forall>n \<in> set p. ok_name n"
  using assms(2)
proof (induction p rule: rev_induct)
  case (snoc x xs)
  from snoc.prems obtain m where "fmlookup f (xs @ [x]) = Some (Dir m)"
    by (auto elim: is_dir_atE)
  then have "ok_name x" and "is_dir_at f xs"
    using fs_okD [OF assms(1)] by fastforce+
  with snoc.IH show ?case by simp
qed simp

lemma ok_name_special [simp]: "\<not> ok_name []" "\<not> ok_name ''.''" "\<not> ok_name ''..''"
  by (simp_all add: ok_name_def)

lemma ok_nameD: "ok_name n \<Longrightarrow> n \<noteq> [] \<and> n \<noteq> ''.'' \<and> n \<noteq> ''..'' \<and> CHR ''/'' \<notin> set n"
  by (simp add: ok_name_def)

subsection \<open>Resolution of a path that meets no link\<close>

lemma resolve_dirs:
  assumes "fs_ok f" and "is_dir_at f (cur @ cs)"
  shows "resolve n f fl cur (cs @ rest) = resolve n f fl (cur @ cs) rest"
  using assms(2)
proof (induction cs arbitrary: cur)
  case (Cons c cs)
  from Cons.prems have d: "is_dir_at f (cur @ [c])" and "ok_name c"
    using fs_ok_prefix [OF assms(1), of "cur @ [c]" cs] fs_ok_names [OF assms(1) Cons.prems]
    by simp_all
  moreover from d obtain m where "fmlookup f (cur @ [c]) = Some (Dir m)"
    by (auto elim: is_dir_atE)
  ultimately show ?case
    using Cons.IH [of "cur @ [c]"] Cons.prems by (auto dest: ok_nameD)
qed simp

lemma namei_dir: "fs_ok f \<Longrightarrow> is_dir_at f p \<Longrightarrow> namei f fl p = Inr p"
  using resolve_dirs [of f "[]" p 40 fl "[]"] by (simp add: namei_def)

lemma namei_child:
  assumes "fs_ok f" and "is_dir_at f d" and "ok_name n"
    and "fl \<longrightarrow> (\<forall>i. fmlookup f (d @ [n]) = Some i \<longrightarrow> \<not> is_link i)"
  shows "namei f fl (d @ [n]) = Inr (d @ [n])"
proof -
  have "resolve 40 f fl [] (d @ [n]) = resolve 40 f fl d [n]"
    using resolve_dirs [OF assms(1), of "[]" d 40 fl "[n]"] assms(2) by simp
  also have "\<dots> = Inr (d @ [n])"
    using assms(3,4) by (auto dest: ok_nameD split: option.splits inode.splits)
  finally show ?thesis by (simp add: namei_def)
qed

lemma namei_present:
  assumes "fs_ok f" and "fmlookup f p = Some i" and "fl \<longrightarrow> \<not> is_link i"
  shows "namei f fl p = Inr p"
proof -
  from assms(1,2) have "p = butlast p @ [last p]" and "ok_name (last p)" and "is_dir_at f (butlast p)"
    by (simp_all add: fs_okD)
  with namei_child [OF assms(1), of "butlast p" "last p" fl] assms(2,3) show ?thesis
    by auto
qed

lemma stat_with_child:
  assumes "fs_ok f" and "is_dir_at f d" and "ok_name n"
    and "fl \<longrightarrow> (\<forall>i. fmlookup f (d @ [n]) = Some i \<longrightarrow> \<not> is_link i)"
  shows "stat_with fl f (d @ [n]) =
    (case fmlookup f (d @ [n]) of None \<Rightarrow> Inl (Errno ENOENT) | Some i \<Rightarrow> Inr i)"
  using namei_child [OF assms] by (simp add: stat_with_def)

lemma stat_with_present:
  assumes "fs_ok f" and "fmlookup f p = Some i" and "fl \<longrightarrow> \<not> is_link i"
  shows "stat_with fl f p = Inr i"
  using namei_present [OF assms] fs_okD(1) [OF assms(1,2)] assms(2)
  by (simp add: stat_with_def inode_at_lookup)

lemma Stat_dir: "fs_ok f \<Longrightarrow> is_dir_at f p \<Longrightarrow> \<exists>m. Stat f p = Inr (Dir m)"
  by (auto simp: Stat_def stat_with_def namei_dir elim: is_dir_atE)

lemma ReadFile_present: "fs_ok f \<Longrightarrow> fmlookup f p = Some (File m cs) \<Longrightarrow> ReadFile f p = Inr (fread cs)"
  by (simp add: ReadFile_def open_cells_def Stat_def stat_with_present)

lemma ReadFile_absent:
  "fs_ok f \<Longrightarrow> is_dir_at f d \<Longrightarrow> ok_name n \<Longrightarrow> fmlookup f (d @ [n]) = None \<Longrightarrow>
   ReadFile f (d @ [n]) = Inl (Errno ENOENT)"
  by (simp add: ReadFile_def open_cells_def Stat_def stat_with_child)

subsection \<open>The effect of the calls\<close>

lemma Mkdir_new:
  assumes "fs_ok f" and "is_dir_at f d" and "ok_name n" and "fmlookup f (d @ [n]) = None"
  shows "Mkdir um (d @ [n]) m f = (Inr (), fmupd (d @ [n]) (Dir (m AND NOT um)) f)"
  using assms by (simp add: Mkdir_def create_with_def namei_child)

lemma Symlink_new:
  assumes "fs_ok f" and "is_dir_at f d" and "ok_name n" and "fmlookup f (d @ [n]) = None"
    and "t \<noteq> []"
  shows "Symlink t (d @ [n]) f = (Inr (), fmupd (d @ [n]) (Link t) f)"
  using assms by (simp add: Symlink_def create_with_def namei_child)

lemma MkdirAll_existing:
  assumes "fs_ok f" and "is_dir_at f p"
  shows "MkdirAll um p m f = (Inr (), f)"
  using Stat_dir [OF assms] by (auto simp: MkdirAll.simps [of um p m f])

lemma MkdirAll_new:
  assumes "fs_ok f" and "is_dir_at f d" and "ok_name n" and "fmlookup f (d @ [n]) = None"
  shows "MkdirAll um (d @ [n]) m f = (Inr (), fmupd (d @ [n]) (Dir (m AND NOT um)) f)"
  using assms
  by (simp add: MkdirAll.simps [of um "d @ [n]"] Stat_def stat_with_child MkdirAll_existing
      Mkdir_new mkdir_checked_def)

lemma WriteCells_new:
  assumes "fs_ok f" and "is_dir_at f d" and "ok_name n" and "fmlookup f (d @ [n]) = None"
  shows "WriteCells um (d @ [n]) cs m f = (Inr (), fmupd (d @ [n]) (File (m AND NOT um) cs) f)"
  using assms by (simp add: WriteCells_def namei_child)

lemma WriteCells_over:
  assumes "fs_ok f" and "fmlookup f p = Some (File m' old)"
  shows "WriteCells um p cs m f = (Inr (), fmupd p (File m' cs) f)"
  using assms fs_okD(1) [OF assms] by (simp add: WriteCells_def namei_present inode_at_lookup)

lemma Remove_absent:
  assumes "fs_ok f" and "is_dir_at f d" and "ok_name n" and "fmlookup f (d @ [n]) = None"
  shows "Remove (d @ [n]) f = (Inl (Errno ENOENT), f)"
  using assms by (simp add: Remove_def namei_child)

lemma Remove_leaf:
  assumes "fs_ok f" and "fmlookup f p = Some i" and "\<not> is_dir i"
  shows "Remove p f = (Inr (), fmdrop p f)"
  using assms fs_okD(1) [OF assms(1,2)]
  by (auto simp: Remove_def namei_present inode_at_lookup split: inode.splits)

lemma RemoveAll_present:
  assumes "fs_ok f" and "fmlookup f p = Some i"
  shows "RemoveAll p f = (Inr (), fmfilter (\<lambda>k. \<not> prefix p k) f)"
  using assms by (simp add: RemoveAll_def namei_present)

lemma WalkDir_dir:
  assumes "fs_ok f" and "is_dir_at f p"
  shows "WalkDir f p = Inr (below f p)"
  using assms by (auto simp: WalkDir_def namei_dir elim: is_dir_atE)

lemma set_fs_paths: "set (fs_paths f) = fset (fmdom f)"
  by (simp add: fs_paths_def sorted_list_of_fset.rep_eq)

lemma set_below: "(r, i) \<in> set (below f q) \<longleftrightarrow> r \<noteq> [] \<and> fmlookup f (q @ r) = Some i"
proof -
  have "(r, i) \<in> set (below f q) \<longleftrightarrow>
    (\<exists>p. strict_prefix q p \<and> fmlookup f p = Some i \<and> r = drop (length q) p)"
    by (force simp: below_def set_fs_paths fmlookup_dom_iff)
  also have "\<dots> \<longleftrightarrow> r \<noteq> [] \<and> fmlookup f (q @ r) = Some i"
    by (auto simp: strict_prefix_def prefix_def)
  finally show ?thesis .
qed

lemma distinct_below: "distinct (map fst (below f q))"
proof -
  have "inj_on (\<lambda>p. drop (length q) p) (Collect (strict_prefix q))"
    by (auto simp: inj_on_def strict_prefix_def prefix_def)
  then have "inj_on (\<lambda>p. drop (length q) p) (set (filter (strict_prefix q) (fs_paths f)))"
    by (rule inj_on_subset) auto
  then show ?thesis
    by (simp add: below_def comp_def distinct_map fs_paths_def sorted_list_of_fset.rep_eq)
qed

subsection \<open>The calls keep the tree well formed\<close>

lemma slot_dir: "fs_ok f \<Longrightarrow> is_dir_at f p \<Longrightarrow> slot f p"
  using fs_ok_names [of f p] fs_ok_parent [of f p] by (cases "p = []") (simp_all add: slot_def)

lemma slash_free_simps [simp]:
  "slash_free []" "slash_free (c # cs) \<longleftrightarrow> CHR ''/'' \<notin> set c \<and> slash_free cs"
  "slash_free (xs @ ys) \<longleftrightarrow> slash_free xs \<and> slash_free ys"
  by (auto simp: slash_free_def)

lemma slash_free_split [simp]: "slash_free (split_on (CHR ''/'') s)"
  by (auto simp: slash_free_def dest: split_on_parts)

lemma slash_free_butlast [intro]: "slash_free p \<Longrightarrow> slash_free (butlast p)"
  by (auto simp: slash_free_def dest: in_set_butlastD)

lemma resolve_slot:
  "resolve n f fl cur cs = Inr q \<Longrightarrow> fs_ok f \<Longrightarrow> is_dir_at f cur \<Longrightarrow> slash_free cs \<Longrightarrow> slot f q"
proof (induction n f fl cur cs rule: resolve.induct)
  case (1 n f follow cur)
  then show ?case by (auto intro: slot_dir)
next
  case (2 n f follow cur c cs)
  consider (skip) "c = [] \<or> c = ''.''" | (up) "c = ''..''" | (name) "ok_name c"
    using "2.prems"(4) by (auto simp: ok_name_def)
  then show ?case
  proof cases
    case skip
    with 2 show ?thesis by auto
  next
    case up
    with 2 fs_ok_parent [of f cur] show ?thesis by auto
  next
    case name
    then have s: "slot f (cur @ [c])" using "2.prems"(3) by blast
    from name have n: "\<not> (c = [] \<or> c = ''.'')" "c \<noteq> ''..''" by (auto dest: ok_nameD)
    show ?thesis
    proof (cases "inode_at f (cur @ [c])")
      case None
      with "2.prems"(1) n s show ?thesis by (auto split: if_splits)
    next
      case (Some i)
      show ?thesis
      proof (cases i)
        case (Dir m)
        with Some have "is_dir_at f (cur @ [c])" by (auto intro: is_dir_atI)
        with 2 Some Dir n show ?thesis by auto
      next
        case (Link t)
        show ?thesis
        proof (cases "cs = [] \<and> \<not> follow \<or> n = 0")
          case True
          with "2.prems"(1) Some Link n s show ?thesis by (auto split: if_splits)
        next
          case False
          with Some Link n "2.prems" show ?thesis
            by (intro "2.IH"(4) [OF n Some Link]) (auto split: if_splits)
        qed
      qed (use "2.prems"(1) Some n s in \<open>auto split: if_splits\<close>)
    qed
  qed
qed

lemma namei_slot: "namei f fl p = Inr q \<Longrightarrow> fs_ok f \<Longrightarrow> slash_free p \<Longrightarrow> slot f q"
  by (auto simp: namei_def split: sum.splits intro: resolve_slot)

lemma is_dir_at_fmupd:
  "is_dir_at (fmupd q i f) p \<longleftrightarrow> (if p = q \<and> p \<noteq> [] then is_dir i else is_dir_at f p)"
  by (simp add: is_dir_at_def inode_at_def)

lemma fs_ok_fmupd:
  assumes "fs_ok f" and "slot f q" and "q \<noteq> []" and "is_dir i \<or> \<not> is_dir_at f q"
  shows "fs_ok (fmupd q i f)"
  using assms by (auto simp: fs_ok_def slot_def is_dir_at_fmupd)

lemma no_children:
  assumes "fs_ok f" and "\<not> is_dir_at f p"
  shows "\<not> has_children f p"
proof
  assume "has_children f p"
  then obtain q where q: "strict_prefix p q" "q |\<in>| fmdom f" by (auto simp: has_children_def)
  then obtain r where r: "q = p @ r" "r \<noteq> []" by (auto simp: strict_prefix_def prefix_def)
  from q assms(1) have "is_dir_at f (butlast q)" by (auto simp: fs_ok_def slot_def)
  with r have "is_dir_at f (p @ butlast r)" by (simp add: butlast_append)
  with fs_ok_prefix [OF assms(1)] assms(2) show False by blast
qed

lemma no_children_leaf:
  "fs_ok f \<Longrightarrow> inode_at f p = Some i \<Longrightarrow> \<not> is_dir i \<Longrightarrow> \<not> has_children f p"
  by (rule no_children) (simp_all add: is_dir_at_def)

lemma fs_ok_fmdrop:
  assumes "fs_ok f" and "\<not> has_children f q"
  shows "fs_ok (fmdrop q f)"
proof -
  have "slot (fmdrop q f) p" if "p |\<in>| fmdom f" "p \<noteq> q" for p
  proof -
    from that assms have "p \<noteq> []" "ok_name (last p)" and d: "is_dir_at f (butlast p)"
      by (auto simp: fs_ok_def slot_def)
    moreover from this that assms(2) have "butlast p \<noteq> q \<or> butlast p = []"
      by (auto simp: has_children_def) (metis append_butlast_last_id prefixI strict_prefix_def
          butlast.simps(1) append_self_conv not_Cons_self2)
    then have "is_dir_at (fmdrop q f) (butlast p)"
      using d by (auto simp: is_dir_at_def inode_at_def)
    ultimately show ?thesis by (simp add: slot_def)
  qed
  with assms(1) show ?thesis by (auto simp: fs_ok_def)
qed

lemma fs_ok_prune:
  assumes "fs_ok f"
  shows "fs_ok (fmfilter (\<lambda>k. \<not> prefix q k) f)"
proof -
  have "is_dir_at (fmfilter (\<lambda>k. \<not> prefix q k) f) (butlast p)"
    if "is_dir_at f (butlast p)" "\<not> prefix q p" for p
    using that prefix_order.trans [of q "butlast p" p]
    by (auto simp: is_dir_at_def inode_at_def prefixeq_butlast)
  with assms show ?thesis by (auto simp: fs_ok_def slot_def)
qed

lemma keeps_create_with: "slash_free p \<Longrightarrow> keeps fs_ok (create_with p i)"
  by (rule keepsI)
    (auto simp: create_with_def is_dir_at_def inode_at_def split: sum.splits option.splits if_splits
      intro!: fs_ok_fmupd namei_slot)

lemma keeps_Mkdir: "slash_free p \<Longrightarrow> keeps fs_ok (Mkdir um p m)"
  by (simp add: Mkdir_def keeps_create_with)

lemma keeps_Symlink: "slash_free p \<Longrightarrow> keeps fs_ok (Symlink t p)"
  by (simp add: Symlink_def keeps_create_with)

lemma keeps_mkdir_checked: "slash_free p \<Longrightarrow> keeps fs_ok (mkdir_checked um p m)"
proof (rule keepsI)
  fix f assume "slash_free p" "fs_ok f"
  then have "fs_ok (snd (Mkdir um p m f))" using keeps_Mkdir by (simp add: keeps_def)
  moreover have "snd (mkdir_checked um p m f) = snd (Mkdir um p m f)"
    by (auto simp: mkdir_checked_def split: prod.splits sum.splits inode.splits)
  ultimately show "fs_ok (snd (mkdir_checked um p m f))" by simp
qed

lemma keeps_MkdirAll: "slash_free p \<Longrightarrow> keeps fs_ok (MkdirAll um p m)"
proof (rule keepsI)
  fix f
  show "slash_free p \<Longrightarrow> fs_ok f \<Longrightarrow> fs_ok (snd (MkdirAll um p m f))"
  proof (induction p rule: rev_induct)
    case Nil
    then show ?case by (simp add: MkdirAll_existing)
  next
    case (snoc x xs)
    obtain r g where e: "MkdirAll um xs m f = (r, g)" by fastforce
    with snoc have "fs_ok g" by auto
    with keeps_mkdir_checked [OF snoc.prems(1), of um m] have
      "fs_ok (snd (mkdir_checked um (xs @ [x]) m g))" by (simp add: keeps_def)
    with e \<open>fs_ok g\<close> snoc.prems show ?case
      by (simp add: MkdirAll.simps [of um "xs @ [x]"] split: sum.splits)
  qed
qed

lemma keeps_WriteCells: "slash_free p \<Longrightarrow> keeps fs_ok (WriteCells um p cs m)"
  by (rule keepsI)
    (auto simp: WriteCells_def is_dir_at_def inode_at_def
      split: sum.splits option.splits inode.splits if_splits intro!: fs_ok_fmupd namei_slot)

lemma keeps_Remove: "keeps fs_ok (Remove p)"
  by (rule keepsI)
    (auto simp: Remove_def split: sum.splits option.splits inode.splits intro!: fs_ok_fmdrop
      dest: no_children_leaf)

lemma keeps_RemoveAll: "keeps fs_ok (RemoveAll p)"
  by (rule keepsI) (auto simp: RemoveAll_def fs_ok_prune split: sum.splits)

lemma keeps_Rename:
  assumes "slash_free b"
  shows "keeps fs_ok (Rename a b)"
proof (rule keepsI)
  fix f assume ok: "fs_ok f"
  have "fs_ok (fmupd q (File m cs) (fmdrop p f))"
    if "namei f False b = Inr q" "inode_at f p = Some (File m cs)" "\<not> is_dir_at f q" for p q m cs
  proof (rule fs_ok_fmupd)
    from that(2) have "\<not> is_dir_at f p" by (simp add: is_dir_at_def)
    then show "fs_ok (fmdrop p f)" by (intro fs_ok_fmdrop ok no_children)
    from namei_slot [OF that(1) ok assms] that(2) show "slot (fmdrop p f) q"
      by (auto simp: slot_def is_dir_at_def inode_at_def)
    from that(3) show "q \<noteq> []" by auto
    from that(3) show "is_dir (File m cs) \<or> \<not> is_dir_at (fmdrop p f) q"
      by (auto simp: is_dir_at_def inode_at_def split: option.splits if_splits)
  qed
  with ok show "fs_ok (snd (Rename a b f))"
    by (auto simp: Rename_def is_dir_at_def split: sum.splits option.splits inode.splits)
qed

lemma keeps_on_fs: "keeps P m \<Longrightarrow> keeps (\<lambda>w. P (hfs w)) (on_fs m)"
  by (rule keepsI) (auto simp: keeps_def on_fs_def split: prod.splits)

subsection \<open>Writing and renaming whole files\<close>

lemma Rename_over:
  assumes "fs_ok f" and "fmlookup f a = Some (File m cs)" and "ok_name (last b)" and "is_dir_at f (butlast b)"
    and "b \<noteq> []" and "\<not> is_dir_at f b" and "a \<noteq> b"
  shows "Rename a b f = (Inr (), fmupd b (File m cs) (fmdrop a f))"
proof -
  have "namei f False a = Inr a" using assms(1,2) by (rule namei_present) simp
  moreover have "namei f False b = Inr b"
    using namei_child [OF assms(1,4,3), of False] assms(5) by simp
  moreover have "inode_at f a = Some (File m cs)" using fs_okD(1) [OF assms(1,2)] assms(2) by (simp add: inode_at_lookup)
  ultimately show ?thesis
    using assms(6,7) by (auto simp: Rename_def is_dir_at_def split: option.splits inode.splits)
qed

text \<open>Writing a file where there is a file or nothing.\<close>

lemma WriteCells_file:
  assumes "fs_ok f" and "is_dir_at f d" and "ok_name n" and "\<And>i. fmlookup f (d @ [n]) = Some i \<Longrightarrow> \<exists>m cs. i = File m cs"
  shows "\<exists>m'. WriteCells um (d @ [n]) cs m f = (Inr (), fmupd (d @ [n]) (File m' cs) f)"
proof (cases "fmlookup f (d @ [n])")
  case None
  then show ?thesis using WriteCells_new [OF assms(1-3)] by blast
next
  case (Some i)
  with assms(4) obtain m' cs' where "i = File m' cs'" by blast
  with Some show ?thesis using WriteCells_over [OF assms(1)] by blast
qed

text \<open>Making a directory in a directory, where there is one or nothing.\<close>

lemma MkdirAll_child:
  assumes "fs_ok f" and "is_dir_at f d" and "ok_name n" and "\<And>i. fmlookup f (d @ [n]) = Some i \<Longrightarrow> is_dir i"
  shows "\<exists>g. MkdirAll um (d @ [n]) m f = (Inr (), g) \<and> fs_ok g \<and> is_dir_at g (d @ [n]) \<and>
    (\<forall>q. q \<noteq> d @ [n] \<longrightarrow> fmlookup g q = fmlookup f q)"
proof (cases "fmlookup f (d @ [n])")
  case None
  then have "fs_ok (fmupd (d @ [n]) (Dir (m AND NOT um)) f)"
    using assms(1-3) by (intro fs_ok_fmupd) auto
  with None MkdirAll_new [OF assms(1-3)] show ?thesis by (simp add: is_dir_at_fmupd)
next
  case (Some i)
  with assms(4) have "is_dir_at f (d @ [n])" by (simp add: is_dir_at_def)
  with MkdirAll_existing [OF assms(1)] assms(1) show ?thesis by auto
qed

end
