(* ===== verification/BlobStore.thy ===== *)
theory BlobStore
  imports HostFs GoJson
begin

unbundle bit_operations_syntax

section \<open>The content-addressed store (internal/cas/cas.go)\<close>

text \<open>
  \<open>Store\<close> is a directory of blobs; a blob lies at \<open>root/hh/rest\<close> where \<open>hh rest\<close> is the hex
  SHA-256 of its contents. The hash function is a parameter \<open>sha\<close> of every operation: the
  theorems hold for whatever function it is, with 32-byte results (\<open>ok_sha\<close>), and where two
  blobs must not be confused the hypothesis is that those blobs do not collide.
  The lemmas show that the directory refines a map from hashes to bytes (\<open>blobs\<close>): the
  invariant \<open>store_ok\<close> (every blob lies under the hash of its contents) is kept, \<open>Put\<close> adds
  exactly one binding and never changes another, \<open>Get\<close> reads the map. The locale
  \<open>blob_store\<close> is that contract, and the operations here interpret it.
\<close>

type_synonym hasher = "bytes \<Rightarrow> bytes"

definition ok_sha :: "hasher \<Rightarrow> bool" where
  "ok_sha sha \<longleftrightarrow> (\<forall>b. length (sha b) = 32)"

definition hashOf :: "hasher \<Rightarrow> bytes \<Rightarrow> string" where
  "hashOf sha b = hex_encode (sha b)"

subsection \<open>Operations\<close>

definition store_path :: "path \<Rightarrow> string \<Rightarrow> path" where
  "store_path root h =
     (if length h < 2 then fp_join root h
      else fp_join (fp_join root (take 2 h)) (drop 2 h))"

text \<open>\<open>cas.Open\<close>.\<close>

definition Open :: "path \<Rightarrow> ('z world_scheme, path) io" where
  "Open dir =
     bindE (gets umask) (\<lambda>um.
     bindE (on_fs (MkdirAll um dir mode_0755)) (\<lambda>_. ret dir))"

text \<open>
  \<open>os.CreateTemp(dir, ".put-*")\<close>: a new empty file under a name no file has. The name here is
  longer than every name in the tree.
\<close>

definition fresh_name :: "string \<Rightarrow> fs \<Rightarrow> string" where
  "fresh_name pat f = pat @ replicate (Suc (sum_list (map (sum_list \<circ> map length) (fs_paths f)))) (CHR ''0'')"

definition CreateTemp :: "mode \<Rightarrow> path \<Rightarrow> string \<Rightarrow> (fs, path) io" where
  "CreateTemp um dir pat = (\<lambda>f.
     let p = dir @ [fresh_name pat f] in
     bindE (create_with p (File (mode_0600 AND NOT um) [])) (\<lambda>_. ret p) f)"

definition Chmod :: "path \<Rightarrow> mode \<Rightarrow> (fs, unit) io" where
  "Chmod p m = (\<lambda>f.
     case namei f True p of
       Inl e \<Rightarrow> (Inl e, f)
     | Inr q \<Rightarrow> (case inode_at f q of
         None \<Rightarrow> (Inl (Errno ENOENT), f)
       | Some (File m' cs) \<Rightarrow> (Inr (), fmupd q (File m cs) f)
       | Some (Dir m') \<Rightarrow> (if q = [] then (Inr (), f) else (Inr (), fmupd q (Dir m) f))
       | Some i \<Rightarrow> (Inr (), f)))"

text \<open>
  The second half of \<open>Put\<close> and \<open>PutFile\<close>: write a temporary file beside the blob's place,
  make it readable, and rename it there; a failed rename removes it (in \<open>Put\<close>).
\<close>

definition place_blob :: "mode \<Rightarrow> path \<Rightarrow> bytes \<Rightarrow> bool \<Rightarrow> (fs, unit) io" where
  "place_blob um p b cleanup =
     bindE (CreateTemp um (butlast p) ''.put-'') (\<lambda>tmp.
     bindE (WriteCells um tmp (fdata b) mode_0600) (\<lambda>_.
     bindE (attempt (Chmod tmp mode_0644)) (\<lambda>_.
     bindE (attempt (Rename tmp p)) (\<lambda>r.
       case r of
         Inr _ \<Rightarrow> ret ()
       | Inl e \<Rightarrow> bindE (attempt (if cleanup then Remove tmp else ret ())) (\<lambda>_. fail e)))))"

definition Put :: "hasher \<Rightarrow> path \<Rightarrow> bytes \<Rightarrow> ('z world_scheme, string) io" where
  "Put sha root b =
     bindE (gets hfs) (\<lambda>f.
     bindE (gets umask) (\<lambda>um.
       let h = hashOf sha b; p = store_path root h in
       if exists_at f p then ret h
       else
         bindE (on_fs (MkdirAll um (butlast p) mode_0755)) (\<lambda>_.
         bindE (on_fs (place_blob um p b True)) (\<lambda>_. ret h))))"

definition PutFile :: "hasher \<Rightarrow> path \<Rightarrow> path \<Rightarrow> ('z world_scheme, string \<times> int) io" where
  "PutFile sha root src =
     bindE (gets hfs) (\<lambda>f.
     bindE (gets umask) (\<lambda>um.
     bindE (lift_res (ReadFile f src)) (\<lambda>b.
       let h = hashOf sha b; n = int (length b); dst = store_path root h in
       if exists_at f dst then ret (h, n)
       else
         bindE (on_fs (MkdirAll um (butlast dst) mode_0755)) (\<lambda>_.
         bindE (on_fs (place_blob um dst b False)) (\<lambda>_. ret (h, n))))))"

definition not_found :: "err + 'a \<Rightarrow> err + 'a" where
  "not_found r = (case r of Inl e \<Rightarrow> Inl (if e = Errno ENOENT then ErrBlobNotFound else e) | Inr x \<Rightarrow> Inr x)"

definition Get :: "path \<Rightarrow> fs \<Rightarrow> string \<Rightarrow> err + bytes" where
  "Get root f h = not_found (ReadFile f (store_path root h))"

text \<open>
  \<open>OpenBlob\<close> returns a reader: opening a directory succeeds, and only reading it fails, so the
  reader is what reading it to the end gives.
\<close>

definition OpenBlob :: "path \<Rightarrow> fs \<Rightarrow> string \<Rightarrow> err + (err + bytes)" where
  "OpenBlob root f h =
     not_found
       (case Stat f (store_path root h) of
          Inl e \<Rightarrow> Inl e
        | Inr (File m cs) \<Rightarrow> Inr (Inr (fread cs))
        | Inr (Dir m) \<Rightarrow> Inr (Inl (Errno EISDIR))
        | Inr i \<Rightarrow> Inl (Errno ENXIO))"

definition Has :: "path \<Rightarrow> fs \<Rightarrow> string \<Rightarrow> bool" where
  "Has root f h = exists_at f (store_path root h)"

subsection \<open>Where a blob lies\<close>

definition hash_name :: "string \<Rightarrow> bool" where
  "hash_name h \<longleftrightarrow> 2 < length h \<and> CHR ''/'' \<notin> set h \<and> CHR ''.'' \<notin> set h"

abbreviation blob_dir :: "path \<Rightarrow> string \<Rightarrow> path" where
  "blob_dir root h \<equiv> root @ [take 2 h]"

abbreviation blob_path :: "path \<Rightarrow> string \<Rightarrow> path" where
  "blob_path root h \<equiv> root @ [take 2 h, drop 2 h]"

lemma hex_digit_plain: "d < 16 \<Longrightarrow> hex_digit d \<noteq> CHR ''/'' \<and> hex_digit d \<noteq> CHR ''.''"
  using hex_val_digit [of d] by (auto simp: hex_val_def)

lemma hash_name_hashOf: "ok_sha sha \<Longrightarrow> hash_name (hashOf sha b)"
proof -
  assume ok: "ok_sha sha"
  have "c \<noteq> CHR ''/'' \<and> c \<noteq> CHR ''.''" if "c \<in> set (hex_encode x)" for c x
  proof -
    from that obtain d :: char where "c = hex_digit (byte d div 16) \<or> c = hex_digit (byte d mod 16)"
      unfolding hex_encode_def by force
    moreover have "byte d div 16 < 16" "byte d mod 16 < 16"
      using nat_of_char_less_256 [of d] by linarith+
    ultimately show ?thesis by (elim disjE) (simp_all add: hex_digit_plain)
  qed
  with ok show ?thesis
    by (auto simp: hash_name_def hashOf_def length_hex_encode ok_sha_def)
qed

lemma hash_name_parts:
  assumes "hash_name h"
  shows "ok_name (take 2 h)" and "ok_name (drop 2 h)"
proof -
  have ok: "ok_name n" if "n \<noteq> []" "set n \<subseteq> set h" for n
    using assms that by (auto simp: ok_name_def hash_name_def)
  from assms have "h \<noteq> []" "drop 2 h \<noteq> []" by (auto simp: hash_name_def)
  then show "ok_name (take 2 h)" "ok_name (drop 2 h)"
    by (auto intro!: ok dest: in_set_takeD in_set_dropD)
qed

lemma fp_join_name [simp]: "ok_name n \<Longrightarrow> fp_join p n = p @ [n]"
  by (auto simp: fp_join_def split_on_no_sep dest: ok_nameD)

lemma store_path_hash: "hash_name h \<Longrightarrow> store_path root h = blob_path root h"
  using hash_name_parts [of h] by (simp add: store_path_def hash_name_def)

subsection \<open>The invariant and the map a store holds\<close>

definition store_entry_ok :: "hasher \<Rightarrow> path \<Rightarrow> path \<Rightarrow> inode \<Rightarrow> bool" where
  "store_entry_ok sha root p i =
     (case drop (length root) p of
        [a] \<Rightarrow> is_dir i
      | [a, b] \<Rightarrow>
          (case i of
             File m cs \<Rightarrow> length a = 2 \<and> a @ b = hashOf sha (fread cs)
           | _ \<Rightarrow> False)
      | _ \<Rightarrow> False)"

definition store_ok :: "hasher \<Rightarrow> path \<Rightarrow> fs \<Rightarrow> bool" where
  "store_ok sha root f \<longleftrightarrow>
     ok_sha sha \<and> fs_ok f \<and> is_dir_at f root \<and>
     (\<forall>p \<in> fset (fmdom f). strict_prefix root p \<longrightarrow> store_entry_ok sha root p (the (fmlookup f p)))"

definition blobs :: "path \<Rightarrow> fs \<Rightarrow> string \<rightharpoonup> bytes" where
  "blobs root f h =
     (if hash_name h then
        (case fmlookup f (blob_path root h) of
           Some (File m cs) \<Rightarrow> Some (fread cs)
         | _ \<Rightarrow> None)
      else None)"

lemma store_okD:
  assumes "store_ok sha root f"
  shows "ok_sha sha" and "fs_ok f" and "is_dir_at f root"
    and "fmlookup f (root @ [a]) = Some i \<Longrightarrow> is_dir i"
    and "fmlookup f (root @ [a, b]) = Some i \<Longrightarrow>
          \<exists>m cs. i = File m cs \<and> length a = 2 \<and> a @ b = hashOf sha (fread cs)"
proof -
  have e: "store_entry_ok sha root (root @ q) i" if "fmlookup f (root @ q) = Some i" "q \<noteq> []" for q i
  proof -
    from that(2) have "strict_prefix root (root @ q)" by (simp add: strict_prefix_def)
    moreover from that(1) have "root @ q |\<in>| fmdom f" by (rule fmdomI)
    ultimately have "store_entry_ok sha root (root @ q) (the (fmlookup f (root @ q)))"
      using assms by (auto simp: store_ok_def)
    with that(1) show ?thesis by simp
  qed
  show "ok_sha sha" "fs_ok f" "is_dir_at f root" using assms by (simp_all add: store_ok_def)
  show "is_dir i" if "fmlookup f (root @ [a]) = Some i"
    using e [OF that] by (simp add: store_entry_ok_def)
  show "\<exists>m cs. i = File m cs \<and> length a = 2 \<and> a @ b = hashOf sha (fread cs)"
    if "fmlookup f (root @ [a, b]) = Some i"
    using e [OF that] by (auto simp: store_entry_ok_def split: inode.splits)
qed

lemma blobs_SomeE:
  assumes "blobs root f h = Some b"
  obtains m cs where "hash_name h" and "fmlookup f (blob_path root h) = Some (File m cs)" and "b = fread cs"
  using assms by (auto simp: blobs_def split: if_splits option.splits inode.splits)

lemma blobs_hash:
  assumes "store_ok sha root f" and "blobs root f h = Some b"
  shows "hashOf sha b = h"
proof -
  from assms(2) obtain m cs where "fmlookup f (blob_path root h) = Some (File m cs)" "b = fread cs"
    by (rule blobs_SomeE)
  with store_okD(5) [OF assms(1)] have "take 2 h @ drop 2 h = hashOf sha b" by fastforce
  then show ?thesis by simp
qed

lemma namei_under_absent:
  assumes "fs_ok f" and "is_dir_at f d" and "ok_name a" and "fmlookup f (d @ [a]) = None"
  shows "namei f fl (d @ [a, b]) = Inl (Errno ENOENT)"
proof -
  have "resolve 40 f fl [] (d @ [a, b]) = resolve 40 f fl d [a, b]"
    using resolve_dirs [OF assms(1), of "[]" d 40 fl "[a, b]"] assms(2) by simp
  with assms(3,4) show ?thesis by (auto simp: namei_def dest: ok_nameD)
qed

lemma Stat_blob:
  assumes "store_ok sha root f" and "hash_name h"
  shows "Stat f (blob_path root h) =
    (case fmlookup f (blob_path root h) of None \<Rightarrow> Inl (Errno ENOENT) | Some i \<Rightarrow> Inr i)"
proof (cases "fmlookup f (blob_dir root h)")
  case None
  note ok = store_okD [OF assms(1)] and n = hash_name_parts [OF assms(2)]
  from None ok have "fmlookup f (blob_path root h) = None"
    using fs_okD(3) [OF ok(2), of "blob_path root h"]
    by (fastforce simp: is_dir_at_def butlast_append)
  with namei_under_absent [OF ok(2,3) n(1) None, of True "drop 2 h"] show ?thesis
    by (simp add: Stat_def stat_with_def)
next
  case (Some i)
  note ok = store_okD [OF assms(1)] and n = hash_name_parts [OF assms(2)]
  from ok(4) [OF Some] Some have "is_dir_at f (blob_dir root h)" by (simp add: is_dir_at_def)
  moreover have "\<not> is_link i" if "fmlookup f (blob_path root h) = Some i" for i
    using ok(5) [of "take 2 h" "drop 2 h" i] that by auto
  ultimately show ?thesis
    using stat_with_child [OF ok(2) _ n(2), of "blob_dir root h" True] by (simp add: Stat_def)
qed

lemma exists_blob:
  assumes "store_ok sha root f" and "hash_name h"
  shows "exists_at f (blob_path root h) \<longleftrightarrow> blobs root f h \<noteq> None"
  using Stat_blob [OF assms] store_okD(5) [OF assms(1), of "take 2 h" "drop 2 h"] assms(2)
  by (auto simp: exists_at_def blobs_def split: option.splits)

lemma Get_blobs:
  assumes "store_ok sha root f" and "hash_name h"
  shows "Get root f h = (case blobs root f h of None \<Rightarrow> Inl ErrBlobNotFound | Some b \<Rightarrow> Inr b)"
  using Stat_blob [OF assms] store_okD(5) [OF assms(1), of "take 2 h" "drop 2 h"] assms(2)
  by (auto simp: Get_def not_found_def store_path_hash ReadFile_def open_cells_def blobs_def
      split: option.splits)

lemma OpenBlob_blobs:
  assumes "store_ok sha root f" and "hash_name h"
  shows "OpenBlob root f h = (case blobs root f h of None \<Rightarrow> Inl ErrBlobNotFound | Some b \<Rightarrow> Inr (Inr b))"
  using Stat_blob [OF assms] store_okD(5) [OF assms(1), of "take 2 h" "drop 2 h"] assms(2)
  by (auto simp: OpenBlob_def not_found_def store_path_hash blobs_def split: option.splits)

lemma Has_blobs:
  "store_ok sha root f \<Longrightarrow> hash_name h \<Longrightarrow> Has root f h \<longleftrightarrow> blobs root f h \<noteq> None"
  by (simp add: Has_def store_path_hash exists_blob)

subsection \<open>The effect of \<open>Put\<close>\<close>

lemma fresh_name_longer:
  assumes "p |\<in>| fmdom f" and "n \<in> set p"
  shows "length n < length (fresh_name pat f)"
proof -
  have "length n \<le> sum_list (map length p)"
    using assms(2) by (intro member_le_sum_list) auto
  also have "\<dots> \<le> sum_list (map (sum_list \<circ> map length) (fs_paths f))"
    using assms(1) by (intro member_le_sum_list) (auto simp: set_fs_paths image_iff intro!: bexI [of _ p])
  finally show ?thesis by (simp add: fresh_name_def)
qed

lemma fresh_name_absent: "fmlookup f (d @ fresh_name pat f # q) = None"
proof (rule ccontr)
  assume "fmlookup f (d @ fresh_name pat f # q) \<noteq> None"
  then have "length (fresh_name pat f) < length (fresh_name pat f)"
    by (intro fresh_name_longer [of "d @ fresh_name pat f # q"]) (auto intro: fmdomI)
  then show False by simp
qed

lemma ok_name_fresh: "ok_name (fresh_name ''.put-'' f)"
  by (auto simp: ok_name_def fresh_name_def)

lemma CreateTemp_effect:
  assumes "fs_ok f" and "is_dir_at f d"
  shows "CreateTemp um d ''.put-'' f =
    (Inr (d @ [fresh_name ''.put-'' f]),
     fmupd (d @ [fresh_name ''.put-'' f]) (File (mode_0600 AND NOT um) []) f)"
  using assms ok_name_fresh [of f] fresh_name_absent [of f d "''.put-''" "[]"]
  by (simp add: CreateTemp_def create_with_def namei_child Let_def)

lemma place_blob_effect:
  assumes "fs_ok f" and "is_dir_at f d" and "ok_name n" and "fmlookup f (d @ [n]) = None"
    and "CHR ''.'' \<notin> set n"
  shows "place_blob um (d @ [n]) b c f = (Inr (), fmupd (d @ [n]) (File mode_0644 (fdata b)) f)"
proof -
  let ?t = "fresh_name ''.put-'' f" and ?m = "mode_0600 AND NOT um"
  let ?tmp = "d @ [?t]"
  define g where "g i = fmupd ?tmp i f" for i
  have t: "fmlookup f ?tmp = None" using fresh_name_absent [of f d _ "[]"] by simp
  then have nd: "\<not> is_dir_at f ?tmp" by (simp add: is_dir_at_def)
  have g_ok: "fs_ok (g (File m cs))" for m cs
    unfolding g_def using assms(1,2) ok_name_fresh nd by (intro fs_ok_fmupd) auto
  have g_dir: "is_dir_at (g (File m cs)) d" for m cs
    using assms(2) t by (auto simp: g_def is_dir_at_fmupd)
  have w: "WriteCells um ?tmp (fdata b) mode_0600 (g (File ?m [])) = (Inr (), g (File ?m (fdata b)))"
    by (subst WriteCells_over [OF g_ok]) (auto simp: g_def)
  have "namei (g (File ?m (fdata b))) True ?tmp = Inr ?tmp"
    by (rule namei_present [OF g_ok]) (auto simp: g_def)
  then have ch: "Chmod ?tmp mode_0644 (g (File ?m (fdata b))) = (Inr (), g (File mode_0644 (fdata b)))"
    by (simp add: Chmod_def g_def)
  from assms(5) have ne: "n \<noteq> ?t" by (auto simp: fresh_name_def)
  have np: "namei (g (File mode_0644 (fdata b))) False ?tmp = Inr ?tmp"
    by (rule namei_present [OF g_ok]) (auto simp: g_def)
  have nq: "namei (g (File mode_0644 (fdata b))) False (d @ [n]) = Inr (d @ [n])"
    by (rule namei_child [OF g_ok g_dir assms(3)]) simp
  have "fmupd (d @ [n]) (File mode_0644 (fdata b)) (fmdrop ?tmp (g (File mode_0644 (fdata b)))) =
    fmupd (d @ [n]) (File mode_0644 (fdata b)) f"
    using t by (intro fmap_ext) (auto simp: g_def)
  with np nq ne assms(4) have
    r: "Rename ?tmp (d @ [n]) (g (File mode_0644 (fdata b))) =
      (Inr (), fmupd (d @ [n]) (File mode_0644 (fdata b)) f)"
    by (simp add: Rename_def) (simp add: g_def)
  show ?thesis
    using CreateTemp_effect [OF assms(1,2), of um] w ch r
    by (simp add: place_blob_def g_def io)
qed

definition dir_fs :: "mode \<Rightarrow> path \<Rightarrow> string \<Rightarrow> fs \<Rightarrow> fs" where
  "dir_fs um root h f =
     (if fmlookup f (blob_dir root h) = None
      then fmupd (blob_dir root h) (Dir (mode_0755 AND NOT um)) f else f)"

definition put_fs :: "mode \<Rightarrow> path \<Rightarrow> string \<Rightarrow> bytes \<Rightarrow> fs \<Rightarrow> fs" where
  "put_fs um root h b f = fmupd (blob_path root h) (File mode_0644 (fdata b)) (dir_fs um root h f)"

lemma blob_dir_step:
  assumes "store_ok sha root f" and "hash_name h"
  shows "MkdirAll um (blob_dir root h) mode_0755 f = (Inr (), dir_fs um root h f)"
    and "fs_ok (dir_fs um root h f)" and "is_dir_at (dir_fs um root h f) (blob_dir root h)"
proof -
  note ok = store_okD [OF assms(1)] and n = hash_name_parts [OF assms(2)]
  have "MkdirAll um (blob_dir root h) mode_0755 f = (Inr (), dir_fs um root h f) \<and>
    fs_ok (dir_fs um root h f) \<and> is_dir_at (dir_fs um root h f) (blob_dir root h)"
  proof (cases "fmlookup f (blob_dir root h)")
    case None
    then have "\<not> is_dir_at f (blob_dir root h)" by (simp add: is_dir_at_def)
    then have "fs_ok (fmupd (blob_dir root h) (Dir (mode_0755 AND NOT um)) f)"
      using ok(2,3) n(1) by (intro fs_ok_fmupd) auto
    with None MkdirAll_new [OF ok(2,3) n(1) None] show ?thesis by (simp add: dir_fs_def is_dir_at_fmupd)
  next
    case (Some i)
    with ok(4) have "is_dir_at f (blob_dir root h)" by (auto simp: is_dir_at_def)
    with Some MkdirAll_existing [OF ok(2)] ok(2) show ?thesis by (simp add: dir_fs_def)
  qed
  then show "MkdirAll um (blob_dir root h) mode_0755 f = (Inr (), dir_fs um root h f)"
    "fs_ok (dir_fs um root h f)" "is_dir_at (dir_fs um root h f) (blob_dir root h)" by simp_all
qed

lemma dir_fs_other: "q \<noteq> blob_dir root h \<Longrightarrow> fmlookup (dir_fs um root h f) q = fmlookup f q"
  by (simp add: dir_fs_def)

lemma blobs_absent:
  assumes "store_ok sha root f" and "hash_name h" and "blobs root f h = None"
  shows "fmlookup f (blob_path root h) = None"
  using assms store_okD(5) [OF assms(1), of "take 2 h" "drop 2 h"]
  by (auto simp: blobs_def split: option.splits inode.splits)

lemma Put_effect:
  assumes "store_ok sha root (hfs w)"
  shows "Put sha root b w = (Inr (hashOf sha b),
    if blobs root (hfs w) (hashOf sha b) = None
    then w\<lparr>hfs := put_fs (umask w) root (hashOf sha b) b (hfs w)\<rparr> else w)"
proof -
  let ?h = "hashOf sha b" and ?f = "hfs w"
  have h: "hash_name ?h" using store_okD(1) [OF assms] by (rule hash_name_hashOf)
  note ex = exists_blob [OF assms h] and step = blob_dir_step [OF assms h, of "umask w"]
  show ?thesis
  proof (cases "blobs root ?f ?h")
    case None
    let ?g = "dir_fs (umask w) root ?h ?f"
    from blobs_absent [OF assms h None] have "fmlookup ?g (blob_path root ?h) = None"
      by (simp add: dir_fs_other)
    moreover have "CHR ''.'' \<notin> set (drop 2 ?h)" using h by (auto simp: hash_name_def dest: in_set_dropD)
    ultimately have "place_blob (umask w) (blob_path root ?h) b True ?g =
      (Inr (), put_fs (umask w) root ?h b ?f)"
      using place_blob_effect [OF step(2,3) hash_name_parts(2) [OF h], of "umask w" b True]
      by (simp add: put_fs_def)
    with None ex step(1) h show ?thesis
      by (simp add: Put_def io Let_def store_path_hash butlast_append on_fs_def)
  next
    case (Some x)
    with ex h show ?thesis by (simp add: Put_def io Let_def store_path_hash)
  qed
qed

lemma blob_path_inject: "blob_path root h = blob_path root h' \<longleftrightarrow> h = h'"
  by (metis append_take_drop_id list.inject same_append_eq)

lemma put_fs_lookup:
  "fmlookup (put_fs um root h b f) q =
     (if q = blob_path root h then Some (File mode_0644 (fdata b))
      else if q = blob_dir root h \<and> fmlookup f q = None then Some (Dir (mode_0755 AND NOT um))
      else fmlookup f q)"
  by (auto simp: put_fs_def dir_fs_def)

lemma put_fs_outside: "\<not> strict_prefix root q \<Longrightarrow> fmlookup (put_fs um root h b f) q = fmlookup f q"
  by (auto simp: put_fs_lookup strict_prefix_def)

lemma blobs_put_fs:
  assumes "hash_name h"
  shows "blobs root (put_fs um root h b f) = (blobs root f)(h \<mapsto> b)"
proof
  fix k
  show "blobs root (put_fs um root h b f) k = ((blobs root f)(h \<mapsto> b)) k"
    using assms blob_path_inject [of root k h]
    by (cases "k = h") (auto simp: blobs_def put_fs_lookup)
qed

lemma store_ok_put_fs:
  assumes ok: "store_ok sha root f" and h: "h = hashOf sha b" and a: "blobs root f h = None"
  shows "store_ok sha root (put_fs um root h b f)"
proof -
  have n: "hash_name h" using store_okD(1) [OF ok] h by (simp add: hash_name_hashOf)
  note step = blob_dir_step [OF ok n, of um]
  let ?g = "dir_fs um root h f"
  have "fmlookup ?g (blob_path root h) = None" using blobs_absent [OF ok n a] by (simp add: dir_fs_other)
  then have "\<not> is_dir_at ?g (blob_path root h)" by (auto simp: is_dir_at_def inode_at_def)
  moreover have "slot ?g (blob_path root h)"
    using slotI [OF step(3) hash_name_parts(2) [OF n]] by simp
  ultimately have fok: "fs_ok (put_fs um root h b f)"
    unfolding put_fs_def using step(2) by (intro fs_ok_fmupd) auto
  have "is_dir_at (put_fs um root h b f) root"
  proof (cases "root = []")
    case False
    with store_okD(3) [OF ok] put_fs_outside [of root root um h b f] show ?thesis
      by (simp add: is_dir_at_def inode_at_def)
  qed simp
  moreover have "store_entry_ok sha root p (the (fmlookup (put_fs um root h b f) p))"
    if p: "p |\<in>| fmdom (put_fs um root h b f)" "strict_prefix root p" for p
  proof -
    consider "p = blob_path root h" | "p = blob_dir root h" "fmlookup f p = None"
      | "p |\<in>| fmdom f" "fmlookup (put_fs um root h b f) p = fmlookup f p"
      using p(1) by (auto simp: put_fs_lookup fmlookup_dom_iff split: if_splits)
    then show ?thesis
    proof cases
      case 1
      then show ?thesis using n h by (simp add: put_fs_lookup store_entry_ok_def hash_name_def)
    next
      case 2
      then show ?thesis by (simp add: put_fs_lookup store_entry_ok_def)
    next
      case 3
      with ok p(2) show ?thesis by (auto simp: store_ok_def)
    qed
  qed
  ultimately show ?thesis using fok store_okD(1) [OF ok] by (simp add: store_ok_def)
qed

lemma PutFile_effect:
  assumes "store_ok sha root (hfs w)" and "ReadFile (hfs w) src = Inr b"
  shows "PutFile sha root src w = (Inr (hashOf sha b, int (length b)), snd (Put sha root b w))"
proof -
  let ?h = "hashOf sha b" and ?f = "hfs w"
  have h: "hash_name ?h" using store_okD(1) [OF assms(1)] by (rule hash_name_hashOf)
  note ex = exists_blob [OF assms(1) h] and step = blob_dir_step [OF assms(1) h, of "umask w"]
  show ?thesis
  proof (cases "blobs root ?f ?h")
    case None
    let ?g = "dir_fs (umask w) root ?h ?f"
    from blobs_absent [OF assms(1) h None] have "fmlookup ?g (blob_path root ?h) = None"
      by (simp add: dir_fs_other)
    moreover have "CHR ''.'' \<notin> set (drop 2 ?h)" using h by (auto simp: hash_name_def dest: in_set_dropD)
    ultimately have "place_blob (umask w) (blob_path root ?h) b False ?g = (Inr (), put_fs (umask w) root ?h b ?f)"
      using place_blob_effect [OF step(2,3) hash_name_parts(2) [OF h], of "umask w" b False]
      by (simp add: put_fs_def)
    with None ex step(1) h assms(2) Put_effect [OF assms(1), of b] show ?thesis
      by (simp add: PutFile_def io Let_def store_path_hash butlast_append on_fs_def)
  next
    case (Some x)
    with ex h assms(2) Put_effect [OF assms(1), of b] show ?thesis
      by (simp add: PutFile_def io Let_def store_path_hash)
  qed
qed

subsection \<open>The contract of a blob store\<close>

text \<open>
  What the rest of vitvm relies on: the store is a map from hashes to contents, every binding
  is under the hash of its contents, \<open>put\<close> adds the binding of its argument when the hash is
  free and changes nothing otherwise, \<open>get\<close> and \<open>has\<close> read the map.
\<close>

locale blob_store =
  fixes put :: "bytes \<Rightarrow> ('s, string) io"
    and get :: "'s \<Rightarrow> string \<Rightarrow> err + bytes"
    and has :: "'s \<Rightarrow> string \<Rightarrow> bool"
    and hash :: "bytes \<Rightarrow> string"
    and contents :: "'s \<Rightarrow> string \<rightharpoonup> bytes"
    and inv :: "'s \<Rightarrow> bool"
  assumes put_new: "inv s \<Longrightarrow> contents s (hash b) = None \<Longrightarrow>
      \<exists>s'. put b s = (Inr (hash b), s') \<and> inv s' \<and> contents s' = (contents s)(hash b \<mapsto> b)"
    and put_present: "inv s \<Longrightarrow> contents s (hash b) = Some b' \<Longrightarrow> put b s = (Inr (hash b), s)"
    and get_present: "inv s \<Longrightarrow> contents s h = Some b \<Longrightarrow> get s h = Inr b"
    and has_present: "inv s \<Longrightarrow> contents s h = Some b \<Longrightarrow> has s h"
    and get_absent: "inv s \<Longrightarrow> contents s (hash b) = None \<Longrightarrow> get s (hash b) = Inl ErrBlobNotFound"
    and has_absent: "inv s \<Longrightarrow> contents s (hash b) = None \<Longrightarrow> \<not> has s (hash b)"
    and addressed: "inv s \<Longrightarrow> contents s h = Some b \<Longrightarrow> hash b = h"
begin

lemma put_total: "inv s \<Longrightarrow> \<exists>s'. put b s = (Inr (hash b), s') \<and> inv s'"
  using put_new put_present by (cases "contents s (hash b)") blast+

lemma put_result: "inv s \<Longrightarrow> put b s = (r, s') \<Longrightarrow> r = Inr (hash b) \<and> inv s'"
  using put_total [of s b] by auto

lemma put_grows: "inv s \<Longrightarrow> put b s = (r, s') \<Longrightarrow> contents s \<subseteq>\<^sub>m contents s'"
  using put_new [of s b] put_present [of s b]
  by (cases "contents s (hash b)") (auto simp: map_le_def)

lemma put_stored:
  assumes "inv s" and "put b s = (r, s')"
  shows "\<exists>b'. contents s' (hash b) = Some b' \<and> hash b' = hash b"
proof (cases "contents s (hash b)")
  case None
  with assms put_new [of s b] show ?thesis by auto
next
  case (Some b')
  with assms put_present [of s b] addressed [of s] show ?thesis by auto
qed

lemma get_put:
  assumes "inv s" and "put b s = (r, s')"
    and "\<And>b'. contents s (hash b) = Some b' \<Longrightarrow> b' = b"
  shows "get s' (hash b) = Inr b"
proof (cases "contents s (hash b)")
  case None
  with assms(1,2) put_new [of s b] show ?thesis by (auto intro: get_present)
next
  case (Some b')
  with assms put_present [of s b] show ?thesis by (auto intro: get_present)
qed

lemma put_other: "inv s \<Longrightarrow> put b s = (r, s') \<Longrightarrow> h \<noteq> hash b \<Longrightarrow> contents s' h = contents s h"
  using put_new [of s b] put_present [of s b] by (cases "contents s (hash b)") auto

lemma put_twice: "inv s \<Longrightarrow> put b s = (r, s') \<Longrightarrow> put b s' = (Inr (hash b), s')"
  using put_stored [of s b r s'] put_result [of s b r s'] put_present [of s' b] by blast

lemma puts_succeed:
  "inv s \<Longrightarrow> \<exists>s'. for_each bs (\<lambda>b. bindE (put b) (\<lambda>_. ret ())) s = (Inr (), s') \<and> inv s' \<and>
     contents s \<subseteq>\<^sub>m contents s' \<and> (\<forall>b \<in> set bs. contents s' (hash b) \<noteq> None)"
proof (induction bs arbitrary: s)
  case (Cons b bs)
  let ?put = "\<lambda>b. bindE (put b) (\<lambda>_. ret ())"
  obtain t where t: "put b s = (Inr (hash b), t)" "inv t" using put_total [OF Cons.prems] by blast
  with put_stored [OF Cons.prems] have b: "contents t (hash b) \<noteq> None" by fastforce
  obtain s' where e: "for_each bs ?put t = (Inr (), s')" "inv s'"
    and le: "contents t \<subseteq>\<^sub>m contents s'" and bs: "\<forall>b \<in> set bs. contents s' (hash b) \<noteq> None"
    using Cons.IH [OF t(2)] by blast
  have "for_each (b # bs) ?put s = (Inr (), s')"
    using t(1) e(1) by (subst for_each_Cons_Inr [where t = t]) simp_all
  moreover have "contents s \<subseteq>\<^sub>m contents s'" using put_grows [OF Cons.prems t(1)] le by (rule map_le_trans)
  moreover have "\<forall>b \<in> set (b # bs). contents s' (hash b) \<noteq> None"
    using bs b le by (auto simp: map_le_def dom_def)
  ultimately show ?case using e(2) by blast
qed (auto simp: map_le_refl)

end

text \<open>
  The contract a client sees when no two of the byte strings it works with (\<open>B\<close>) have the
  same hash: \<open>put\<close> is then an update of the map. Every blob store gives it.
\<close>

locale map_store =
  fixes put :: "bytes \<Rightarrow> ('s, string) io"
    and get :: "'s \<Rightarrow> string \<Rightarrow> err + bytes"
    and has :: "'s \<Rightarrow> string \<Rightarrow> bool"
    and hash :: "bytes \<Rightarrow> string"
    and contents :: "'s \<Rightarrow> string \<rightharpoonup> bytes"
    and inv :: "'s \<Rightarrow> bool"
    and B :: "bytes set"
  assumes put_upd: "inv s \<Longrightarrow> b \<in> B \<Longrightarrow>
      \<exists>s'. put b s = (Inr (hash b), s') \<and> inv s' \<and> contents s' = (contents s)(hash b \<mapsto> b)"
    and get_upd: "inv s \<Longrightarrow> contents s h = Some b \<Longrightarrow> get s h = Inr b"
    and has_upd: "inv s \<Longrightarrow> b \<in> B \<Longrightarrow> has s (hash b) \<longleftrightarrow> contents s (hash b) = Some b"
begin

lemma put_updE:
  assumes "inv s" and "b \<in> B"
  obtains s' where "put b s = (Inr (hash b), s')" and "inv s'" and "contents s' = (contents s)(hash b \<mapsto> b)"
  using put_upd [OF assms] by blast

lemma get_after_put: "inv s \<Longrightarrow> b \<in> B \<Longrightarrow> put b s = (r, s') \<Longrightarrow> get s' (hash b) = Inr b"
  using put_upd [of s b] by (auto intro: get_upd)

lemma get_survives_put:
  assumes "inv s" and "b \<in> B" and "put b s = (r, s')" and "contents s h = Some c" and "h \<noteq> hash b"
  shows "get s' h = Inr c"
  using put_upd [OF assms(1,2)] assms(3-5) by (auto intro: get_upd)

end

sublocale blob_store \<subseteq> nc: map_store put get has hash contents
  "\<lambda>s. inv s \<and> inj_on hash B \<and> ran (contents s) \<subseteq> B" B for B
proof
  fix s b
  assume i: "inv s \<and> inj_on hash B \<and> ran (contents s) \<subseteq> B" and b: "b \<in> B"
  have same: "b' = b" if "contents s (hash b) = Some b'" for b'
    using that i b addressed [of s "hash b" b'] by (auto dest: inj_onD intro: ranI)
  show "\<exists>s'. put b s = (Inr (hash b), s') \<and>
      (inv s' \<and> inj_on hash B \<and> ran (contents s') \<subseteq> B) \<and> contents s' = (contents s)(hash b \<mapsto> b)"
  proof (cases "contents s (hash b)")
    case None
    with i b put_new [of s b] show ?thesis by (auto simp: ran_map_upd)
  next
    case (Some b')
    with same have "(contents s)(hash b \<mapsto> b) = contents s" by (auto simp: fun_upd_idem)
    with Some i put_present [of s b b'] show ?thesis by auto
  qed
  show "has s (hash b) \<longleftrightarrow> contents s (hash b) = Some b"
    using i same has_present [of s "hash b"] has_absent [of s b] by (cases "contents s (hash b)") auto
qed (blast intro: get_present)

interpretation cas: blob_store
  "Put sha root" "\<lambda>w. Get root (hfs w)" "\<lambda>w. Has root (hfs w)" "hashOf sha"
  "\<lambda>w. blobs root (hfs w)" "\<lambda>w. store_ok sha root (hfs w)"
  for sha root
proof
  fix s :: "'a world_scheme" and b b' h
  assume ok: "store_ok sha root (hfs s)"
  note h = hash_name_hashOf [OF store_okD(1) [OF ok]]
  show "\<exists>s'. Put sha root b s = (Inr (hashOf sha b), s') \<and> store_ok sha root (hfs s') \<and>
      blobs root (hfs s') = (blobs root (hfs s))(hashOf sha b \<mapsto> b)"
    if "blobs root (hfs s) (hashOf sha b) = None"
    using that Put_effect [OF ok, of b] store_ok_put_fs [OF ok _ that] blobs_put_fs [OF h]
    by simp
  show "Put sha root b s = (Inr (hashOf sha b), s)" if "blobs root (hfs s) (hashOf sha b) = Some b'"
    using that Put_effect [OF ok, of b] by simp
  show "Get root (hfs s) h = Inr b" "Has root (hfs s) h" if "blobs root (hfs s) h = Some b"
    using that Get_blobs [OF ok, of h] Has_blobs [OF ok, of h] by (auto elim: blobs_SomeE)
  show "Get root (hfs s) (hashOf sha b) = Inl ErrBlobNotFound" "\<not> Has root (hfs s) (hashOf sha b)"
    if "blobs root (hfs s) (hashOf sha b) = None"
    using that Get_blobs [OF ok h] Has_blobs [OF ok h] by simp_all
  show "hashOf sha b = h" if "blobs root (hfs s) h = Some b"
    using blobs_hash [OF ok that] .
qed

subsection \<open>Stores without collisions\<close>

definition safe_store :: "hasher \<Rightarrow> path \<Rightarrow> bytes set \<Rightarrow> fs \<Rightarrow> bool" where
  "safe_store sha root B f \<longleftrightarrow> store_ok sha root f \<and> inj_on (hashOf sha) B \<and> ran (blobs root f) \<subseteq> B"

lemma safe_Put:
  assumes "safe_store sha root B (hfs w)" and "b \<in> B"
  obtains f where "Put sha root b w = (Inr (hashOf sha b), w\<lparr>hfs := f\<rparr>)" and "safe_store sha root B f"
    and "blobs root f = (blobs root (hfs w))(hashOf sha b \<mapsto> b)"
    and "\<And>q. \<not> strict_prefix root q \<Longrightarrow> fmlookup f q = fmlookup (hfs w) q"
proof -
  let ?h = "hashOf sha b"
  from assms(1) have ok: "store_ok sha root (hfs w)" by (simp add: safe_store_def)
  obtain s' where s': "Put sha root b w = (Inr ?h, s')" "safe_store sha root B (hfs s')"
    "blobs root (hfs s') = (blobs root (hfs w))(?h \<mapsto> b)"
    using cas.nc.put_upd [of sha root w B b] assms by (auto simp: safe_store_def)
  from Put_effect [OF ok, of b] s'(1) have "s' = w\<lparr>hfs := hfs s'\<rparr>"
    by (auto split: if_splits)
  moreover have "fmlookup (hfs s') q = fmlookup (hfs w) q" if "\<not> strict_prefix root q" for q
    using Put_effect [OF ok, of b] s'(1) put_fs_outside [OF that] by (auto split: if_splits)
  ultimately show ?thesis using that [of "hfs s'"] s' by auto
qed

lemma safe_Get: "safe_store sha root B f \<Longrightarrow> blobs root f h = Some b \<Longrightarrow> Get root f h = Inr b"
  using Get_blobs [of sha root f h] by (auto simp: safe_store_def elim: blobs_SomeE)

lemma safe_Has:
  "safe_store sha root B f \<Longrightarrow> b \<in> B \<Longrightarrow> Has root f (hashOf sha b) \<longleftrightarrow> blobs root f (hashOf sha b) = Some b"
  using cas.nc.has_upd [of sha root "\<lparr>hfs = f, umask = 0, lseek_ok = True, zeroHashes = Map.empty\<rparr>" B b]
  by (simp add: safe_store_def)

lemma safe_addressed: "safe_store sha root B f \<Longrightarrow> blobs root f h = Some b \<Longrightarrow> h = hashOf sha b \<and> b \<in> B"
  by (auto simp: safe_store_def dest: blobs_hash intro: ranI)

subsection \<open>Changes outside the store\<close>

lemma store_agree:
  assumes "store_ok sha root f" and "fs_ok g" and "\<And>q. prefix root q \<Longrightarrow> fmlookup g q = fmlookup f q"
  shows "store_ok sha root g" and "blobs root g = blobs root f"
proof -
  have "is_dir_at g root" using store_okD(3) [OF assms(1)] is_dir_at_cong [OF assms(3) [of root]] by simp
  moreover have "store_entry_ok sha root p (the (fmlookup g p))" if "p |\<in>| fmdom g" "strict_prefix root p" for p
  proof -
    have e: "fmlookup g p = fmlookup f p" using assms(3) [of p] that(2) by (simp add: strict_prefix_def)
    with that(1) have "p |\<in>| fmdom f" by (simp add: fmlookup_dom_iff)
    with assms(1) that(2) e show ?thesis by (auto simp: store_ok_def)
  qed
  ultimately show "store_ok sha root g" using assms(1,2) by (simp add: store_ok_def)
  have "fmlookup g (blob_path root h) = fmlookup f (blob_path root h)" for h by (rule assms(3)) simp
  then show "blobs root g = blobs root f" by (simp add: blobs_def fun_eq_iff)
qed

lemma safe_agree:
  assumes "safe_store sha root B f" and "fs_ok g" and "\<And>q. prefix root q \<Longrightarrow> fmlookup g q = fmlookup f q"
  shows "safe_store sha root B g"
  using assms store_agree [of sha root f g] by (simp add: safe_store_def)

end
