(* ===== verification/Repo.thy ===== *)
theory Repo
  imports GoTime BlobStore
begin

section \<open>The repository (internal/engine/model.go, internal/engine/repo.go)\<close>

text \<open>
  Sandboxes and checkpoints are records kept as indented JSON files, one per id, under
  \<open>sandboxes\<close> and \<open>checkpoints\<close> of the repository's root; blobs lie under \<open>blobs\<close>, working
  directories under \<open>work\<close>. The world of the engine adds to the host's the sources of
  values that are not computed: the random bytes of ids, the clock and what the kernel reports
  of a file, as streams with a position; and the process's environment. \<open>History\<close> follows parent links and may not return when they form a cycle, so it is
  a partial function; \<open>RepoProps\<close> shows when it returns.
\<close>

subsection \<open>Model (model.go)\<close>

record sandbox =
  s_id :: string
  s_name :: string
  s_backend :: string
  s_head :: string
  s_forked_from :: string
  s_created :: time
  s_steps :: int

record ckpt =
  c_id :: string
  c_sandbox :: string
  c_seq :: int
  c_parent :: string
  c_tree_hash :: string
  c_command :: "string list"
  c_exit_code :: int
  c_created :: time
  c_added :: int
  c_modified :: int
  c_deleted :: int
  c_note :: string
  c_mem_hash :: string
  c_state_hash :: string
  c_disk_hash :: string
  c_base_hash :: string

definition HasMemory :: "ckpt \<Rightarrow> bool" where
  "HasMemory c \<longleftrightarrow> c_mem_hash c \<noteq> [] \<and> c_state_hash c \<noteq> []"

text \<open>\<open>omitempty\<close> members.\<close>

definition opt_str :: "string \<Rightarrow> string \<Rightarrow> (string \<times> json) list" where
  "opt_str name v = (if v = [] then [] else [(name, JStr v)])"

definition sandbox_json :: "sandbox \<Rightarrow> json" where
  "sandbox_json s = JObj
     ([(''id'', JStr (s_id s)), (''name'', JStr (s_name s)), (''backend'', JStr (s_backend s))] @
      opt_str ''head'' (s_head s) @ opt_str ''forked_from'' (s_forked_from s) @
      [(''created'', JStr (time_text (s_created s))), (''steps'', JNum (itoa (s_steps s)))])"

definition dec_sandbox :: "(string \<times> json) list \<Rightarrow> sandbox option" where
  "dec_sandbox fs =
     Option.bind (dec_str (member ''id'' fs)) (\<lambda>i.
     Option.bind (dec_str (member ''name'' fs)) (\<lambda>n.
     Option.bind (dec_str (member ''backend'' fs)) (\<lambda>b.
     Option.bind (dec_str (member ''head'' fs)) (\<lambda>h.
     Option.bind (dec_str (member ''forked_from'' fs)) (\<lambda>ff.
     Option.bind (dec_time (member ''created'' fs)) (\<lambda>c.
     Option.bind (dec_int64 (member ''steps'' fs)) (\<lambda>st.
     Some \<lparr>s_id = i, s_name = n, s_backend = b, s_head = h, s_forked_from = ff, s_created = c, s_steps = st\<rparr>)))))))"

definition ckpt_json :: "ckpt \<Rightarrow> json" where
  "ckpt_json c = JObj
     ([(''id'', JStr (c_id c)), (''sandbox'', JStr (c_sandbox c)), (''seq'', JNum (itoa (c_seq c)))] @
      opt_str ''parent'' (c_parent c) @
      [(''tree_hash'', JStr (c_tree_hash c))] @
      (if c_command c = [] then [] else [(''command'', JArr (map JStr (c_command c)))]) @
      [(''exit_code'', JNum (itoa (c_exit_code c))), (''created'', JStr (time_text (c_created c))),
       (''added'', JNum (itoa (c_added c))), (''modified'', JNum (itoa (c_modified c))),
       (''deleted'', JNum (itoa (c_deleted c)))] @
      opt_str ''note'' (c_note c) @ opt_str ''mem_hash'' (c_mem_hash c) @ opt_str ''state_hash'' (c_state_hash c) @
      opt_str ''disk_hash'' (c_disk_hash c) @ opt_str ''base_hash'' (c_base_hash c))"

definition dec_ckpt :: "(string \<times> json) list \<Rightarrow> ckpt option" where
  "dec_ckpt fs =
     Option.bind (dec_str (member ''id'' fs)) (\<lambda>i.
     Option.bind (dec_str (member ''sandbox'' fs)) (\<lambda>sb.
     Option.bind (dec_int64 (member ''seq'' fs)) (\<lambda>sq.
     Option.bind (dec_str (member ''parent'' fs)) (\<lambda>p.
     Option.bind (dec_str (member ''tree_hash'' fs)) (\<lambda>th.
     Option.bind (dec_list dec_str_elem (member ''command'' fs)) (\<lambda>cmd.
     Option.bind (dec_int64 (member ''exit_code'' fs)) (\<lambda>ec.
     Option.bind (dec_time (member ''created'' fs)) (\<lambda>cr.
     Option.bind (dec_int64 (member ''added'' fs)) (\<lambda>ad.
     Option.bind (dec_int64 (member ''modified'' fs)) (\<lambda>md.
     Option.bind (dec_int64 (member ''deleted'' fs)) (\<lambda>dl.
     Option.bind (dec_str (member ''note'' fs)) (\<lambda>nt.
     Option.bind (dec_str (member ''mem_hash'' fs)) (\<lambda>mh.
     Option.bind (dec_str (member ''state_hash'' fs)) (\<lambda>sh.
     Option.bind (dec_str (member ''disk_hash'' fs)) (\<lambda>dh.
     Option.bind (dec_str (member ''base_hash'' fs)) (\<lambda>bh.
     Some \<lparr>c_id = i, c_sandbox = sb, c_seq = sq, c_parent = p, c_tree_hash = th, c_command = cmd,
       c_exit_code = ec, c_created = cr, c_added = ad, c_modified = md, c_deleted = dl, c_note = nt,
       c_mem_hash = mh, c_state_hash = sh, c_disk_hash = dh, c_base_hash = bh\<rparr>))))))))))))))))"

text \<open>\<open>json.Unmarshal\<close> into a struct.\<close>

definition unmarshal_with :: "((string \<times> json) list \<Rightarrow> 'a option) \<Rightarrow> bytes \<Rightarrow> 'a option" where
  "unmarshal_with dec b =
     (case parse_json b of
        Some (JObj fs) \<Rightarrow> dec fs
      | Some JNull \<Rightarrow> dec []
      | _ \<Rightarrow> None)"

subsection \<open>Ids and the clock\<close>

text \<open>
  What \<open>stat\<close> reports of a file apart from its kind and contents: device, inode number, blocks
  on disk, modification time (in nanoseconds). Nothing else in the model determines these, so
  they come from a stream of answers, one per call, like the random bytes and the clock.
\<close>

record kstat =
  k_dev :: int
  k_ino :: int
  k_blocks :: int
  k_mtime :: int

record eworld = world +
  rand_bytes :: "nat \<Rightarrow> char"
  rand_pos :: nat
  clock :: "nat \<Rightarrow> time"
  clock_pos :: nat
  kstats :: "nat \<Rightarrow> path \<Rightarrow> kstat"
  kstat_pos :: nat
  tempDir :: path
  environ :: "string list"

definition newID :: "string \<Rightarrow> ('z eworld_scheme, string) io" where
  "newID p = bindE (gets (\<lambda>w. map (rand_bytes w) [rand_pos w..<rand_pos w + 6])) (\<lambda>b.
     bindE (modify (\<lambda>w. w\<lparr>rand_pos := rand_pos w + 6\<rparr>)) (\<lambda>_. ret (p @ hex_encode b)))"

definition time_now :: "('z eworld_scheme, time) io" where
  "time_now = bindE (gets (\<lambda>w. clock w (clock_pos w))) (\<lambda>t.
     bindE (modify (\<lambda>w. w\<lparr>clock_pos := Suc (clock_pos w)\<rparr>)) (\<lambda>_. ret t))"

subsection \<open>Files of the repository (repo.go)\<close>

definition OpenRepo :: "path \<Rightarrow> ('z world_scheme, path) io" where
  "OpenRepo root =
     bindE (gets umask) (\<lambda>um.
     bindE (for_each [''blobs'', ''sandboxes'', ''checkpoints'', ''work'']
       (\<lambda>d. on_fs (MkdirAll um (fp_join root d) mode_0755))) (\<lambda>_.
     bindE (Open (fp_join root ''blobs'')) (\<lambda>_. ret root)))"

text \<open>Where the store of a repository is.\<close>

definition CAS :: "path \<Rightarrow> path" where
  "CAS root = fp_join root ''blobs''"

definition WorkDir :: "path \<Rightarrow> string \<Rightarrow> path" where
  "WorkDir root sandboxID = clean_from root (''work'' # split_on (CHR ''/'') sandboxID)"

definition json_file :: "path \<Rightarrow> string \<Rightarrow> string \<Rightarrow> path" where
  "json_file root dir i = clean_from root (dir # split_on (CHR ''/'') (i @ ''.json''))"

definition putJSON :: "path \<Rightarrow> string \<Rightarrow> string \<Rightarrow> json \<Rightarrow> ('z world_scheme, unit) io" where
  "putJSON root dir i v =
     bindE (gets umask) (\<lambda>um. on_fs (WriteFile um (json_file root dir i) (emit (Some 0) v) mode_0644))"

definition getJSON :: "path \<Rightarrow> string \<Rightarrow> string \<Rightarrow> ((string \<times> json) list \<Rightarrow> 'a option) \<Rightarrow> fs \<Rightarrow> err + 'a" where
  "getJSON root dir i dec f =
     (case ReadFile f (json_file root dir i) of
        Inl e \<Rightarrow> Inl e
      | Inr b \<Rightarrow>
          (case unmarshal_with dec b of
             None \<Rightarrow> Inl (Errorf ''json'' [] None)
           | Some v \<Rightarrow> Inr v))"

text \<open>\<open>json.MarshalIndent\<close> fails on a time whose year has more than four digits or whose offset has 24 hours or more.\<close>

definition time_marshals :: "time \<Rightarrow> bool" where
  "time_marshals t \<longleftrightarrow> t_year t < 10000 \<and> \<bar>t_off t\<bar> < 24 * 60"

definition time_err :: "time \<Rightarrow> err" where
  "time_err t = Errorf (if 10000 \<le> t_year t then ''year outside of range [0,9999]''
     else ''timezone hour outside of range [0,23]'') [] None"

definition SaveSandbox :: "path \<Rightarrow> sandbox \<Rightarrow> ('z world_scheme, unit) io" where
  "SaveSandbox root s =
     (if time_marshals (s_created s) then putJSON root ''sandboxes'' (s_id s) (sandbox_json s)
      else fail (time_err (s_created s)))"

definition SaveCheckpoint :: "path \<Rightarrow> ckpt \<Rightarrow> ('z world_scheme, unit) io" where
  "SaveCheckpoint root c =
     (if time_marshals (c_created c) then putJSON root ''checkpoints'' (c_id c) (ckpt_json c)
      else fail (time_err (c_created c)))"

definition Checkpoint :: "path \<Rightarrow> fs \<Rightarrow> string \<Rightarrow> err + ckpt" where
  "Checkpoint root f i =
     (case getJSON root ''checkpoints'' i dec_ckpt f of
        Inl e \<Rightarrow> Inl (Errorf ''no checkpoint %q'' [i] None)
      | Inr c \<Rightarrow> Inr c)"

text \<open>\<open>os.ReadDir\<close>: the names in a directory, sorted.\<close>

definition ReadDir :: "fs \<Rightarrow> path \<Rightarrow> err + string list" where
  "ReadDir f p =
     (case namei f True p of
        Inl e \<Rightarrow> Inl e
      | Inr q \<Rightarrow>
          (case inode_at f q of
             None \<Rightarrow> Inl (Errno ENOENT)
           | Some (Dir m) \<Rightarrow> Inr (map last (filter (\<lambda>k. k \<noteq> [] \<and> butlast k = q) (fs_paths f)))
           | Some i \<Rightarrow> Inl (Errno ENOTDIR)))"

text \<open>\<open>name[:len(name)-len(".json")]\<close>: a shorter name panics.\<close>

definition trimJSON :: "string \<Rightarrow> err + string" where
  "trimJSON name =
     (if length name < 5 then Inl (Panic ''slice bounds out of range'') else Inr (take (length name - 5) name))"

fun load_sandboxes :: "path \<Rightarrow> fs \<Rightarrow> string list \<Rightarrow> err + sandbox list" where
  "load_sandboxes root f [] = Inr []"
| "load_sandboxes root f (n # ns) =
     (case trimJSON n of
        Inl e \<Rightarrow> Inl e
      | Inr i \<Rightarrow>
          (case load_sandboxes root f ns of
             Inl e \<Rightarrow> Inl e
           | Inr rest \<Rightarrow>
               (case getJSON root ''sandboxes'' i dec_sandbox f of
                  Inl e \<Rightarrow> Inr rest
                | Inr s \<Rightarrow> Inr (s # rest))))"

text \<open>
  Newest first, by the instants \<open>After\<close> compares; the result is an error only where \<open>trimJSON\<close> panics. Sandboxes
  made at the same instant keep the order of their files here; \<open>sort.Slice\<close> promises no order for them (it
  keeps it for up to twelve elements, which it sorts by insertion).
\<close>

definition Sandboxes :: "path \<Rightarrow> fs \<Rightarrow> err + sandbox list" where
  "Sandboxes root f =
     (case load_sandboxes root f (case ReadDir f (fp_join root ''sandboxes'') of Inl e \<Rightarrow> [] | Inr ns \<Rightarrow> ns) of
        Inl e \<Rightarrow> Inl e
      | Inr out \<Rightarrow> Inr (rev (sort_key (\<lambda>s. instant (s_created s)) (rev out))))"

definition Sandbox :: "path \<Rightarrow> fs \<Rightarrow> string \<Rightarrow> err + sandbox" where
  "Sandbox root f idOrName =
     (case getJSON root ''sandboxes'' idOrName dec_sandbox f of
        Inr s \<Rightarrow> Inr s
      | Inl _ \<Rightarrow>
          (case Sandboxes root f of
             Inl e \<Rightarrow> Inl e
           | Inr sbs \<Rightarrow>
               (case find (\<lambda>sb. s_name sb = idOrName) sbs of
                  Some sb \<Rightarrow> Inr sb
                | None \<Rightarrow> Inl (Errorf ''no sandbox %q'' [idOrName] None))))"

partial_function (option) history_from :: "path \<Rightarrow> fs \<Rightarrow> ckpt list \<Rightarrow> string \<Rightarrow> (err + ckpt list) option" where
  "history_from root f chain i =
     (if i = [] then Some (Inr chain)
      else case Checkpoint root f i of
        Inl e \<Rightarrow> Some (Inl e)
      | Inr c \<Rightarrow> history_from root f (chain @ [c]) (c_parent c))"

definition History :: "path \<Rightarrow> fs \<Rightarrow> string \<Rightarrow> (err + ckpt list) option" where
  "History root f sandboxID =
     (case Sandbox root f sandboxID of
        Inl e \<Rightarrow> Some (Inl e)
      | Inr s \<Rightarrow> history_from root f [] (s_head s))"

subsection \<open>Records as JSON\<close>

text \<open>Looking a name up in a document whose names are all different.\<close>

lemma member_skip:
  "lower k \<noteq> n \<Longrightarrow> member n ((k, v) # fs) = member n fs"
  "lower k \<noteq> n \<Longrightarrow> member n (opt_str k s @ fs) = member n fs"
  "lower k \<noteq> n \<Longrightarrow> member n (opt_str k s) = None"
  by (simp_all add: opt_str_def member_simps split: option.splits)

lemma member_here:
  "lower k = n \<Longrightarrow> v \<noteq> JNull \<Longrightarrow> member n fs = None \<Longrightarrow> member n ((k, v) # fs) = Some v"
  "lower k = n \<Longrightarrow> member n fs = None \<Longrightarrow> dec_str (member n (opt_str k s @ fs)) = Some s"
  "lower k = n \<Longrightarrow> dec_str (member n (opt_str k s)) = Some s"
  by (simp_all add: opt_str_def member_simps)

lemmas member_rules = member_skip member_here member_simps(1) lower_def

definition sandbox_ok :: "sandbox \<Rightarrow> bool" where
  "sandbox_ok s \<longleftrightarrow> valid_utf8 (s_id s) \<and> valid_utf8 (s_name s) \<and> valid_utf8 (s_backend s) \<and> valid_utf8 (s_head s) \<and>
     valid_utf8 (s_forked_from s) \<and> time_ok (s_created s) \<and> int64 (s_steps s) = s_steps s"

definition ckpt_ok :: "ckpt \<Rightarrow> bool" where
  "ckpt_ok c \<longleftrightarrow> list_all valid_utf8 [c_id c, c_sandbox c, c_parent c, c_tree_hash c, c_note c, c_mem_hash c,
       c_state_hash c, c_disk_hash c, c_base_hash c] \<and> list_all valid_utf8 (c_command c) \<and> time_ok (c_created c) \<and>
     list_all (\<lambda>i. int64 i = i) [c_seq c, c_exit_code c, c_added c, c_modified c, c_deleted c]"

definition fields_ok :: "(string \<times> json) list \<Rightarrow> bool" where
  "fields_ok fs \<longleftrightarrow> json_ok (JObj fs)"

lemma fields_ok_simps:
  "fields_ok []"
  "fields_ok ((k, v) # fs) \<longleftrightarrow> valid_utf8 k \<and> json_ok v \<and> fields_ok fs"
  "fields_ok (fs @ gs) \<longleftrightarrow> fields_ok fs \<and> fields_ok gs"
  "valid_utf8 k \<Longrightarrow> valid_utf8 s \<Longrightarrow> fields_ok (opt_str k s)"
  by (auto simp: fields_ok_def opt_str_def)

lemma json_ok_sandbox: "sandbox_ok s \<Longrightarrow> json_ok (sandbox_json s)"
  unfolding sandbox_json_def fields_ok_def [symmetric]
  by (simp add: fields_ok_simps sandbox_ok_def time_text_ascii valid_utf8_ascii)

lemma json_ok_ckpt: "ckpt_ok c \<Longrightarrow> json_ok (ckpt_json c)"
  unfolding ckpt_json_def fields_ok_def [symmetric]
  by (cases "c_command c = []")
    (simp_all add: fields_ok_simps ckpt_ok_def time_text_ascii list_all_iff valid_utf8_ascii)

lemma sandbox_roundtrip:
  assumes "sandbox_ok s"
  shows "unmarshal_with dec_sandbox (emit d (sandbox_json s)) = Some s"
proof -
  have "parse_json (emit d (sandbox_json s)) = Some (sandbox_json s)"
    by (rule parse_emit [OF json_ok_sandbox [OF assms]])
  with assms show ?thesis
    by (simp add: unmarshal_with_def sandbox_json_def dec_sandbox_def member_rules
        dec_int64_itoa dec_time_text sandbox_ok_def)
qed

lemma ckpt_roundtrip:
  assumes "ckpt_ok c"
  shows "unmarshal_with dec_ckpt (emit d (ckpt_json c)) = Some c"
proof -
  have "parse_json (emit d (ckpt_json c)) = Some (ckpt_json c)"
    by (rule parse_emit [OF json_ok_ckpt [OF assms]])
  moreover have "dec_list dec_str_elem None = Some []" by (simp add: dec_list_def)
  ultimately show ?thesis using assms
    by (cases "c_command c = []")
      (simp_all add: unmarshal_with_def ckpt_json_def dec_ckpt_def member_rules
        dec_int64_itoa dec_time_text ckpt_ok_def dec_list_strs)
qed

end
