(* ===== verification/SnapTree.thy ===== *)
theory SnapTree
  imports BlobStore
begin

unbundle bit_operations_syntax

section \<open>Snapshots of directories (internal/tree/tree.go)\<close>

text \<open>
  A tree is the list of the entries of a directory, sorted by path. \<open>Snapshot\<close> walks the
  directory, stores every regular file and records links by their target; \<open>Marshal\<close> and
  \<open>Unmarshal\<close> are its JSON; \<open>Diff\<close> compares two trees. The walk is given the listing of the
  directory when it starts: the blobs it stores lie elsewhere. Trees with no entries are
  those of \<open>Snapshot\<close>, whose slice is nil and is encoded as \<open>null\<close>.
  The lemmas show that encoding loses nothing, that \<open>Find\<close> and \<open>Diff\<close> compute what their
  comments say, and what a snapshot holds.
\<close>

subsection \<open>Entries and trees\<close>

record entry =
  e_path :: string
  e_mode :: "32 word"
  e_size :: int
  e_hash :: string
  e_link :: string
  e_dir :: bool

type_synonym tree = "entry list"

definition no_entry :: entry where
  "no_entry = \<lparr>e_path = [], e_mode = 0, e_size = 0, e_hash = [], e_link = [], e_dir = False\<rparr>"

text \<open>\<open>filepath.Rel\<close> and \<open>filepath.ToSlash\<close>: the path below the root, with slashes.\<close>

definition rel_text :: "path \<Rightarrow> string" where
  "rel_text r = join_with (CHR ''/'') r"

subsection \<open>Snapshot\<close>

type_synonym ignore = "string \<Rightarrow> bool \<Rightarrow> bool"
type_synonym 's blober = "path \<Rightarrow> ('s, string \<times> int) io"

definition perm :: "mode \<Rightarrow> mode" where
  "perm m = m AND mode_0777"

text \<open>
  What \<open>os.FileMode\<close> gives \<open>open\<close> and \<open>mkdir\<close>: beside the permission bits, Go's bits for setuid, setgid
  and sticky are passed on as 04000, 02000 and 01000; \<open>mkdir\<close> keeps the sticky bit only.
\<close>

definition file_mode :: "mode \<Rightarrow> mode" where
  "file_mode m = perm m OR (if bit m 23 then 2048 else 0) OR (if bit m 22 then 1024 else 0) OR (if bit m 20 then 512 else 0)"

definition dir_mode :: "mode \<Rightarrow> mode" where
  "dir_mode m = file_mode m AND 1023"

text \<open>The body of the walk, from the point where the entry is known not to be ignored.\<close>

fun visit :: "'s blober \<Rightarrow> path \<Rightarrow> path \<Rightarrow> inode \<Rightarrow> entry list \<Rightarrow> ('s, entry list) io" where
  "visit putFile root r (Dir m) entries =
     ret (entries @ [no_entry\<lparr>e_path := rel_text r, e_mode := perm m, e_dir := True\<rparr>])"
| "visit putFile root r (Link t) entries =
     ret (entries @ [no_entry\<lparr>e_path := rel_text r, e_mode := mode_0777, e_link := t\<rparr>])"
| "visit putFile root r (File m cs) entries =
     bindE (putFile (root @ r)) (\<lambda>(hash, sz).
     ret (entries @ [no_entry\<lparr>e_path := rel_text r, e_mode := perm m, e_size := sz, e_hash := hash\<rparr>]))"
| "visit putFile root r (Special m) entries = ret entries"

text \<open>Whether the path is below the directory the walk was told to skip.\<close>

definition under :: "path option \<Rightarrow> path \<Rightarrow> bool" where
  "under skip r = (case skip of None \<Rightarrow> False | Some d \<Rightarrow> strict_prefix d r)"

definition ignored :: "ignore option \<Rightarrow> path \<times> inode \<Rightarrow> bool" where
  "ignored ign x = (case ign of None \<Rightarrow> False | Some ig \<Rightarrow> ig (rel_text (fst x)) (is_dir (snd x)))"

text \<open>The walk over a listing; \<open>skip\<close> is the directory the walk was told to skip.\<close>

fun walk_entries ::
  "'s blober \<Rightarrow> ignore option \<Rightarrow> path \<Rightarrow> path option \<Rightarrow> entry list \<Rightarrow> (path \<times> inode) list \<Rightarrow> ('s, entry list) io" where
  "walk_entries putFile ign root skip entries [] = ret entries"
| "walk_entries putFile ign root skip entries ((r, i) # rest) =
     (if under skip r then walk_entries putFile ign root skip entries rest
      else if ignored ign (r, i)
      then walk_entries putFile ign root (if is_dir i then Some r else skip) entries rest
      else bindE (visit putFile root r i entries) (\<lambda>es. walk_entries putFile ign root skip es rest))"

definition Snapshot :: "'z world_scheme blober \<Rightarrow> path \<Rightarrow> ignore option \<Rightarrow> ('z world_scheme, tree) io" where
  "Snapshot putFile root ign =
     bindE (gets hfs) (\<lambda>f.
     bindE (lift_res (WalkDir f root)) (\<lambda>listing.
     bindE (walk_entries putFile ign root None [] listing) (\<lambda>entries.
     ret (sort_key e_path entries))))"

subsection \<open>JSON\<close>

definition entry_json :: "entry \<Rightarrow> json" where
  "entry_json e = JObj
     ([(''path'', JStr (e_path e)), (''mode'', JNum (itoa (uint (e_mode e)))), (''size'', JNum (itoa (e_size e)))] @
      (if e_hash e = [] then [] else [(''hash'', JStr (e_hash e))]) @
      (if e_link e = [] then [] else [(''link'', JStr (e_link e))]) @
      (if e_dir e then [(''dir'', JBool True)] else []))"

definition tree_json :: "tree \<Rightarrow> json" where
  "tree_json t = JObj [(''entries'', if t = [] then JNull else JArr (map entry_json t))]"

definition Marshal :: "tree \<Rightarrow> bytes" where
  "Marshal t = emit None (tree_json t)"

definition dec_entry :: "json \<Rightarrow> entry option" where
  "dec_entry j =
     (case j of
        JNull \<Rightarrow> Some no_entry
      | JObj fs \<Rightarrow>
          (case (dec_str (member ''path'' fs), dec_int 0 (2 ^ 32 - 1) (member ''mode'' fs),
                 dec_int64 (member ''size'' fs), dec_str (member ''hash'' fs),
                 dec_str (member ''link'' fs), dec_bool (member ''dir'' fs)) of
             (Some p, Some m, Some s, Some h, Some l, Some d) \<Rightarrow>
               Some \<lparr>e_path = p, e_mode = word_of_int m, e_size = s, e_hash = h, e_link = l, e_dir = d\<rparr>
           | _ \<Rightarrow> None)
      | _ \<Rightarrow> None)"

definition Unmarshal :: "bytes \<Rightarrow> tree option" where
  "Unmarshal b =
     (case parse_json b of
        Some (JObj fs) \<Rightarrow> dec_list dec_entry (member ''entries'' fs)
      | Some JNull \<Rightarrow> Some []
      | _ \<Rightarrow> None)"

text \<open>
  The tree \<open>Unmarshal\<close> returns beside an error: nothing of a text that is not JSON; else what could be
  decoded, a member of the wrong type or out of range leaving its field as it is.
\<close>

definition decoded :: "(json option \<Rightarrow> 'a option) \<Rightarrow> string \<Rightarrow> (string \<times> json) list \<Rightarrow> 'a option" where
  "decoded dec n fs =
     (case filter (\<lambda>(k, v). lower k = n \<and> v \<noteq> JNull \<and> dec (Some v) \<noteq> None) (rev fs) of
        (k, v) # _ \<Rightarrow> dec (Some v)
      | [] \<Rightarrow> dec None)"

definition part_entry :: "json \<Rightarrow> entry" where
  "part_entry j =
     (case j of
        JObj fs \<Rightarrow> \<lparr>e_path = the (decoded dec_str ''path'' fs), e_mode = word_of_int (the (decoded (dec_int 0 (2 ^ 32 - 1)) ''mode'' fs)),
          e_size = the (decoded dec_int64 ''size'' fs), e_hash = the (decoded dec_str ''hash'' fs),
          e_link = the (decoded dec_str ''link'' fs), e_dir = the (decoded dec_bool ''dir'' fs)\<rparr>
      | _ \<Rightarrow> no_entry)"

definition part_Unmarshal :: "bytes \<Rightarrow> tree" where
  "part_Unmarshal b =
     (case parse_json b of
        Some (JObj fs) \<Rightarrow> map part_entry (the (decoded (dec_list Some) ''entries'' fs))
      | _ \<Rightarrow> [])"

subsection \<open>Find, Diff, Sorted\<close>

definition Find :: "tree \<Rightarrow> string \<Rightarrow> entry option" where
  "Find t p = find (\<lambda>e. e_path e = TrimPrefix p ''./'') t"

datatype kind = added | modified | deleted

type_synonym change = "string \<times> kind"

definition sameEntry :: "entry \<Rightarrow> entry \<Rightarrow> bool" where
  "sameEntry a b \<longleftrightarrow> e_mode a = e_mode b \<and> e_size a = e_size b \<and> e_hash a = e_hash b \<and>
     e_link a = e_link b \<and> e_dir a = e_dir b"

text \<open>The Go map a loop over the entries fills: a later entry replaces an earlier one.\<close>

definition by_path :: "tree \<Rightarrow> string \<rightharpoonup> entry" where
  "by_path t = fold (\<lambda>e m. m(e_path e \<mapsto> e)) t Map.empty"

definition Diff :: "tree option \<Rightarrow> tree \<Rightarrow> change list" where
  "Diff old new =
     (let oldByPath = (case old of None \<Rightarrow> Map.empty | Some t \<Rightarrow> by_path t);
          newByPath = by_path new;
          news = concat (map (\<lambda>e. case oldByPath (e_path e) of
                     None \<Rightarrow> [(e_path e, added)]
                   | Some prev \<Rightarrow> if sameEntry prev e then [] else [(e_path e, modified)]) new);
          gone = (case old of None \<Rightarrow> []
                  | Some t \<Rightarrow> concat (map (\<lambda>e. case newByPath (e_path e) of
                       None \<Rightarrow> [(e_path e, deleted)] | Some _ \<Rightarrow> []) t))
      in sort_key fst (news @ gone))"

definition Sorted :: "entry list \<Rightarrow> entry list" where
  "Sorted entries = sort_key e_path entries"

subsection \<open>Encoding loses nothing\<close>

definition entry_ok :: "entry \<Rightarrow> bool" where
  "entry_ok e \<longleftrightarrow> valid_utf8 (e_path e) \<and> valid_utf8 (e_hash e) \<and> valid_utf8 (e_link e) \<and> int64 (e_size e) = e_size e"

lemma json_ok_entry: "entry_ok e \<Longrightarrow> json_ok (entry_json e)"
  by (auto simp: entry_json_def entry_ok_def intro!: valid_utf8_ascii)

lemma dec_mode: "dec_int 0 (2 ^ 32 - 1) (Some (JNum (itoa (uint (m :: 32 word))))) = Some (uint m)"
  using uint_lt2p [of m] by (intro dec_int_simps) auto

lemma dec_entry_json: "entry_ok e \<Longrightarrow> dec_entry (entry_json e) = Some e"
  by (cases "e_hash e = []"; cases "e_link e = []"; cases "e_dir e")
    (simp_all add: entry_json_def dec_entry_def member_simps lower_def dec_int64_itoa entry_ok_def
      dec_mode [simplified])

lemma Unmarshal_Marshal_ok: "(\<forall>e \<in> set t. entry_ok e) \<Longrightarrow> Unmarshal (Marshal t) = Some t"
proof -
  assume ok: "\<forall>e \<in> set t. entry_ok e"
  have "json_ok (tree_json t)" using ok by (auto simp: tree_json_def json_ok_entry intro!: valid_utf8_ascii)
  then have "parse_json (Marshal t) = Some (tree_json t)" unfolding Marshal_def by (rule parse_emit)
  moreover have "dec_list dec_entry (Some (JArr (map entry_json t))) = Some t"
    using all_some_map [of t dec_entry entry_json] ok by (simp add: dec_list_def dec_entry_json)
  ultimately show ?thesis
    by (simp add: Unmarshal_def tree_json_def member_simps lower_def) (simp add: dec_list_def)
qed

text \<open>
  What is read back of any tree: in a name or a link target that is not UTF-8, every byte that is
  not part of a rune has become U+FFFD. Nothing else is lost.
\<close>

definition entry_fix :: "entry \<Rightarrow> entry" where
  "entry_fix e = e\<lparr>e_path := utf8_fix (e_path e), e_hash := utf8_fix (e_hash e), e_link := utf8_fix (e_link e)\<rparr>"

lemma utf8_fix_eq_Nil [simp]: "utf8_fix s = [] \<longleftrightarrow> s = []"
  by (subst utf8_fix.simps) (auto simp: rune_error_length dest: arg_cong [of _ _ length])

lemma entry_fix_ok: "entry_ok e \<Longrightarrow> entry_fix e = e"
  by (simp add: entry_fix_def entry_ok_def utf8_fix_valid)

lemma utf8_fix_ascii: "\<forall>c \<in> set s. byte c < 128 \<Longrightarrow> utf8_fix s = s"
  by (intro utf8_fix_valid valid_utf8_ascii)

lemma json_fix_entry: "json_fix (entry_json e) = entry_json (entry_fix e)"
  by (simp add: entry_json_def entry_fix_def utf8_fix_ascii)

lemma Unmarshal_Marshal_fix:
  assumes "\<forall>e \<in> set t. int64 (e_size e) = e_size e"
  shows "Unmarshal (Marshal t) = Some (map entry_fix t)"
proof -
  have "nums_ok (tree_json t)" by (auto simp: tree_json_def entry_json_def)
  moreover have "json_fix (tree_json t) = tree_json (map entry_fix t)"
    by (simp add: tree_json_def utf8_fix_ascii json_fix_entry)
  ultimately have "parse_json (Marshal t) = Some (tree_json (map entry_fix t))"
    unfolding Marshal_def by (simp add: parse_emit_fix)
  moreover have ok: "\<forall>e \<in> set (map entry_fix t). entry_ok e" using assms by (auto simp: entry_ok_def entry_fix_def)
  then have "json_ok (tree_json (map entry_fix t))" by (auto simp: tree_json_def json_ok_entry intro!: valid_utf8_ascii)
  then have "parse_json (Marshal (map entry_fix t)) = Some (tree_json (map entry_fix t))"
    unfolding Marshal_def by (rule parse_emit)
  ultimately have "Unmarshal (Marshal t) = Unmarshal (Marshal (map entry_fix t))" by (simp add: Unmarshal_def)
  with Unmarshal_Marshal_ok [OF ok] show ?thesis by simp
qed

subsection \<open>Lookups and differences\<close>

lemma by_path_map_of: "by_path t = map_of (rev (map (\<lambda>e. (e_path e, e)) t))"
proof -
  have "fold (\<lambda>e m. m(e_path e \<mapsto> e)) t m = m ++ map_of (rev (map (\<lambda>e. (e_path e, e)) t))" for m
    by (induction t arbitrary: m) (auto simp: map_add_def fun_eq_iff split: option.splits)
  then show ?thesis by (simp add: by_path_def)
qed

lemma by_path_None: "by_path t p = None \<longleftrightarrow> p \<notin> e_path ` set t"
  by (simp add: by_path_map_of map_of_eq_None_iff image_image)

lemma by_path_Some:
  assumes "distinct (map e_path t)"
  shows "by_path t p = Some e \<longleftrightarrow> e \<in> set t \<and> e_path e = p"
proof -
  have "distinct (map fst (rev (map (\<lambda>e. (e_path e, e)) t)))"
    using assms by (simp add: rev_map [symmetric] comp_def)
  from map_of_eq_Some_iff [OF this] show ?thesis by (auto simp: by_path_map_of)
qed

definition tree_ok :: "tree \<Rightarrow> bool" where
  "tree_ok t \<longleftrightarrow> sorted (map e_path t) \<and> distinct (map e_path t)"

lemma Find_by_path: "distinct (map e_path t) \<Longrightarrow> Find t p = by_path t (TrimPrefix p ''./'')"
proof (cases "Find t p")
  case None
  then have "by_path t (TrimPrefix p ''./'') = None" by (auto simp: Find_def find_None_iff by_path_None)
  with None show ?thesis by simp
next
  case (Some e)
  assume "distinct (map e_path t)"
  moreover from Some have "e \<in> set t" "e_path e = TrimPrefix p ''./''" by (auto simp: Find_def find_Some_iff)
  ultimately have "by_path t (TrimPrefix p ''./'') = Some e" by (simp add: by_path_Some)
  with Some show ?thesis by simp
qed

text \<open>What \<open>Diff\<close> reports, path by path.\<close>

definition diff_at :: "(string \<rightharpoonup> entry) \<Rightarrow> (string \<rightharpoonup> entry) \<Rightarrow> string \<Rightarrow> kind option" where
  "diff_at old new p =
     (case (old p, new p) of
        (None, None) \<Rightarrow> None
      | (None, Some e) \<Rightarrow> Some added
      | (Some e, None) \<Rightarrow> Some deleted
      | (Some e, Some e') \<Rightarrow> if sameEntry e e' then None else Some modified)"

definition old_map :: "tree option \<Rightarrow> string \<rightharpoonup> entry" where
  "old_map old = (case old of None \<Rightarrow> Map.empty | Some t \<Rightarrow> by_path t)"

lemma set_Diff:
  assumes "distinct (map e_path new)" and "case old of None \<Rightarrow> True | Some t \<Rightarrow> distinct (map e_path t)"
  shows "(p, k) \<in> set (Diff old new) \<longleftrightarrow> diff_at (old_map old) (by_path new) p = Some k"
proof -
  let ?o = "old_map old" and ?n = "by_path new"
  have N: "(p, k) \<in> set (concat (map (\<lambda>e. case ?o (e_path e) of None \<Rightarrow> [(e_path e, added)]
      | Some prev \<Rightarrow> if sameEntry prev e then [] else [(e_path e, modified)]) new)) \<longleftrightarrow>
    (\<exists>e. ?n p = Some e \<and> (case ?o p of None \<Rightarrow> k = added | Some d \<Rightarrow> \<not> sameEntry d e \<and> k = modified))"
  proof -
    have "(p, k) \<in> set (case ?o (e_path e) of None \<Rightarrow> [(e_path e, added)]
        | Some prev \<Rightarrow> if sameEntry prev e then [] else [(e_path e, modified)]) \<longleftrightarrow>
      e_path e = p \<and> (case ?o p of None \<Rightarrow> k = added | Some d \<Rightarrow> \<not> sameEntry d e \<and> k = modified)" for e
      by (cases "?o (e_path e)") auto
    then show ?thesis by (auto simp: by_path_Some [OF assms(1)])
  qed
  have G: "(p, k) \<in> set (case old of None \<Rightarrow> [] | Some t \<Rightarrow> concat (map (\<lambda>e. case ?n (e_path e) of
      None \<Rightarrow> [(e_path e, deleted)] | Some _ \<Rightarrow> []) t)) \<longleftrightarrow> ?o p \<noteq> None \<and> ?n p = None \<and> k = deleted"
  proof (cases old)
    case (Some t)
    then show ?thesis using by_path_None [of t p] by (force simp: old_map_def split: option.splits)
  qed (simp add: old_map_def)
  show ?thesis
    unfolding Diff_def Let_def set_sort set_append Un_iff old_map_def [symmetric] N G
    by (cases "?o p"; cases "?n p") (auto simp: diff_at_def)
qed

lemma concat_paths:
  "(\<And>e. e \<in> set t \<Longrightarrow> length (f e) \<le> 1 \<and> (\<forall>c \<in> set (f e). fst c = e_path e)) \<Longrightarrow> distinct (map e_path t) \<Longrightarrow>
     distinct (map fst (concat (map f t))) \<and> fst ` set (concat (map f t)) \<subseteq> e_path ` set t"
proof (induction t)
  case (Cons e t)
  then have "distinct (map fst (f e))" "fst ` set (f e) \<subseteq> {e_path e}"
    by (cases "f e"; force)+
  with Cons show ?case by fastforce
qed simp

subsection \<open>What a snapshot holds\<close>

text \<open>The entry of a file, given the hash of its contents; special files have none.\<close>

fun entry_of :: "(bytes \<Rightarrow> string) \<Rightarrow> path \<times> inode \<Rightarrow> entry list" where
  "entry_of hash (r, Dir m) = [no_entry\<lparr>e_path := rel_text r, e_mode := perm m, e_dir := True\<rparr>]"
| "entry_of hash (r, Link t) = [no_entry\<lparr>e_path := rel_text r, e_mode := mode_0777, e_link := t\<rparr>]"
| "entry_of hash (r, File m cs) =
     [no_entry\<lparr>e_path := rel_text r, e_mode := perm m, e_size := int (length cs), e_hash := hash (fread cs)\<rparr>]"
| "entry_of hash (r, Special m) = []"

text \<open>Which entries the walk visits: those not ignored, and under no ignored directory.\<close>

definition hidden_by :: "ignore option \<Rightarrow> (path \<times> inode) list \<Rightarrow> path \<Rightarrow> bool" where
  "hidden_by ign l r \<longleftrightarrow> (\<exists>x \<in> set l. is_dir (snd x) \<and> ignored ign x \<and> strict_prefix (fst x) r)"

definition visible :: "ignore option \<Rightarrow> (path \<times> inode) list \<Rightarrow> (path \<times> inode) list" where
  "visible ign l = filter (\<lambda>x. \<not> ignored ign x \<and> \<not> hidden_by ign l (fst x)) l"

fun visited :: "ignore option \<Rightarrow> path option \<Rightarrow> (path \<times> inode) list \<Rightarrow> (path \<times> inode) list" where
  "visited ign skip [] = []"
| "visited ign skip (x # xs) =
     (if under skip (fst x) then visited ign skip xs
      else if ignored ign x then visited ign (if is_dir (snd x) then Some (fst x) else skip) xs
      else x # visited ign skip xs)"

lemma append_less_append [simp]: "q @ a < q @ b \<longleftrightarrow> a < (b :: 'a :: linorder list)"
  by (induction q) auto

lemma strict_prefix_less: "strict_prefix d r \<Longrightarrow> d < (r :: 'a :: linorder list)"
proof -
  assume "strict_prefix d r"
  then obtain z where "r = d @ z" "z \<noteq> []" by (auto simp: strict_prefix_def prefix_def)
  with append_less_append [of d "[]" z] show ?thesis by (cases z) simp_all
qed

lemma strict_prefix_between:
  "strict_prefix d x \<Longrightarrow> d < r \<Longrightarrow> r < x \<Longrightarrow> strict_prefix d (r :: string list)"
proof (induction d arbitrary: r x)
  case Nil
  then show ?case by (cases r) auto
next
  case (Cons a d)
  from Cons.prems(1) obtain y where x: "x = a # y" "strict_prefix d y" by (cases x) auto
  from Cons.prems(2) obtain b s where r: "r = b # s" by (cases r) auto
  from Cons.prems(2,3) x r have "a \<le> b" "b \<le> a" by (auto simp: Cons_less_Cons)
  then have "b = a" by simp
  with Cons.IH [OF x(2), of s] Cons.prems(2,3) x r show ?case by (simp add: Cons_less_Cons)
qed

definition next_skip :: "ignore option \<Rightarrow> path option \<Rightarrow> path \<times> inode \<Rightarrow> path option" where
  "next_skip ign skip x =
     (if under skip (fst x) then skip else if ignored ign x \<and> is_dir (snd x) then Some (fst x) else skip)"

text \<open>At every point of the walk, what is below \<open>skip\<close> is what an ignored directory seen so far hides.\<close>

definition skip_inv :: "ignore option \<Rightarrow> path option \<Rightarrow> (path \<times> inode) list \<Rightarrow> (path \<times> inode) list \<Rightarrow> bool" where
  "skip_inv ign skip seen xs \<longleftrightarrow> sorted_wrt (<) (map fst (seen @ xs)) \<and>
     (\<forall>x \<in> set xs. under skip (fst x) \<longleftrightarrow> hidden_by ign seen (fst x))"

lemma skip_inv_step:
  assumes "skip_inv ign skip seen (x # xs)"
  shows "skip_inv ign (next_skip ign skip x) (seen @ [x]) xs"
    and "under skip (fst x) \<longleftrightarrow> hidden_by ign (seen @ x # xs) (fst x)"
proof -
  have order: "\<And>y. y \<in> set seen \<Longrightarrow> fst y < fst x" "\<And>y. y \<in> set xs \<Longrightarrow> fst x < fst y"
    using assms by (auto simp: skip_inv_def sorted_wrt_append)
  have inv: "\<And>y. y \<in> set (x # xs) \<Longrightarrow> under skip (fst y) \<longleftrightarrow> hidden_by ign seen (fst y)"
    using assms by (auto simp: skip_inv_def)
  have "\<not> strict_prefix (fst y) (fst x)" if "y \<in> set (x # xs)" for y
    using that order(2) [of y] strict_prefix_less [of "fst y" "fst x"] by (auto dest: order.asym)
  then have "hidden_by ign (seen @ x # xs) (fst x) \<longleftrightarrow> hidden_by ign seen (fst x)"
    by (auto simp: hidden_by_def)
  with inv [of x] show "under skip (fst x) \<longleftrightarrow> hidden_by ign (seen @ x # xs) (fst x)" by simp
  have hs: "hidden_by ign (seen @ [x]) r \<longleftrightarrow> hidden_by ign seen r \<or> (is_dir (snd x) \<and> ignored ign x \<and> strict_prefix (fst x) r)" for r
    by (auto simp: hidden_by_def)
  have cover: "hidden_by ign seen (fst x)" if "hidden_by ign seen (fst y)" "y \<in> set xs" for y
    using that order strict_prefix_between unfolding hidden_by_def by blast
  have "under (next_skip ign skip x) (fst y) \<longleftrightarrow> hidden_by ign (seen @ [x]) (fst y)" if y: "y \<in> set xs" for y
  proof (cases "hidden_by ign seen (fst x)")
    case True
    then obtain d where d: "skip = Some d" "strict_prefix d (fst x)"
      using inv [of x] by (auto simp: under_def split: option.splits)
    have "strict_prefix d (fst y)" if "strict_prefix (fst x) (fst y)"
      using d(2) that by (rule prefix_order.strict_trans)
    with inv [of y] y d show ?thesis by (auto simp: hs under_def next_skip_def)
  next
    case False
    with cover [OF _ y] have ny: "\<not> hidden_by ign seen (fst y)" by blast
    with False inv [of x] inv [of y] y show ?thesis by (auto simp: hs under_def next_skip_def)
  qed
  with assms show "skip_inv ign (next_skip ign skip x) (seen @ [x]) xs" by (simp add: skip_inv_def)
qed

lemma visited_visible_aux:
  "skip_inv ign skip seen xs \<Longrightarrow>
     visited ign skip xs = filter (\<lambda>x. \<not> ignored ign x \<and> \<not> hidden_by ign (seen @ xs) (fst x)) xs"
proof (induction xs arbitrary: seen skip)
  case (Cons x xs)
  note step = skip_inv_step [OF Cons.prems]
  from Cons.IH [OF step(1)] step(2) show ?case by (auto simp: next_skip_def)
qed simp

lemma visited_visible:
  "sorted_wrt (<) (map fst l) \<Longrightarrow> visited ign None l = visible ign l"
  using visited_visible_aux [of ign None "[]" l] by (simp add: visible_def hidden_by_def under_def skip_inv_def)

lemma sorted_below: "sorted_wrt (<) (map fst (below f q))"
proof -
  have "sorted_wrt (<) (filter (strict_prefix q) (fs_paths f))"
    by (intro sorted_wrt_filter) (simp add: fs_paths_def sorted_list_of_fset.rep_eq)
  moreover have "drop (length q) a < drop (length q) b"
    if "strict_prefix q a" "strict_prefix q b" "a < b" for a b :: path
    using that by (auto simp: strict_prefix_def prefix_def)
  ultimately have "sorted_wrt (\<lambda>a b. drop (length q) a < drop (length q) b) (filter (strict_prefix q) (fs_paths f))"
    by (auto intro: sorted_wrt_mono_rel [rotated])
  then show ?thesis by (simp add: below_def sorted_wrt_map comp_def)
qed

subsection \<open>The contract of a Blober\<close>

text \<open>
  What \<open>Snapshot\<close> relies on: \<open>PutFile\<close> of a regular file returns the hash of its bytes and
  their number, remembers them, and leaves the files of the directory alone (\<open>kept\<close>).
\<close>

locale blober =
  fixes putFile :: "'z world_scheme blober" and hash :: "bytes \<Rightarrow> string"
    and I :: "'z world_scheme \<Rightarrow> bool" and R :: "'z world_scheme \<Rightarrow> 'z world_scheme \<Rightarrow> bool"
    and kept :: "path \<Rightarrow> bool" and good :: "bytes \<Rightarrow> bool" and stored :: "'z world_scheme \<Rightarrow> bytes \<Rightarrow> bool"
  assumes put_file: "I w \<Longrightarrow> kept p \<Longrightarrow> fmlookup (hfs w) p = Some (File m cs) \<Longrightarrow> good (fread cs) \<Longrightarrow>
      \<exists>w'. putFile p w = (Inr (hash (fread cs), int (length cs)), w') \<and> R w w' \<and> stored w' (fread cs)"
    and R_refl: "R w w"
    and R_trans: "R u v \<Longrightarrow> R v w \<Longrightarrow> R u w"
    and R_inv: "I w \<Longrightarrow> R w w' \<Longrightarrow> I w'"
    and R_kept: "R w w' \<Longrightarrow> kept q \<Longrightarrow> fmlookup (hfs w') q = fmlookup (hfs w) q"
    and R_stored: "R w w' \<Longrightarrow> stored w b \<Longrightarrow> stored w' b"
begin

definition ready :: "path \<Rightarrow> 'z world_scheme \<Rightarrow> path \<times> inode \<Rightarrow> bool" where
  "ready root w x \<longleftrightarrow> kept (root @ fst x) \<and> fmlookup (hfs w) (root @ fst x) = Some (snd x) \<and>
     (case snd x of File m cs \<Rightarrow> good (fread cs) | _ \<Rightarrow> True)"

lemma ready_R: "ready root w x \<Longrightarrow> R w w' \<Longrightarrow> ready root w' x"
  by (simp add: ready_def R_kept)

definition all_stored :: "(path \<times> inode) list \<Rightarrow> 'z world_scheme \<Rightarrow> bool" where
  "all_stored l w \<longleftrightarrow> (\<forall>r m cs. (r, File m cs) \<in> set l \<longrightarrow> stored w (fread cs))"

lemma visit_ok:
  assumes "I w" and "ready root w (r, i)"
  shows "\<exists>w'. visit putFile root r i es w = (Inr (es @ entry_of hash (r, i)), w') \<and> R w w' \<and> all_stored [(r, i)] w'"
  using assms put_file [of w "root @ r"]
  by (cases i) (force simp: ready_def all_stored_def R_refl)+

lemma walk_ok:
  "I w \<Longrightarrow> (\<And>x. x \<in> set l \<Longrightarrow> ready root w x) \<Longrightarrow>
     \<exists>w'. walk_entries putFile ign root skip es l w =
       (Inr (es @ concat (map (entry_of hash) (visited ign skip l))), w') \<and> R w w' \<and>
       all_stored (visited ign skip l) w'"
proof (induction l arbitrary: w skip es)
  case Nil
  then show ?case by (simp add: R_refl all_stored_def)
next
  case (Cons x l)
  obtain r i where x: "x = (r, i)" by fastforce
  show ?case
  proof (cases "under skip r \<or> ignored ign x")
    case True
    with Cons show ?thesis by (cases "under skip r") (simp_all add: x)
  next
    case False
    from visit_ok [OF Cons.prems(1), of root r i es] Cons.prems(2) x obtain v where
      v: "visit putFile root r i es w = (Inr (es @ entry_of hash (r, i)), v)" "R w v" "all_stored [(r, i)] v" by auto
    from Cons.IH [OF R_inv [OF Cons.prems(1) v(2)], of skip "es @ entry_of hash (r, i)"] Cons.prems(2) ready_R [OF _ v(2)]
    obtain u where u: "walk_entries putFile ign root skip (es @ entry_of hash (r, i)) l v =
        (Inr ((es @ entry_of hash (r, i)) @ concat (map (entry_of hash) (visited ign skip l))), u)"
      "R v u" "all_stored (visited ign skip l) u" by auto
    have "all_stored (x # visited ign skip l) u"
      using u(3) v(3) R_stored [OF u(2)] by (auto simp: all_stored_def x)
    with False u v R_trans [OF v(2) u(2)] show ?thesis by (simp add: x)
  qed
qed

lemma Snapshot_ok:
  assumes "I w" and "fs_ok (hfs w)" and "is_dir_at (hfs w) root"
    and "\<And>x. x \<in> set (below (hfs w) root) \<Longrightarrow> ready root w x"
  shows "\<exists>w'. Snapshot putFile root ign w =
      (Inr (sort_key e_path (concat (map (entry_of hash) (visible ign (below (hfs w) root))))), w') \<and> R w w' \<and>
      all_stored (visible ign (below (hfs w) root)) w'"
  using walk_ok [OF assms(1), of "below (hfs w) root" root ign None "[]"] assms(4)
    visited_visible [OF sorted_below] WalkDir_dir [OF assms(2,3)]
  by (auto simp: Snapshot_def io)

end

end
