(* ===== verification/Restore.thy ===== *)
theory Restore
  imports SnapTree
begin

unbundle bit_operations_syntax

section \<open>Restoring a tree (internal/snap/restore.go)\<close>

text \<open>
  \<open>Restore\<close> makes a directory hold a tree: \<open>clearExtra\<close> removes what the tree does not name,
  directories are made first, then links and files. The source's interface \<open>Blobs\<close> is the
  parameter \<open>open_blob\<close>. The lemmas give the directory it leaves behind, entry by entry, for
  a directory that is new or holds nothing of another kind under the tree's names.
\<close>

type_synonym open_blob = "fs \<Rightarrow> string \<Rightarrow> err + (err + bytes)"

definition writeBlob :: "open_blob \<Rightarrow> string \<Rightarrow> path \<Rightarrow> mode \<Rightarrow> ('z world_scheme, unit) io" where
  "writeBlob open_blob hash dst m =
     bindE (gets umask) (\<lambda>um.
     bindE (on_fs (MkdirAll um (butlast dst) mode_0755)) (\<lambda>_.
     bindE (gets hfs) (\<lambda>f.
     bindE (lift_res (open_blob f hash)) (\<lambda>rc.
     case rc of
       Inr b \<Rightarrow> on_fs (WriteFile um dst b m)
     | Inl e \<Rightarrow> bindE (on_fs (WriteFile um dst [] m)) (\<lambda>_. fail e)))))"

text \<open>The paths \<open>clearExtra\<close> collects: the walk skips a directory it is going to remove.\<close>

fun toRemove :: "string list \<Rightarrow> path option \<Rightarrow> (path \<times> inode) list \<Rightarrow> path list" where
  "toRemove want skip [] = []"
| "toRemove want skip ((r, i) # rest) =
     (if under skip r then toRemove want skip rest
      else if rel_text r \<notin> set want then r # toRemove want (if is_dir i then Some r else skip) rest
      else toRemove want skip rest)"

text \<open>\<open>os.RemoveAll(p)\<close> with its error ignored.\<close>

definition RemoveAll_quiet :: "path \<Rightarrow> ('z world_scheme, unit) io" where
  "RemoveAll_quiet p = bindE (attempt (on_fs (RemoveAll p))) (\<lambda>_. ret ())"

definition clearExtra :: "tree \<Rightarrow> path \<Rightarrow> ('z world_scheme, unit) io" where
  "clearExtra t dst =
     bindE (gets hfs) (\<lambda>f.
       let listing = (case WalkDir f dst of Inl e \<Rightarrow> [] | Inr l \<Rightarrow> l) in
       for_each (toRemove (map e_path t) None listing) (\<lambda>r. RemoveAll_quiet (dst @ r)))"

definition restore_dir :: "path \<Rightarrow> entry \<Rightarrow> ('z world_scheme, unit) io" where
  "restore_dir dst e =
     (if e_dir e then bindE (gets umask) (\<lambda>um. on_fs (MkdirAll um (fp_join dst (e_path e)) (dir_mode (e_mode e))))
      else ret ())"

definition restore_entry :: "open_blob \<Rightarrow> path \<Rightarrow> entry \<Rightarrow> ('z world_scheme, unit) io" where
  "restore_entry open_blob dst e =
     (let p = fp_join dst (e_path e) in
      if e_dir e then ret ()
      else if e_link e \<noteq> [] then
        bindE (attempt (on_fs (Remove p))) (\<lambda>_.
        bindE (gets umask) (\<lambda>um.
        bindE (on_fs (MkdirAll um (butlast p) mode_0755)) (\<lambda>_.
        on_fs (Symlink (e_link e) p))))
      else writeBlob open_blob (e_hash e) p (file_mode (e_mode e)))"

definition Restore :: "tree \<Rightarrow> open_blob \<Rightarrow> path \<Rightarrow> ('z world_scheme, unit) io" where
  "Restore t open_blob dst =
     bindE (gets umask) (\<lambda>um.
     bindE (on_fs (MkdirAll um dst mode_0755)) (\<lambda>_.
     bindE (clearExtra t dst) (\<lambda>_.
     bindE (for_each t (restore_dir dst)) (\<lambda>_.
     for_each t (restore_entry open_blob dst)))))"

subsection \<open>What clearExtra removes\<close>

definition unwanted :: "string list \<Rightarrow> path \<Rightarrow> bool" where
  "unwanted want r \<longleftrightarrow> (\<exists>d. d \<noteq> [] \<and> prefix d r \<and> rel_text d \<notin> set want)"

text \<open>The walk of \<open>clearExtra\<close> skips as the walk of \<open>Snapshot\<close> does.\<close>

definition not_wanted :: "string list \<Rightarrow> ignore option" where
  "not_wanted want = Some (\<lambda>r d. r \<notin> set want)"

lemma toRemove_aux:
  "skip_inv (not_wanted want) skip seen xs \<Longrightarrow>
     toRemove want skip xs =
       map fst (filter (\<lambda>x. rel_text (fst x) \<notin> set want \<and> \<not> hidden_by (not_wanted want) (seen @ xs) (fst x)) xs)"
proof (induction xs arbitrary: seen skip)
  case (Cons x xs)
  obtain r i where x: "x = (r, i)" by fastforce
  note step = skip_inv_step [OF Cons.prems]
  from Cons.IH [OF step(1)] step(2) show ?case by (auto simp: x next_skip_def not_wanted_def ignored_def)
qed simp

lemma toRemove_below:
  "set (toRemove want None (below f q)) =
     {r. r \<noteq> [] \<and> fmlookup f (q @ r) \<noteq> None \<and> rel_text r \<notin> set want \<and>
         \<not> hidden_by (not_wanted want) (below f q) r}"
proof -
  have "skip_inv (not_wanted want) None [] (below f q)"
    by (simp add: skip_inv_def sorted_below under_def hidden_by_def)
  from toRemove_aux [OF this] have "set (toRemove want None (below f q)) =
      fst ` {x \<in> set (below f q). rel_text (fst x) \<notin> set want \<and> \<not> hidden_by (not_wanted want) (below f q) (fst x)}"
    by simp
  also have "\<dots> = {r. \<exists>i. (r, i) \<in> set (below f q) \<and> rel_text r \<notin> set want \<and> \<not> hidden_by (not_wanted want) (below f q) r}"
    by force
  finally show ?thesis by (simp add: set_below)
qed

text \<open>Of the paths to remove none is above another, so each is still there when its turn comes.\<close>

lemma removed_iff:
  assumes "fs_ok f" and "q @ r |\<in>| fmdom f" and "r \<noteq> []"
  shows "(\<exists>d \<in> set (toRemove want None (below f q)). prefix d r) \<longleftrightarrow> unwanted want r"
proof
  assume "unwanted want r"
  define P where "P n \<longleftrightarrow> 0 < n \<and> n \<le> length r \<and> rel_text (take n r) \<notin> set want" for n
  from \<open>unwanted want r\<close> obtain d where "d \<noteq> []" "prefix d r" "rel_text d \<notin> set want" by (auto simp: unwanted_def)
  then have "P (length d)" by (auto simp: P_def prefix_def)
  then have least: "P (LEAST n. P n)" and min: "\<And>n. P n \<Longrightarrow> (LEAST n. P n) \<le> n" by (auto intro: LeastI Least_le)
  let ?d = "take (LEAST n. P n) r"
  have d: "?d \<noteq> []" "prefix ?d r" "rel_text ?d \<notin> set want" using least by (auto simp: P_def take_is_prefix)
  from assms(2) obtain i where i: "fmlookup f (q @ r) = Some i" by (auto simp: fmlookup_dom_iff)
  have "fmlookup f (q @ ?d) \<noteq> None"
  proof (cases "?d = r")
    case False
    with d(2) have "strict_prefix (q @ ?d) (q @ r)" by (simp add: strict_prefix_def)
    from fs_ok_above [OF assms(1) i this] d(1) show ?thesis
      by (auto simp: is_dir_at_def inode_at_def split: option.splits)
  qed (use i in simp)
  moreover have "\<not> hidden_by (not_wanted want) (below f q) ?d"
  proof
    assume "hidden_by (not_wanted want) (below f q) ?d"
    then obtain e j where e: "(e, j) \<in> set (below f q)" "rel_text e \<notin> set want" "strict_prefix e ?d"
      by (auto simp: hidden_by_def ignored_def not_wanted_def)
    from e(3) have l: "length e < length ?d" by (rule prefix_length_less)
    from e(3) d(2) have "prefix e r" by (meson prefix_order.less_imp_le prefix_order.trans)
    then have "e = take (length e) r" "length e \<le> length r" by (auto simp: prefix_def)
    with e(1,2) have "P (length e)" by (auto simp: P_def set_below)
    with min [of "length e"] l show False by simp
  qed
  ultimately have "?d \<in> set (toRemove want None (below f q))" using d unfolding toRemove_below by blast
  with d(2) show "\<exists>d \<in> set (toRemove want None (below f q)). prefix d r" by blast
qed (auto simp: toRemove_below unwanted_def)

lemma toRemove_apart:
  assumes "d \<in> set (toRemove want None (below f q))" and "e \<in> set (toRemove want None (below f q))"
    and "fs_ok f" and "prefix d e"
  shows "d = e"
proof (rule ccontr)
  assume "d \<noteq> e"
  with assms(4) have s: "strict_prefix d e" by (simp add: strict_prefix_def)
  from assms(1,2) have d: "d \<noteq> []" "fmlookup f (q @ d) \<noteq> None" "rel_text d \<notin> set want"
    and e: "fmlookup f (q @ e) \<noteq> None" "\<not> hidden_by (not_wanted want) (below f q) e"
    by (auto simp: toRemove_below)
  from e(1) obtain i where i: "fmlookup f (q @ e) = Some i" by blast
  from s have "strict_prefix (q @ d) (q @ e)" by (simp add: strict_prefix_def)
  from fs_ok_above [OF assms(3) i this] d(1) obtain m where "fmlookup f (q @ d) = Some (Dir m)"
    by (auto simp: inode_at_lookup elim!: is_dir_atE)
  then have "(d, Dir m) \<in> set (below f q)" using d(1) by (simp add: set_below)
  moreover have "ignored (not_wanted want) (d, Dir m)" using d(3) by (simp add: ignored_def not_wanted_def)
  ultimately have "hidden_by (not_wanted want) (below f q) e"
    using s unfolding hidden_by_def by (metis fst_conv snd_conv is_dir.simps(1))
  with e(2) show False by simp
qed

definition pruned :: "path \<Rightarrow> path list \<Rightarrow> fs \<Rightarrow> fs" where
  "pruned q xs f = fmfilter (\<lambda>k. \<not> (\<exists>d \<in> set xs. prefix (q @ d) k)) f"

lemma remove_loop:
  assumes "fs_ok f" and "\<And>d. d \<in> set xs \<Longrightarrow> fmlookup f (q @ d) \<noteq> None"
    and "\<And>d e. d \<in> set xs \<Longrightarrow> e \<in> set xs \<Longrightarrow> prefix d e \<Longrightarrow> d = e" and "distinct xs" and "hfs w = f"
  shows "for_each xs (\<lambda>r. RemoveAll_quiet (q @ r)) w =
      (Inr (), w\<lparr>hfs := pruned q xs f\<rparr>) \<and> fs_ok (pruned q xs f)"
  using assms
proof (induction xs arbitrary: f w)
  case Nil
  then show ?case by (simp add: pruned_def)
next
  case (Cons d xs)
  let ?g = "fmfilter (\<lambda>k. \<not> prefix (q @ d) k) f"
  obtain i where i: "fmlookup f (q @ d) = Some i" using Cons.prems(2) [of d] by auto
  have ra: "RemoveAll (q @ d) f = (Inr (), ?g)" by (rule RemoveAll_present [OF Cons.prems(1) i])
  have "fmlookup ?g (q @ e) \<noteq> None" if "e \<in> set xs" for e
    using that Cons.prems(2-4) by auto
  then have "for_each xs (\<lambda>r. RemoveAll_quiet (q @ r)) (w\<lparr>hfs := ?g\<rparr>) =
      (Inr (), w\<lparr>hfs := pruned q xs ?g\<rparr>) \<and> fs_ok (pruned q xs ?g)"
    using Cons.IH [of ?g "w\<lparr>hfs := ?g\<rparr>"] Cons.prems(3,4) fs_ok_prune [OF Cons.prems(1)] by simp
  moreover have "pruned q xs ?g = pruned q (d # xs) f"
    by (rule fmap_ext) (auto simp: pruned_def)
  moreover have "RemoveAll_quiet (q @ d) w = (Inr (), w\<lparr>hfs := ?g\<rparr>)"
    using ra Cons.prems(5) by (simp add: RemoveAll_quiet_def io on_fs_def)
  ultimately show ?case by simp
qed

lemma clearExtra_effect:
  assumes "fs_ok (hfs w)" and "is_dir_at (hfs w) dst"
  obtains g where "clearExtra t dst w = (Inr (), w\<lparr>hfs := g\<rparr>)" and "fs_ok g" and "is_dir_at g dst"
    and "\<And>r. r \<noteq> [] \<Longrightarrow> fmlookup g (dst @ r) =
      (if unwanted (map e_path t) r then None else fmlookup (hfs w) (dst @ r))"
    and "\<And>q. \<not> strict_prefix dst q \<Longrightarrow> fmlookup g q = fmlookup (hfs w) q"
proof -
  let ?xs = "toRemove (map e_path t) None (below (hfs w) dst)"
  let ?g = "pruned dst ?xs (hfs w)"
  have "distinct ?xs"
  proof -
    have "skip_inv (not_wanted (map e_path t)) None [] (below (hfs w) dst)"
      by (simp add: skip_inv_def sorted_below under_def hidden_by_def)
    from toRemove_aux [OF this] distinct_below [of "hfs w" dst] show ?thesis
      by (simp add: distinct_map distinct_filter inj_on_def)
  qed
  then have loop: "for_each ?xs (\<lambda>r. RemoveAll_quiet (dst @ r)) w =
      (Inr (), w\<lparr>hfs := ?g\<rparr>) \<and> fs_ok ?g"
    using toRemove_below [of "map e_path t"]
    by (intro remove_loop [OF assms(1) _ toRemove_apart [OF _ _ assms(1)] _ refl]) auto
  then have c: "clearExtra t dst w = (Inr (), w\<lparr>hfs := ?g\<rparr>)"
    by (simp add: clearExtra_def io WalkDir_dir [OF assms])
  have out: "fmlookup ?g q = fmlookup (hfs w) q" if "\<not> strict_prefix dst q" for q
  proof -
    have "\<not> prefix (dst @ d) q" if "d \<in> set ?xs" for d
      using that \<open>\<not> strict_prefix dst q\<close> by (auto simp: toRemove_below strict_prefix_def prefix_def)
    then show ?thesis by (auto simp: pruned_def)
  qed
  moreover have "fmlookup ?g (dst @ r) = (if unwanted (map e_path t) r then None else fmlookup (hfs w) (dst @ r))"
    if "r \<noteq> []" for r
  proof (cases "dst @ r |\<in>| fmdom (hfs w)")
    case True
    then show ?thesis using removed_iff [OF assms(1) True that, of "map e_path t"] by (auto simp: pruned_def)
  next
    case False
    then have "fmlookup (hfs w) (dst @ r) = None" by (simp add: fmdom_notD)
    then show ?thesis by (simp add: pruned_def)
  qed
  moreover have "is_dir_at ?g dst"
    using assms(2) is_dir_at_cong [OF out [of dst]] by simp
  ultimately show ?thesis using that [OF c] loop by blast
qed

subsection \<open>Well-formed trees\<close>

definition epath :: "entry \<Rightarrow> path" where
  "epath e = split_on (CHR ''/'') (e_path e)"

text \<open>What every snapshot is: proper names, sorted, each entry's directories listed as such.\<close>

definition tree_wf :: "tree \<Rightarrow> bool" where
  "tree_wf t \<longleftrightarrow> sorted (map e_path t) \<and> distinct (map e_path t) \<and>
     (\<forall>e \<in> set t. (\<forall>n \<in> set (epath e). ok_name n) \<and>
       (\<forall>d. d \<noteq> [] \<longrightarrow> strict_prefix d (epath e) \<longrightarrow> (\<exists>e' \<in> set t. epath e' = d \<and> e_dir e')))"

lemma tree_wf_parent:
  "tree_wf t \<Longrightarrow> e \<in> set t \<Longrightarrow> d \<noteq> [] \<Longrightarrow> strict_prefix d (epath e) \<Longrightarrow> \<exists>e' \<in> set t. epath e' = d \<and> e_dir e'"
  unfolding tree_wf_def by blast

lemma clean_from_names: "(\<forall>n \<in> set cs. ok_name n) \<Longrightarrow> clean_from p cs = p @ cs"
  by (induction cs arbitrary: p) (auto dest: ok_nameD)

lemma fp_join_epath: "tree_wf t \<Longrightarrow> e \<in> set t \<Longrightarrow> fp_join dst (e_path e) = dst @ epath e"
  unfolding fp_join_def epath_def [symmetric] by (intro clean_from_names) (auto simp: tree_wf_def)

lemma epath_nonempty [simp]: "epath e \<noteq> []"
  by (simp add: epath_def)

lemma butlast_epath [simp]: "butlast (epath e) \<noteq> epath e"
  by (metis append_butlast_last_id epath_nonempty append_self_conv list.distinct(1))

lemma rel_text_epath [simp]: "rel_text (epath e) = e_path e"
  by (simp add: rel_text_def epath_def join_with_split_on)

lemma epath_eq: "r \<noteq> [] \<Longrightarrow> \<forall>n \<in> set r. ok_name n \<Longrightarrow> rel_text r = e_path e \<Longrightarrow> epath e = r"
  unfolding epath_def rel_text_def by (metis split_on_join_with ok_nameD)

lemma epath_inject: "epath e = epath e' \<Longrightarrow> e_path e = e_path e'"
  by (metis rel_text_epath)

lemma join_with_append:
  "d \<noteq> [] \<Longrightarrow> z \<noteq> [] \<Longrightarrow> join_with c (d @ z) = join_with c d @ c # join_with c z"
  by (induction c d rule: join_with.induct) (auto simp: neq_Nil_conv)

lemma rel_text_less: "d \<noteq> [] \<Longrightarrow> strict_prefix d r \<Longrightarrow> rel_text d < rel_text r"
  by (rule strict_prefix_less) (auto simp: strict_prefix_def prefix_def rel_text_def join_with_append)

lemma unwanted_iff:
  assumes "tree_wf t" and "r \<noteq> []" and "\<forall>n \<in> set r. ok_name n"
  shows "unwanted (map e_path t) r \<longleftrightarrow> r \<notin> epath ` set t"
proof
  assume u: "unwanted (map e_path t) r"
  show "r \<notin> epath ` set t"
  proof
    assume "r \<in> epath ` set t"
    then obtain e where e: "e \<in> set t" "r = epath e" by blast
    from u obtain d where d: "d \<noteq> []" "prefix d r" "rel_text d \<notin> e_path ` set t" by (auto simp: unwanted_def)
    have "d \<noteq> r" using d(3) e by auto
    with d(2) have "strict_prefix d (epath e)" using e by (simp add: strict_prefix_def)
    with tree_wf_parent [OF assms(1) e(1) d(1)] obtain e' where "e' \<in> set t" "epath e' = d" by blast
    then have "rel_text d \<in> e_path ` set t" by (metis rel_text_epath imageI)
    with d(3) show False by simp
  qed
next
  assume "r \<notin> epath ` set t"
  then have "rel_text r \<notin> e_path ` set t" using epath_eq [OF assms(2,3)] by force
  with assms(2) show "unwanted (map e_path t) r" by (auto simp: unwanted_def)
qed

subsection \<open>What an entry becomes\<close>

text \<open>The inode of an entry made anew, and what is there when something of its kind was there
  before: files and directories keep the mode they had.\<close>

definition inode_of :: "mode \<Rightarrow> (string \<Rightarrow> bytes) \<Rightarrow> entry \<Rightarrow> inode" where
  "inode_of um contents e =
     (if e_dir e then Dir (dir_mode (e_mode e) AND NOT um)
      else if e_link e \<noteq> [] then Link (e_link e)
      else File (file_mode (e_mode e) AND NOT um) (fdata (contents (e_hash e))))"

fun settle :: "inode option \<Rightarrow> inode \<Rightarrow> inode" where
  "settle (Some (Dir m)) (Dir m') = Dir m"
| "settle (Some (File m cs)) (File m' cs') = File m cs'"
| "settle _ i = i"

fun compat :: "inode option \<Rightarrow> inode \<Rightarrow> bool" where
  "compat None i = True"
| "compat (Some (Dir m)) i = is_dir i"
| "compat (Some (File m cs)) i = (\<not> is_dir i)"
| "compat (Some (Link t)) i = is_link i"
| "compat (Some (Special m)) i = is_link i"

lemma settle_kind [simp]: "is_dir (settle o' i) = is_dir i"
  by (cases "(o', i)" rule: settle.cases) auto

lemma settle_None [simp]: "settle None i = i"
  by (cases i) auto

subsection \<open>The two loops\<close>

text \<open>
  \<open>laid\<close>: the filesystem \<open>g\<close> is \<open>g0\<close> with the entries of \<open>D\<close> settled below \<open>dst\<close>.
\<close>

definition settled :: "mode \<Rightarrow> (string \<Rightarrow> bytes) \<Rightarrow> fs \<Rightarrow> path \<Rightarrow> entry \<Rightarrow> inode" where
  "settled um contents g0 dst e = settle (fmlookup g0 (dst @ epath e)) (inode_of um contents e)"

definition laid :: "mode \<Rightarrow> (string \<Rightarrow> bytes) \<Rightarrow> fs \<Rightarrow> path \<Rightarrow> entry set \<Rightarrow> fs \<Rightarrow> bool" where
  "laid um contents g0 dst D g \<longleftrightarrow> fs_ok g \<and> is_dir_at g dst \<and>
     (\<forall>e \<in> D. fmlookup g (dst @ epath e) = Some (settled um contents g0 dst e)) \<and>
     (\<forall>q. (\<forall>e \<in> D. q \<noteq> dst @ epath e) \<longrightarrow> fmlookup g q = fmlookup g0 q)"

text \<open>What \<open>Restore\<close> needs of the directory it finds, the store it reads, and the tree.\<close>

definition restorable :: "mode \<Rightarrow> (string \<Rightarrow> bytes) \<Rightarrow> open_blob \<Rightarrow> fs \<Rightarrow> path \<Rightarrow> tree \<Rightarrow> bool" where
  "restorable um contents open_blob g0 dst t \<longleftrightarrow> tree_wf t \<and>
     (\<forall>e \<in> set t. compat (fmlookup g0 (dst @ epath e)) (inode_of um contents e)) \<and>
     (\<forall>e \<in> set t. \<not> e_dir e \<longrightarrow> e_link e = [] \<longrightarrow>
        (\<forall>g. fs_ok g \<longrightarrow> (\<forall>q. \<not> prefix dst q \<longrightarrow> fmlookup g q = fmlookup g0 q) \<longrightarrow>
           open_blob g (e_hash e) = Inr (Inr (contents (e_hash e)))))"

lemma laid_outside:
  "laid um contents g0 dst D g \<Longrightarrow> \<not> strict_prefix dst q \<Longrightarrow> fmlookup g q = fmlookup g0 q"
  by (auto simp: laid_def strict_prefix_def prefix_def)

lemma laid_place:
  assumes wf: "tree_wf t" and "laid um contents g0 dst D g" and D: "D \<subseteq> set t" and e: "e \<in> set t"
    and parents: "\<And>e'. e' \<in> set t \<Longrightarrow> e_dir e' \<Longrightarrow> strict_prefix (epath e') (epath e) \<Longrightarrow> e' \<in> D"
  shows "is_dir_at g (dst @ butlast (epath e))" and "ok_name (last (epath e))"
    and "dst @ epath e = (dst @ butlast (epath e)) @ [last (epath e)]"
proof -
  from wf e show "ok_name (last (epath e))" by (auto simp: tree_wf_def)
  show "dst @ epath e = (dst @ butlast (epath e)) @ [last (epath e)]" by simp
  show "is_dir_at g (dst @ butlast (epath e))"
  proof (cases "butlast (epath e) = []")
    case True
    with assms(2) show ?thesis by (simp add: laid_def)
  next
    case False
    have s: "strict_prefix (butlast (epath e)) (epath e)"
      using prefixeq_butlast [of "epath e"] by (simp add: strict_prefix_def)
    from tree_wf_parent [OF wf e False s] obtain e' where e': "e' \<in> set t" "epath e' = butlast (epath e)" "e_dir e'"
      by blast
    with parents s have "e' \<in> D" by auto
    with assms(2) have "fmlookup g (dst @ epath e') = Some (settled um contents g0 dst e')" by (auto simp: laid_def)
    moreover have "is_dir (settled um contents g0 dst e')" using e'(3) by (simp add: settled_def inode_of_def)
    ultimately show ?thesis using e'(2) by (auto simp: is_dir_at_def inode_at_def)
  qed
qed

lemma laid_step:
  assumes wf: "tree_wf t" and l: "laid um contents g0 dst D g" and D: "D \<subseteq> set t" and e: "e \<in> set t" "e \<notin> D"
    and place: "is_dir_at g (dst @ butlast (epath e))" "ok_name (last (epath e))"
    and c: "compat (fmlookup g0 (dst @ epath e)) (inode_of um contents e)"
  shows "laid um contents g0 dst (insert e D) (fmupd (dst @ epath e) (settled um contents g0 dst e) g)"
    and "fmlookup g (dst @ epath e) = fmlookup g0 (dst @ epath e)"
proof -
  have inj: "epath e' \<noteq> epath e" if "e' \<in> D" for e'
  proof
    assume "epath e' = epath e"
    then have "e_path e' = e_path e" by (rule epath_inject)
    with wf that D e show False by (auto simp: tree_wf_def distinct_map inj_on_def)
  qed
  then have "\<forall>e' \<in> D. dst @ epath e \<noteq> dst @ epath e'" by (metis same_append_eq)
  with l show g: "fmlookup g (dst @ epath e) = fmlookup g0 (dst @ epath e)" unfolding laid_def by blast
  let ?i = "settled um contents g0 dst e" and ?p = "dst @ epath e"
  have "slot g ?p" using place by (simp add: slot_def butlast_append)
  moreover have "is_dir ?i \<or> \<not> is_dir_at g ?p"
    using c g by (cases "fmlookup g0 ?p" rule: option.exhaust)
      (auto simp: settled_def is_dir_at_def inode_at_def elim: compat.elims)
  ultimately have "fs_ok (fmupd ?p ?i g)" using l by (intro fs_ok_fmupd) (auto simp: laid_def)
  moreover have "is_dir_at (fmupd ?p ?i g) dst" using l by (simp add: laid_def is_dir_at_fmupd)
  ultimately show "laid um contents g0 dst (insert e D) (fmupd ?p ?i g)"
    using l inj inj [symmetric] by (auto simp: laid_def)
qed

lemma fmupd_same: "fmlookup g p = Some i \<Longrightarrow> fmupd p i g = g"
  by (rule fmap_ext) auto

lemma restore_dir_step:
  assumes wf: "tree_wf t" and l: "laid um contents g0 dst D (hfs w)" and "e \<in> set t" and "e_dir e" and "umask w = um"
    and place: "is_dir_at (hfs w) (dst @ butlast (epath e))" "ok_name (last (epath e))"
    and old: "fmlookup (hfs w) (dst @ epath e) = fmlookup g0 (dst @ epath e)"
    and c: "compat (fmlookup g0 (dst @ epath e)) (inode_of um contents e)"
  shows "restore_dir dst e w = (Inr (), w\<lparr>hfs := fmupd (dst @ epath e) (settled um contents g0 dst e) (hfs w)\<rparr>)"
proof -
  let ?p = "dst @ epath e"
  have ok: "fs_ok (hfs w)" using l by (simp add: laid_def)
  have i: "inode_of um contents e = Dir (dir_mode (e_mode e) AND NOT um)" using \<open>e_dir e\<close> by (simp add: inode_of_def)
  have "MkdirAll um ?p (dir_mode (e_mode e)) (hfs w) = (Inr (), fmupd ?p (settled um contents g0 dst e) (hfs w))"
  proof (cases "fmlookup g0 ?p")
    case None
    then have n: "fmlookup (hfs w) ((dst @ butlast (epath e)) @ [last (epath e)]) = None" using old by simp
    from MkdirAll_new [OF ok place n, of um "dir_mode (e_mode e)"] None show ?thesis by (simp add: settled_def i)
  next
    case (Some j)
    with c i obtain m where j: "j = Dir m" by (cases j) auto
    with Some old have d: "fmlookup (hfs w) ?p = Some (Dir m)" by simp
    then have "is_dir_at (hfs w) ?p" by (rule is_dir_atI)
    with MkdirAll_existing [OF ok this] d Some j show ?thesis
      by (simp add: settled_def i fmupd_same)
  qed
  then show ?thesis
    using \<open>e_dir e\<close> \<open>umask w = um\<close> fp_join_epath [OF wf \<open>e \<in> set t\<close>] by (simp add: restore_dir_def io on_fs_def)
qed

lemma restore_dirs:
  assumes wf: "tree_wf t" and c: "\<forall>e \<in> set t. compat (fmlookup g0 (dst @ epath e)) (inode_of um contents e)"
    and "t = ds @ es" and "laid um contents g0 dst {e \<in> set ds. e_dir e} (hfs w)" and "umask w = um"
  shows "\<exists>g. for_each es (restore_dir dst) w = (Inr (), w\<lparr>hfs := g\<rparr>) \<and> laid um contents g0 dst {e \<in> set t. e_dir e} g"
  using assms(3-5)
proof (induction es arbitrary: ds w)
  case Nil
  then show ?case by (intro exI [of _ "hfs w"]) simp
next
  case (Cons e es)
  let ?D = "{e \<in> set ds. e_dir e}"
  show ?case
  proof (cases "e_dir e")
    case False
    then have "restore_dir dst e w = (Inr (), w)" by (simp add: restore_dir_def)
    moreover have "{x \<in> set (ds @ [e]). e_dir x} = ?D" using False by auto
    ultimately show ?thesis using Cons.IH [of "ds @ [e]" w] Cons.prems by auto
  next
    case True
    have e: "e \<in> set t" "e \<notin> ?D" "?D \<subseteq> set t"
      using Cons.prems(1) wf by (auto simp: tree_wf_def)
    have "e' \<in> ?D" if "e' \<in> set t" "e_dir e'" "strict_prefix (epath e') (epath e)" for e'
    proof -
      from rel_text_less [OF _ that(3)] have "e_path e' < e_path e" by simp
      with that wf Cons.prems(1) show ?thesis by (auto simp: tree_wf_def sorted_append)
    qed
    note place = laid_place(1,2) [OF wf Cons.prems(2) e(3) e(1) this]
    have ce: "compat (fmlookup g0 (dst @ epath e)) (inode_of um contents e)" using c e(1) by blast
    note step = laid_step [OF wf Cons.prems(2) e(3) e(1,2) place ce]
    have r: "restore_dir dst e w = (Inr (), w\<lparr>hfs := fmupd (dst @ epath e) (settled um contents g0 dst e) (hfs w)\<rparr>)"
      by (rule restore_dir_step [OF wf Cons.prems(2) e(1) True Cons.prems(3) place step(2) ce])
    have "{x \<in> set (ds @ [e]). e_dir x} = insert e ?D" using True by auto
    with Cons.IH [of "ds @ [e]" "w\<lparr>hfs := fmupd (dst @ epath e) (settled um contents g0 dst e) (hfs w)\<rparr>"]
      Cons.prems(1,3) step(1) r show ?thesis by simp
  qed
qed

lemma restore_entry_step:
  assumes r: "restorable um contents open_blob g0 dst t" and l: "laid um contents g0 dst D (hfs w)"
    and "e \<in> set t" and "\<not> e_dir e" and "umask w = um"
    and place: "is_dir_at (hfs w) (dst @ butlast (epath e))" "ok_name (last (epath e))"
    and old: "fmlookup (hfs w) (dst @ epath e) = fmlookup g0 (dst @ epath e)"
  shows "restore_entry open_blob dst e w =
    (Inr (), w\<lparr>hfs := fmupd (dst @ epath e) (settled um contents g0 dst e) (hfs w)\<rparr>)"
proof -
  let ?d = "dst @ butlast (epath e)" and ?n = "last (epath e)"
  have ok: "fs_ok (hfs w)" using l by (simp add: laid_def)
  from r have wf: "tree_wf t" and c: "compat (fmlookup g0 (dst @ epath e)) (inode_of um contents e)"
    using \<open>e \<in> set t\<close> by (auto simp: restorable_def)
  note j = fp_join_epath [OF wf \<open>e \<in> set t\<close>]
  have mk: "MkdirAll um ?d mode_0755 g = (Inr (), g)" if "fs_ok g" "is_dir_at g ?d" for g
    using MkdirAll_existing [OF that] .
  show ?thesis
  proof (cases "e_link e = []")
    case True
    have i: "inode_of um contents e = File (file_mode (e_mode e) AND NOT um) (fdata (contents (e_hash e)))"
      using True \<open>\<not> e_dir e\<close> by (simp add: inode_of_def)
    have "\<forall>q. \<not> prefix dst q \<longrightarrow> fmlookup (hfs w) q = fmlookup g0 q"
      using laid_outside [OF l] by (simp add: strict_prefix_def)
    then have ob: "open_blob (hfs w) (e_hash e) = Inr (Inr (contents (e_hash e)))"
      using r \<open>e \<in> set t\<close> \<open>\<not> e_dir e\<close> True ok unfolding restorable_def by blast
    have "WriteCells um (?d @ [?n]) (fdata (contents (e_hash e))) (file_mode (e_mode e)) (hfs w) =
        (Inr (), fmupd (?d @ [?n]) (settled um contents g0 dst e) (hfs w))"
    proof (cases "fmlookup g0 (dst @ epath e)")
      case None
      with old have "fmlookup (hfs w) (?d @ [?n]) = None" by simp
      from WriteCells_new [OF ok place this, of um] None show ?thesis by (simp add: settled_def i)
    next
      case (Some k)
      with c i obtain m cs where k: "k = File m cs" by (cases k) auto
      with Some old have "fmlookup (hfs w) (?d @ [?n]) = Some (File m cs)" by simp
      from WriteCells_over [OF ok this, of um] Some k show ?thesis by (simp add: settled_def i)
    qed
    with mk [OF ok place(1)] ob j True \<open>\<not> e_dir e\<close> \<open>umask w = um\<close> show ?thesis
      by (simp add: restore_entry_def writeBlob_def WriteFile_def io on_fs_def Let_def butlast_append)
  next
    case False
    let ?g = "fmdrop (?d @ [?n]) (hfs w)"
    have i: "inode_of um contents e = Link (e_link e)" using False \<open>\<not> e_dir e\<close> by (simp add: inode_of_def)
    have nd: "\<not> is_dir_at (hfs w) (?d @ [?n])"
      using c i old by (cases "fmlookup g0 (dst @ epath e)")
        (auto simp: is_dir_at_def inode_at_def elim: compat.elims)
    have "snd (Remove (?d @ [?n]) (hfs w)) = ?g"
    proof (cases "fmlookup (hfs w) (?d @ [?n])")
      case None
      from Remove_absent [OF ok place None] None show ?thesis by (auto intro!: fmap_ext)
    next
      case (Some k)
      with nd have "\<not> is_dir k" by (simp add: is_dir_at_def inode_at_def)
      from Remove_leaf [OF ok Some this] show ?thesis by simp
    qed
    moreover have gok: "fs_ok ?g" by (rule fs_ok_fmdrop [OF ok no_children [OF ok nd]])
    moreover have gd: "is_dir_at ?g ?d"
      using place(1) is_dir_at_cong [of ?g ?d "hfs w"] by simp
    moreover have "Symlink (e_link e) (?d @ [?n]) ?g = (Inr (), fmupd (?d @ [?n]) (Link (e_link e)) ?g)"
      using False by (intro Symlink_new [OF gok gd place(2)]) auto
    moreover have "fmupd (?d @ [?n]) (Link (e_link e)) ?g = fmupd (?d @ [?n]) (Link (e_link e)) (hfs w)"
      by (rule fmap_ext) auto
    moreover have "settled um contents g0 dst e = Link (e_link e)"
      using c i by (cases "fmlookup g0 (dst @ epath e)") (auto simp: settled_def elim: compat.elims)
    ultimately show ?thesis
      using mk [OF gok gd] j False \<open>\<not> e_dir e\<close> \<open>umask w = um\<close>
      by (simp add: restore_entry_def io on_fs_def Let_def butlast_append case_prod_beta)
  qed
qed

lemma restore_entries:
  assumes r: "restorable um contents open_blob g0 dst t"
    and "t = ds @ es" and "laid um contents g0 dst ({e \<in> set t. e_dir e} \<union> set ds) (hfs w)" and "umask w = um"
  shows "\<exists>g. for_each es (restore_entry open_blob dst) w = (Inr (), w\<lparr>hfs := g\<rparr>) \<and> laid um contents g0 dst (set t) g"
  using assms(2-4)
proof (induction es arbitrary: ds w)
  case Nil
  then have "{e \<in> set t. e_dir e} \<union> set ds = set t" by auto
  with Nil show ?case by (intro exI [of _ "hfs w"]) simp
next
  case (Cons e es)
  let ?D = "{e \<in> set t. e_dir e} \<union> set ds"
  from r have wf: "tree_wf t" by (simp add: restorable_def)
  show ?case
  proof (cases "e_dir e")
    case True
    then have "restore_entry open_blob dst e w = (Inr (), w)" by (simp add: restore_entry_def Let_def)
    moreover have "{x \<in> set t. e_dir x} \<union> set (ds @ [e]) = ?D" using True Cons.prems(1) by auto
    ultimately show ?thesis using Cons.IH [of "ds @ [e]" w] Cons.prems by simp
  next
    case False
    have e: "e \<in> set t" "e \<notin> ?D" "?D \<subseteq> set t"
      using Cons.prems(1) wf False by (auto simp: tree_wf_def)
    have "e' \<in> ?D" if "e' \<in> set t" "e_dir e'" "strict_prefix (epath e') (epath e)" for e' using that by blast
    note place = laid_place(1,2) [OF wf Cons.prems(2) e(3) e(1) this]
    have ce: "compat (fmlookup g0 (dst @ epath e)) (inode_of um contents e)"
      using r e(1) unfolding restorable_def by blast
    note step = laid_step [OF wf Cons.prems(2) e(3) e(1,2) place ce]
    have s: "restore_entry open_blob dst e w = (Inr (), w\<lparr>hfs := fmupd (dst @ epath e) (settled um contents g0 dst e) (hfs w)\<rparr>)"
      by (rule restore_entry_step [OF r Cons.prems(2) e(1) False Cons.prems(3) place step(2)])
    have "{x \<in> set t. e_dir x} \<union> set (ds @ [e]) = insert e ?D" by auto
    with Cons.IH [of "ds @ [e]" "w\<lparr>hfs := fmupd (dst @ epath e) (settled um contents g0 dst e) (hfs w)\<rparr>"]
      Cons.prems(1,3) step(1) s show ?thesis by simp
  qed
qed

subsection \<open>The directory Restore leaves\<close>

definition dst_ok :: "path \<Rightarrow> fs \<Rightarrow> bool" where
  "dst_ok dst f \<longleftrightarrow> is_dir_at f dst \<or>
     (dst \<noteq> [] \<and> is_dir_at f (butlast dst) \<and> ok_name (last dst) \<and> fmlookup f dst = None)"

lemma make_dst:
  assumes ok: "fs_ok (hfs w)" and d: "dst_ok dst (hfs w)"
  obtains g where "on_fs (MkdirAll um dst mode_0755) w = (Inr (), w\<lparr>hfs := g\<rparr>)" and "fs_ok g" and "is_dir_at g dst"
    and "\<And>q. q \<noteq> dst \<Longrightarrow> fmlookup g q = fmlookup (hfs w) q"
proof (cases "is_dir_at (hfs w) dst")
  case True
  with MkdirAll_existing [OF ok True, of um mode_0755] ok that [of "hfs w"] show ?thesis by (simp add: on_fs_def)
next
  case False
  let ?g = "fmupd dst (Dir (mode_0755 AND NOT um)) (hfs w)"
  from False d have n: "dst \<noteq> []" "is_dir_at (hfs w) (butlast dst)" "ok_name (last dst)" "fmlookup (hfs w) dst = None"
    by (auto simp: dst_ok_def)
  with MkdirAll_new [OF ok, of "butlast dst" "last dst" um mode_0755]
  have "MkdirAll um dst mode_0755 (hfs w) = (Inr (), ?g)" by simp
  moreover have "fs_ok ?g" using n ok by (intro fs_ok_fmupd) (auto simp: slot_def)
  ultimately show ?thesis using that [of ?g] n(1) by (simp add: on_fs_def is_dir_at_fmupd)
qed

lemma restorable_cong:
  assumes r: "restorable um contents ob f dst t"
    and "\<And>q. \<not> prefix dst q \<Longrightarrow> fmlookup g q = fmlookup f q"
    and "\<And>e. e \<in> set t \<Longrightarrow> fmlookup g (dst @ epath e) = fmlookup f (dst @ epath e)"
  shows "restorable um contents ob g dst t"
  using assms unfolding restorable_def by simp

lemma Restore_ok:
  assumes ok: "fs_ok (hfs w)" and d: "dst_ok dst (hfs w)"
    and r: "restorable (umask w) contents open_blob (hfs w) dst t"
  obtains g where "Restore t open_blob dst w = (Inr (), w\<lparr>hfs := g\<rparr>)" and "fs_ok g" and "is_dir_at g dst"
    and "\<And>e. e \<in> set t \<Longrightarrow>
      fmlookup g (dst @ epath e) = Some (settle (fmlookup (hfs w) (dst @ epath e)) (inode_of (umask w) contents e))"
    and "\<And>r. r \<noteq> [] \<Longrightarrow> r \<notin> epath ` set t \<Longrightarrow> fmlookup g (dst @ r) = None"
    and "\<And>q. \<not> prefix dst q \<Longrightarrow> fmlookup g q = fmlookup (hfs w) q"
proof -
  let ?um = "umask w"
  from r have wf: "tree_wf t" by (simp add: restorable_def)
  obtain f1 where f1: "on_fs (MkdirAll ?um dst mode_0755) w = (Inr (), w\<lparr>hfs := f1\<rparr>)" "fs_ok f1" "is_dir_at f1 dst"
    "\<And>q. q \<noteq> dst \<Longrightarrow> fmlookup f1 q = fmlookup (hfs w) q"
    using make_dst [OF ok d] by metis
  obtain g0 where g0: "clearExtra t dst (w\<lparr>hfs := f1\<rparr>) = (Inr (), w\<lparr>hfs := g0\<rparr>)" "fs_ok g0" "is_dir_at g0 dst"
    "\<And>r. r \<noteq> [] \<Longrightarrow> fmlookup g0 (dst @ r) = (if unwanted (map e_path t) r then None else fmlookup f1 (dst @ r))"
    "\<And>q. \<not> strict_prefix dst q \<Longrightarrow> fmlookup g0 q = fmlookup f1 q"
    by (rule clearExtra_effect [of "w\<lparr>hfs := f1\<rparr>" dst t]) (use f1(2,3) in auto)
  have same: "fmlookup g0 (dst @ epath e) = fmlookup (hfs w) (dst @ epath e)" if "e \<in> set t" for e
  proof -
    have "\<not> unwanted (map e_path t) (epath e)"
      using unwanted_iff [OF wf, of "epath e"] wf that by (auto simp: tree_wf_def)
    with g0(4) [of "epath e"] f1(4) [of "dst @ epath e"] show ?thesis by simp
  qed
  have out: "fmlookup g0 q = fmlookup (hfs w) q" if "\<not> prefix dst q" for q
    using that g0(5) [of q] f1(4) [of q] by (auto simp: strict_prefix_def)
  have r0: "restorable ?um contents open_blob g0 dst t" by (rule restorable_cong [OF r out same])
  have "laid ?um contents g0 dst {e \<in> set []. e_dir e} g0" using g0(2,3) by (simp add: laid_def)
  then obtain g1 where g1: "for_each t (restore_dir dst) (w\<lparr>hfs := g0\<rparr>) = (Inr (), w\<lparr>hfs := g1\<rparr>)"
    "laid ?um contents g0 dst {e \<in> set t. e_dir e} g1"
    using restore_dirs [OF wf, of g0 dst ?um contents "[]" t "w\<lparr>hfs := g0\<rparr>"] r0 by (auto simp: restorable_def)
  then obtain g where g: "for_each t (restore_entry open_blob dst) (w\<lparr>hfs := g1\<rparr>) = (Inr (), w\<lparr>hfs := g\<rparr>)"
    "laid ?um contents g0 dst (set t) g"
    using restore_entries [OF r0, of "[]" t "w\<lparr>hfs := g1\<rparr>"] by auto
  have "Restore t open_blob dst w = (Inr (), w\<lparr>hfs := g\<rparr>)"
    using f1(1) g0(1) g1(1) g(1) by (simp add: Restore_def io)
  moreover have "fmlookup g (dst @ epath e) = Some (settle (fmlookup (hfs w) (dst @ epath e)) (inode_of ?um contents e))"
    if "e \<in> set t" for e
    using g(2) that same [OF that] by (simp add: laid_def settled_def)
  moreover have "fmlookup g (dst @ r) = None" if "r \<noteq> []" "r \<notin> epath ` set t" for r
  proof -
    have "\<forall>e \<in> set t. dst @ r \<noteq> dst @ epath e" using that(2) by auto
    with g(2) have "fmlookup g (dst @ r) = fmlookup g0 (dst @ r)" unfolding laid_def by blast
    also have "\<dots> = None"
    proof (rule ccontr)
      assume "fmlookup g0 (dst @ r) \<noteq> None"
      then obtain i where i: "fmlookup g0 (dst @ r) = Some i" by blast
      then have "\<forall>n \<in> set r. ok_name n"
        using fs_okD(2,3) [OF g0(2) i] fs_ok_names [OF g0(2) fs_okD(3) [OF g0(2) i]] that(1)
        by (cases r rule: rev_cases) (auto simp: butlast_append)
      from unwanted_iff [OF wf that(1) this] that(2) g0(4) [OF that(1)] i show False by simp
    qed
    finally show ?thesis .
  qed
  moreover have "fmlookup g q = fmlookup (hfs w) q" if "\<not> prefix dst q" for q
    using laid_outside [OF g(2), of q] out [OF that] that by (simp add: strict_prefix_def)
  ultimately show ?thesis using that [of g] g(2) by (simp add: laid_def)
qed

end
