(* ===== verification/Chunked.thy ===== *)
theory Chunked
  imports BlobStore
begin

section \<open>Chunked images (internal/cas/chunked.go)\<close>

text \<open>
  Machine images are stored as fixed-size chunks and a manifest that lists them. The model
  follows the source: \<open>dataSpans\<close> reads the holes of a sparse file, \<open>putChunked\<close> makes one
  job per chunk (untouched chunks of an overlay keep the base's hash, touched ones are patched,
  holes are the zero chunk), \<open>GetChunkedTo\<close> writes the chunks of a manifest into a file.
  \<open>parallel\<close> runs the jobs on several workers; the operations run them in index order, and
  \<open>putChunked_any_order\<close> shows that the order does not matter.
\<close>

subsection \<open>Manifests\<close>

definition ChunkSize :: int where
  "ChunkSize = 2 ^ 20"

record manifest =
  m_chunked :: int
  m_size :: int
  m_chunk :: int
  m_chunks :: "string list"

definition manifest_json :: "manifest \<Rightarrow> json" where
  "manifest_json m = JObj
     [(''chunked'', JNum (itoa (m_chunked m))), (''size'', JNum (itoa (m_size m))),
      (''chunk'', JNum (itoa (m_chunk m))), (''chunks'', JArr (map JStr (m_chunks m)))]"

definition marshal_manifest :: "manifest \<Rightarrow> bytes" where
  "marshal_manifest m = emit None (manifest_json m)"

definition decode_manifest :: "(string \<times> json) list \<Rightarrow> manifest option" where
  "decode_manifest fs =
     (case (dec_int64 (member ''chunked'' fs), dec_int64 (member ''size'' fs),
            dec_int64 (member ''chunk'' fs), dec_list dec_str_elem (member ''chunks'' fs)) of
        (Some a, Some b, Some c, Some d) \<Rightarrow>
          Some \<lparr>m_chunked = a, m_size = b, m_chunk = c, m_chunks = d\<rparr>
      | _ \<Rightarrow> None)"

definition unmarshal_manifest :: "bytes \<Rightarrow> manifest option" where
  "unmarshal_manifest b =
     (case parse_json b of
        Some (JObj fs) \<Rightarrow> decode_manifest fs
      | Some JNull \<Rightarrow> decode_manifest []
      | _ \<Rightarrow> None)"

subsection \<open>Zero chunks\<close>

definition zeros :: "int \<Rightarrow> bytes" where
  "zeros n = replicate (nat n) (CHR 0x00)"

definition zeroHash :: "hasher \<Rightarrow> path \<Rightarrow> int \<Rightarrow> ('z world_scheme, string) io" where
  "zeroHash sha root n =
     bindE (gets zeroHashes) (\<lambda>memo.
     bindE (gets hfs) (\<lambda>f.
       case (case memo n of Some h \<Rightarrow> if Has root f h then Some h else None | None \<Rightarrow> None) of
         Some h \<Rightarrow> ret h
       | None \<Rightarrow>
           if n < 0 then fail (Panic ''makeslice: len out of range'')
           else
             bindE (Put sha root (zeros n)) (\<lambda>h.
             bindE (modify (\<lambda>w. w\<lparr>zeroHashes := (zeroHashes w)(n \<mapsto> h)\<rparr>)) (\<lambda>_. ret h))))"

subsection \<open>Data spans of a sparse file\<close>

type_synonym span = "int \<times> int"

text \<open>
  \<open>lseek\<close> with \<open>SEEK_DATA\<close> and \<open>SEEK_HOLE\<close>: the next data byte, the next hole (the end of the
  file is one); \<open>ENXIO\<close> past the last data byte; \<open>EINVAL\<close> where the filesystem cannot say.
\<close>

definition seek_data :: "bool \<Rightarrow> char option list \<Rightarrow> nat \<Rightarrow> errno + nat" where
  "seek_data ok cs off =
     (if \<not> ok then Inl EINVAL
      else let s = off + length (takeWhile (\<lambda>c. c = None) (drop off cs))
           in if length cs \<le> s then Inl ENXIO else Inr s)"

definition seek_hole :: "bool \<Rightarrow> char option list \<Rightarrow> nat \<Rightarrow> errno + nat" where
  "seek_hole ok cs off =
     (if \<not> ok then Inl EINVAL
      else if length cs \<le> off then Inl ENXIO
      else Inr (off + length (takeWhile (\<lambda>c. c \<noteq> None) (drop off cs))))"

lemma seek_data_Inr:
  assumes "seek_data ok cs off = Inr s"
  shows "off \<le> s" and "s < length cs" and "cs ! s \<noteq> None" and "ok"
    and "\<forall>i. off \<le> i \<and> i < s \<longrightarrow> cs ! i = None"
proof -
  let ?t = "takeWhile (\<lambda>c. c = None) (drop off cs)"
  from assms have s: "s = off + length ?t" "s < length cs" and ok: "ok"
    by (auto simp: seek_data_def Let_def split: if_splits)
  then have l: "length ?t < length (drop off cs)" by simp
  from nth_length_takeWhile [OF l] s show "cs ! s \<noteq> None" by simp
  show "\<forall>i. off \<le> i \<and> i < s \<longrightarrow> cs ! i = None"
  proof (intro allI impI)
    fix i assume i: "off \<le> i \<and> i < s"
    then have "i - off < length ?t" using s by linarith
    then have "?t ! (i - off) = drop off cs ! (i - off)" "?t ! (i - off) = None"
      using takeWhile_nth [of "i - off"] nth_mem [of "i - off" ?t] set_takeWhileD by (metis, metis)
    with i s show "cs ! i = None" by simp
  qed
  show "off \<le> s" "s < length cs" "ok" using s ok by simp_all
qed

lemma seek_data_ENXIO:
  assumes "seek_data ok cs off = Inl ENXIO"
  shows "\<forall>i. off \<le> i \<and> i < length cs \<longrightarrow> cs ! i = None"
proof (intro allI impI)
  let ?t = "takeWhile (\<lambda>c. c = None) (drop off cs)"
  fix i assume i: "off \<le> i \<and> i < length cs"
  from assms have "length cs \<le> off + length ?t"
    by (auto simp: seek_data_def Let_def split: if_splits)
  with i have "length ?t = length (drop off cs)"
    using length_takeWhile_le [of "\<lambda>c. c = None" "drop off cs"] by simp
  then have "?t = drop off cs" by (metis takeWhile_eq_take take_all order_refl)
  then have "\<forall>c \<in> set (drop off cs). c = None" by (metis set_takeWhileD)
  with i nth_mem [of "i - off" "drop off cs"] show "cs ! i = None" by auto
qed

lemma seek_hole_Inr:
  assumes "seek_hole ok cs s = Inr e"
  shows "s \<le> e" and "e \<le> length cs" and "e < length cs \<Longrightarrow> cs ! e = None"
    and "\<forall>i. s \<le> i \<and> i < e \<longrightarrow> cs ! i \<noteq> None"
proof -
  let ?t = "takeWhile (\<lambda>c. c \<noteq> None) (drop s cs)"
  from assms have e: "e = s + length ?t" "s < length cs"
    by (auto simp: seek_hole_def split: if_splits)
  show "s \<le> e" "e \<le> length cs"
    using e length_takeWhile_le [of "\<lambda>c. c \<noteq> None" "drop s cs"] by simp_all
  show "cs ! e = None" if "e < length cs"
  proof -
    from that e have l: "length ?t < length (drop s cs)" by simp
    from nth_length_takeWhile [OF l] e show ?thesis by simp
  qed
  show "\<forall>i. s \<le> i \<and> i < e \<longrightarrow> cs ! i \<noteq> None"
  proof (intro allI impI)
    fix i assume i: "s \<le> i \<and> i < e"
    then have "i - s < length ?t" using e by linarith
    then have "?t ! (i - s) = drop s cs ! (i - s)" "?t ! (i - s) \<noteq> None"
      using takeWhile_nth [of "i - s"] nth_mem [of "i - s" ?t] set_takeWhileD by (metis, metis)
    with i e show "cs ! i \<noteq> None" by simp
  qed
qed

lemma seek_hole_progress:
  "seek_data ok cs off = Inr s \<Longrightarrow> seek_hole ok cs s = Inr e \<Longrightarrow> s < e"
  using seek_data_Inr(3) [of ok cs off s] seek_hole_Inr [of ok cs s e] seek_data_Inr(2) [of ok cs off s]
  by (metis le_neq_implies_less)

text \<open>The end of a span as \<open>dataSpans\<close> takes it.\<close>

definition span_end :: "bool \<Rightarrow> char option list \<Rightarrow> nat \<Rightarrow> nat" where
  "span_end ok cs start =
     (case seek_hole ok cs start of
        Inl _ \<Rightarrow> length cs
      | Inr e \<Rightarrow> if length cs < e then length cs else e)"

lemma span_end_progress: "seek_data ok cs off = Inr s \<Longrightarrow> s < span_end ok cs s"
  using seek_hole_progress [of ok cs off s] seek_data_Inr(2) [of ok cs off s]
  by (auto simp: span_end_def split: sum.splits)

lemma span_end_after: "seek_data ok cs off = Inr s \<Longrightarrow> off < span_end ok cs s"
  using span_end_progress [of ok cs off s] seek_data_Inr(1) [of ok cs off s] by linarith

function data_spans_from :: "bool \<Rightarrow> char option list \<Rightarrow> span list \<Rightarrow> nat \<Rightarrow> span list" where
  "data_spans_from ok cs out off =
     (if off < length cs then
        (case seek_data ok cs off of
           Inl e \<Rightarrow> if e = ENXIO then out else [(0, int (length cs))]
         | Inr start \<Rightarrow>
             data_spans_from ok cs (out @ [(int start, int (span_end ok cs start))]) (span_end ok cs start))
      else out)"
  by pat_completeness auto
termination
  by (relation "measure (\<lambda>(ok, cs, out, off). length cs - off)")
    (auto dest!: span_end_after intro: diff_less_mono2)

declare data_spans_from.simps [simp del]

definition dataSpans :: "bool \<Rightarrow> char option list \<Rightarrow> span list" where
  "dataSpans ok cs = data_spans_from ok cs [] 0"

text \<open>Whether any span intersects \<open>[a, b)\<close>.\<close>

definition overlaps :: "span list \<Rightarrow> int \<Rightarrow> int \<Rightarrow> bool" where
  "overlaps spans a b = list_ex (\<lambda>(start, end). start < b \<and> a < end) spans"

subsection \<open>Chunk arithmetic\<close>

text \<open>Go's integer division truncates towards zero.\<close>

definition go_div :: "int \<Rightarrow> int \<Rightarrow> int" where
  "go_div a b = sgn a * sgn b * (\<bar>a\<bar> div \<bar>b\<bar>)"

definition chunkCount :: "int \<Rightarrow> int" where
  "chunkCount sz = go_div (int64 (int64 (sz + ChunkSize) - 1)) ChunkSize"

definition chunkLen :: "int \<Rightarrow> nat \<Rightarrow> int" where
  "chunkLen sz i =
     (let rem = int64 (sz - int64 (int i * ChunkSize))
      in if rem < ChunkSize then rem else ChunkSize)"

definition max64 :: "int \<Rightarrow> int \<Rightarrow> int" where
  "max64 a b = (if a > b then a else b)"

definition min64 :: "int \<Rightarrow> int \<Rightarrow> int" where
  "min64 a b = (if a < b then a else b)"

subsection \<open>The worker pool\<close>

fun run_jobs :: "nat list \<Rightarrow> (nat \<Rightarrow> ('s, 'a) io) \<Rightarrow> ('s, (nat \<times> 'a) list) io" where
  "run_jobs [] fn = ret []"
| "run_jobs (i # is) fn =
     bindE (fn i) (\<lambda>x. bindE (run_jobs is fn) (\<lambda>rs. ret ((i, x) # rs)))"

definition parallel :: "nat \<Rightarrow> (nat \<Rightarrow> ('s, 'a) io) \<Rightarrow> ('s, (nat \<times> 'a) list) io" where
  "parallel n fn = run_jobs [0..<n] fn"

text \<open>
  The pool as a step relation: a worker takes the next index while there is one and no job
  has failed, and a running job finishes at any time, its effect on the shared state taking
  place then. The first error is kept and stops further jobs from being taken.
\<close>

record ('s, 'a) pool =
  p_next :: nat
  p_err :: "err option"
  p_running :: "nat set"
  p_done :: "(nat \<times> 'a) list"
  p_state :: 's

inductive pool_step :: "nat \<Rightarrow> nat \<Rightarrow> (nat \<Rightarrow> ('s, 'a) io) \<Rightarrow> ('s, 'a) pool \<Rightarrow> ('s, 'a) pool \<Rightarrow> bool"
  for workers n fn where
  take_job: "p_next p < n \<Longrightarrow> p_err p = None \<Longrightarrow> card (p_running p) < workers \<Longrightarrow>
    pool_step workers n fn p (p\<lparr>p_next := Suc (p_next p), p_running := insert (p_next p) (p_running p)\<rparr>)"
| job_ok: "i \<in> p_running p \<Longrightarrow> fn i (p_state p) = (Inr x, s) \<Longrightarrow>
    pool_step workers n fn p
      (p\<lparr>p_running := p_running p - {i}, p_done := p_done p @ [(i, x)], p_state := s\<rparr>)"
| job_err: "i \<in> p_running p \<Longrightarrow> fn i (p_state p) = (Inl e, s) \<Longrightarrow>
    pool_step workers n fn p
      (p\<lparr>p_running := p_running p - {i}, p_state := s,
         p_err := (case p_err p of None \<Rightarrow> Some e | Some e' \<Rightarrow> Some e')\<rparr>)"

inductive_cases pool_stepE: "pool_step workers n fn p q"

definition pool_start :: "'s \<Rightarrow> ('s, 'a) pool" where
  "pool_start s = \<lparr>p_next = 0, p_err = None, p_running = {}, p_done = [], p_state = s\<rparr>"

text \<open>\<open>wg.Wait\<close> returns when every worker has left its loop.\<close>

definition pool_finished :: "nat \<Rightarrow> ('s, 'a) pool \<Rightarrow> bool" where
  "pool_finished n p \<longleftrightarrow> p_running p = {} \<and> (n \<le> p_next p \<or> p_err p \<noteq> None)"

subsection \<open>Storing chunks\<close>

definition storeChunk :: "hasher \<Rightarrow> path \<Rightarrow> bytes \<Rightarrow> ('z world_scheme, string \<times> bool) io" where
  "storeChunk sha root b =
     bindE (gets hfs) (\<lambda>f.
       let h = hashOf sha b in
       if Has root f h then ret (h, False)
       else bindE (Put sha root b) (\<lambda>_. ret (h, True)))"

definition putManifest :: "hasher \<Rightarrow> path \<Rightarrow> manifest \<Rightarrow> ('z world_scheme, string) io" where
  "putManifest sha root m = Put sha root (marshal_manifest m)"

definition slice :: "int \<Rightarrow> int \<Rightarrow> 'a list \<Rightarrow> 'a list" where
  "slice a e xs = take (nat (e - a)) (drop (nat a) xs)"

text \<open>\<open>f.ReadAt(b[a-off:e-off], a)\<close>: a slice beyond the end of \<open>b\<close> panics.\<close>

definition read_into :: "bytes \<Rightarrow> int \<Rightarrow> int \<Rightarrow> int \<Rightarrow> bytes \<Rightarrow> err + bytes" where
  "read_into file off a e b =
     (if int (length b) < e - off then Inl (Panic ''slice bounds out of range'')
      else Inr (take (nat (a - off)) b @ slice a e file @ drop (nat (e - off)) b))"

fun overlay_spans :: "bytes \<Rightarrow> int \<Rightarrow> int \<Rightarrow> span list \<Rightarrow> bytes \<Rightarrow> err + bytes" where
  "overlay_spans file off ln [] b = Inr b"
| "overlay_spans file off ln ((start, end) # spans) b =
     (let a = max64 start off; e = min64 end (off + ln) in
      if a < e then
        (case read_into file off a e b of
           Inl err \<Rightarrow> Inl err
         | Inr b' \<Rightarrow> overlay_spans file off ln spans b')
      else overlay_spans file off ln spans b)"

text \<open>The job of one chunk: its hash, and whether it was new to the store.\<close>

definition chunk_job ::
  "hasher \<Rightarrow> path \<Rightarrow> bytes \<Rightarrow> span list \<Rightarrow> manifest option \<Rightarrow> nat \<Rightarrow> ('z world_scheme, string \<times> bool) io" where
  "chunk_job sha root file spans base i =
     (let size = int (length file);
          off = int i * ChunkSize;
          ln = chunkLen size i;
          touched = overlaps spans off (off + ln);
          own = (if \<not> touched then bindE (zeroHash sha root ln) (\<lambda>h. ret (h, False))
                 else storeChunk sha root (slice off (off + ln) file))
      in case base of
           None \<Rightarrow> own
         | Some bm \<Rightarrow>
             if i < length (m_chunks bm) \<and> chunkLen (m_size bm) i = ln then
               if \<not> touched then ret (m_chunks bm ! i, False)
               else
                 bindE (gets hfs) (\<lambda>f.
                   case Get root f (m_chunks bm ! i) of
                     Inl e \<Rightarrow> fail (Errorf ''base chunk %d: %w'' [itoa (int i)] (Some e))
                   | Inr b \<Rightarrow>
                       (case overlay_spans file off ln spans b of
                          Inl e \<Rightarrow> fail e
                        | Inr b' \<Rightarrow> storeChunk sha root b'))
             else own)"

text \<open>The assignments \<open>m.Chunks[i] = h\<close> and \<open>fresh[h] = true\<close> of the jobs.\<close>

definition fill_chunks :: "nat \<Rightarrow> (nat \<times> string \<times> bool) list \<Rightarrow> string list" where
  "fill_chunks n rs = fold (\<lambda>(i, h, _) cs. cs[i := h]) rs (replicate n [])"

definition fresh_count :: "(nat \<times> string \<times> bool) list \<Rightarrow> int" where
  "fresh_count rs = int (length (remdups (map (fst \<circ> snd) (filter (snd \<circ> snd) rs))))"

definition putChunked ::
  "hasher \<Rightarrow> path \<Rightarrow> path \<Rightarrow> manifest option \<Rightarrow> ('z world_scheme, string \<times> int) io" where
  "putChunked sha root p base =
     bindE (gets hfs) (\<lambda>f.
     bindE (gets lseek_ok) (\<lambda>ok.
     bindE (lift_res (open_cells f p)) (\<lambda>cells.
       let size = int (length cells); spans = dataSpans ok cells; n = chunkCount size in
       if n < 0 then fail (Panic ''makeslice: len out of range'')
       else
         bindE (parallel (nat n) (chunk_job sha root (fread cells) spans base)) (\<lambda>rs.
         bindE (putManifest sha root
             \<lparr>m_chunked = 1, m_size = size, m_chunk = ChunkSize, m_chunks = fill_chunks (nat n) rs\<rparr>) (\<lambda>h.
         ret (h, fresh_count rs))))))"

definition PutChunked :: "hasher \<Rightarrow> path \<Rightarrow> path \<Rightarrow> ('z world_scheme, string \<times> int) io" where
  "PutChunked sha root p = putChunked sha root p None"

definition ReadManifest :: "path \<Rightarrow> fs \<Rightarrow> string \<Rightarrow> err + manifest" where
  "ReadManifest root f h =
     (case Get root f h of
        Inl e \<Rightarrow> Inl e
      | Inr b \<Rightarrow>
          (case unmarshal_manifest b of
             None \<Rightarrow> Inl (Errorf ''%s is not a chunked object'' [h] None)
           | Some m \<Rightarrow>
               if m_chunked m \<noteq> 1 then Inl (Errorf ''%s is not a chunked object'' [h] None) else Inr m))"

definition PutChunkedOverlay ::
  "hasher \<Rightarrow> path \<Rightarrow> path \<Rightarrow> string \<Rightarrow> ('z world_scheme, string \<times> int) io" where
  "PutChunkedOverlay sha root p baseHash =
     bindE (gets hfs) (\<lambda>f.
     bindE (lift_res (ReadManifest root f baseHash)) (\<lambda>base. putChunked sha root p (Some base)))"

subsection \<open>Reassembling an image\<close>

definition write_at :: "char option list \<Rightarrow> nat \<Rightarrow> bytes \<Rightarrow> char option list" where
  "write_at cs off b =
     take off cs @ replicate (off - length cs) None @ map Some b @ drop (off + length b) cs"

text \<open>\<open>out.WriteAt(b, off)\<close> on the open file at \<open>p\<close>.\<close>

definition PWrite :: "path \<Rightarrow> nat \<Rightarrow> bytes \<Rightarrow> (fs, unit) io" where
  "PWrite p off b = (\<lambda>f.
     case open_cells f p of
       Inl e \<Rightarrow> (Inl e, f)
     | Inr cs \<Rightarrow> WriteCells 0 p (write_at cs off b) 0 f)"

text \<open>\<open>out.Truncate(size)\<close> of a file just created.\<close>

definition TruncateNew :: "path \<Rightarrow> int \<Rightarrow> (fs, unit) io" where
  "TruncateNew p sz =
     (if sz < 0 then fail (Errno EINVAL) else WriteCells 0 p (replicate (nat sz) None) 0)"

definition with_suffix :: "path \<Rightarrow> string \<Rightarrow> path" where
  "with_suffix p s = butlast p @ [last p @ s]"

text \<open>\<open>h, _ := s.zeroHash(n)\<close>: an error leaves the empty string, a panic goes on.\<close>

definition zero_or_empty :: "hasher \<Rightarrow> path \<Rightarrow> int \<Rightarrow> ('z world_scheme, string) io" where
  "zero_or_empty sha root n =
     bindE (attempt (zeroHash sha root n)) (\<lambda>r.
       case r of
         Inr h \<Rightarrow> ret h
       | Inl (Panic p) \<Rightarrow> fail (Panic p)
       | Inl e \<Rightarrow> ret [])"

definition write_job ::
  "path \<Rightarrow> path \<Rightarrow> string \<Rightarrow> string list \<Rightarrow> string list \<Rightarrow> nat \<Rightarrow> ('z world_scheme, unit) io" where
  "write_job root tmp hash zero chunks i =
     (let c = chunks ! i in
      if c \<in> set zero then ret ()
      else
        bindE (gets hfs) (\<lambda>f.
          case Get root f c of
            Inl e \<Rightarrow>
              if e = ErrBlobNotFound then fail (Errorf ''chunk %s of %s is missing'' [c, hash] None) else fail e
          | Inr b \<Rightarrow> on_fs (PWrite tmp (i * nat ChunkSize) b)))"

text \<open>The hashes of the chunks that are left as holes.\<close>

definition zero_stage :: "hasher \<Rightarrow> path \<Rightarrow> manifest \<Rightarrow> ('z world_scheme, string list) io" where
  "zero_stage sha root m =
     (if m_chunks m = [] then ret []
      else
        bindE (zero_or_empty sha root (chunkLen (m_size m) 0)) (\<lambda>z.
        bindE (zero_or_empty sha root (chunkLen (m_size m) (length (m_chunks m) - 1))) (\<lambda>zl.
        ret [z, zl])))"

definition GetChunkedTo :: "hasher \<Rightarrow> path \<Rightarrow> string \<Rightarrow> path \<Rightarrow> ('z world_scheme, unit) io" where
  "GetChunkedTo sha root hash p =
     bindE (gets hfs) (\<lambda>f.
     bindE (lift_res (ReadManifest root f hash)) (\<lambda>m.
     bindE (zero_stage sha root m) (\<lambda>zero.
     bindE (gets umask) (\<lambda>um.
       let tmp = with_suffix p ''.tmp'' in
       bindE (on_fs (WriteCells um tmp [] 438)) (\<lambda>_.
       bindE (on_fs (TruncateNew tmp (m_size m))) (\<lambda>_.
       bindE (attempt (parallel (length (m_chunks m)) (write_job root tmp hash zero (m_chunks m)))) (\<lambda>r.
         case r of
           Inl e \<Rightarrow> bindE (attempt (on_fs (Remove tmp))) (\<lambda>_. fail e)
         | Inr _ \<Rightarrow> on_fs (Rename tmp p))))))))"

end
