(* ===== verification/Backend.thy ===== *)
theory Backend
  imports Repo Restore Chunked
begin

unbundle bit_operations_syntax

section \<open>Backends (internal/engine/backend.go, internal/engine/process_backend.go)\<close>

text \<open>
  A backend runs the commands of a sandbox; one with machines also boots, snapshots and resumes
  them, and one whose files live inside the machine lists, reads and rewrites them. The Go
  interfaces are records of operations over the state \<open>'s\<close>; that a backend implements
  \<open>MemoryBackend\<close> or \<open>GuestFS\<close> too is an option. Running a command on the host is the
  operating system's, so it is a parameter, a \<open>runner\<close>. Also here: the calls of package \<open>os\<close>
  that only the engine makes.
\<close>

subsection \<open>Interfaces\<close>

text \<open>A path of an image that may be the empty string is an option.\<close>

record image =
  img_Memory :: path
  img_State :: path
  img_Disk :: "path option"
  img_BaseDisk :: "path option"
  img_MemoryIsDiff :: bool
  img_Base :: string

type_synonym blob_func = "fs \<Rightarrow> string \<Rightarrow> err + bytes"

record 's guest_fs =
  g_ListFiles :: "string \<Rightarrow> ('s, entry list) io"
  g_ReadFile :: "string \<Rightarrow> string \<Rightarrow> ('s, bytes) io"
  g_WriteTree :: "string \<Rightarrow> tree \<Rightarrow> blob_func \<Rightarrow> ('s, unit) io"

record 's memory_backend =
  m_Boot :: "string \<Rightarrow> path \<Rightarrow> ('s, unit) io"
  m_Running :: "string \<Rightarrow> 's \<Rightarrow> bool"
  m_Snapshot :: "string \<Rightarrow> path \<Rightarrow> string \<Rightarrow> ('s, image) io"
  m_Rebase :: "string \<Rightarrow> string \<Rightarrow> ('s, unit) io"
  m_Resume :: "string \<Rightarrow> path \<Rightarrow> image \<Rightarrow> ('s, unit) io"
  m_Shutdown :: "string \<Rightarrow> ('s, unit) io"

record 's backend =
  b_Name :: string
  b_Exec :: "string \<Rightarrow> path \<Rightarrow> string list \<Rightarrow> string list \<Rightarrow> ('s, int) io"
  b_mem :: "'s memory_backend option"
  b_guest :: "'s guest_fs option"

subsection \<open>The process backend\<close>

text \<open>How \<open>cmd.Run()\<close> ends: without an error, with an \<open>exec.ExitError\<close>, with another error.\<close>

datatype cmd_end = CmdOk | CmdExit int | CmdErr err

type_synonym 's runner = "path \<Rightarrow> string list \<Rightarrow> string list \<Rightarrow> 's \<Rightarrow> cmd_end \<times> 's"

definition run_cmd :: "'s runner \<Rightarrow> path \<Rightarrow> string list \<Rightarrow> string list \<Rightarrow> ('s, int) io" where
  "run_cmd run dir command env w =
     (case run dir command env w of
        (CmdOk, w') \<Rightarrow> (Inr 0, w')
      | (CmdExit code, w') \<Rightarrow> (Inr code, w')
      | (CmdErr e, w') \<Rightarrow> (Inl e, w'))"

definition ProcessExec :: "'s runner \<Rightarrow> string \<Rightarrow> path \<Rightarrow> string list \<Rightarrow> string list \<Rightarrow> ('s, int) io" where
  "ProcessExec run sandboxID workDir command env =
     (if command = [] then fail (Errorf ''empty command'' [] None)
      else run_cmd run workDir command env)"

definition ProcessBackend :: "'s runner \<Rightarrow> 's backend" where
  "ProcessBackend run = \<lparr>b_Name = ''process'', b_Exec = ProcessExec run, b_mem = None, b_guest = None\<rparr>"

subsection \<open>Calls of package os\<close>

definition MkdirTemp :: "mode \<Rightarrow> path \<Rightarrow> string \<Rightarrow> (fs, path) io" where
  "MkdirTemp um dir pat = (\<lambda>f.
     let p = dir @ [fresh_name pat f] in bindE (Mkdir um p mode_0700) (\<lambda>_. ret p) f)"

text \<open>A deferred call whose error is ignored.\<close>

definition deferring :: "('s, unit) io \<Rightarrow> ('s, 'a) io \<Rightarrow> ('s, 'a) io" where
  "deferring cleanup m =
     bindE (attempt m) (\<lambda>r. bindE (attempt cleanup) (\<lambda>_. lift_res r))"

definition Getenv :: "string \<Rightarrow> string list \<Rightarrow> string" where
  "Getenv k env =
     (case if k = [] \<or> CHR ''='' \<in> set k then None else find (\<lambda>s. HasPrefix s (k @ ''='')) env of
        None \<Rightarrow> []
      | Some s \<Rightarrow> TrimPrefix s (k @ ''=''))"

text \<open>\<open>strconv.Atoi\<close>: an optional sign and decimal digits, within an \<open>int\<close>.\<close>

fun unsigned_part :: "string \<Rightarrow> string" where
  "unsigned_part [] = []"
| "unsigned_part (c # cs) = (if c = CHR ''+'' \<or> c = CHR ''-'' then cs else c # cs)"

definition Atoi :: "string \<Rightarrow> int option" where
  "Atoi s =
     (if unsigned_part s = [] then None
      else case read_digits 0 (unsigned_part s) of
        None \<Rightarrow> None
      | Some n \<Rightarrow>
          let x = (if HasPrefix s ''-'' then - int n else int n) in
          if int64 x = x then Some x else None)"

text \<open>
  The value \<open>strconv.Atoi\<close> returns beside its error: 0 when the text is no number, and the nearest
  \<open>int\<close> when the number, or a prefix of the text, is out of range.
\<close>

fun scan_uint :: "nat \<Rightarrow> string \<Rightarrow> nat option" where
  "scan_uint n [] = Some n"
| "scan_uint n (c # cs) =
     (case digit_val c of
        None \<Rightarrow> None
      | Some d \<Rightarrow> if 2 ^ 64 \<le> n * 10 + d then Some (2 ^ 64 - 1) else scan_uint (n * 10 + d) cs)"

definition Atoi_value :: "string \<Rightarrow> int" where
  "Atoi_value s =
     (if unsigned_part s = [] then 0
      else case scan_uint 0 (unsigned_part s) of
        None \<Rightarrow> 0
      | Some n \<Rightarrow> if HasPrefix s ''-'' then max (- (2 ^ 63)) (- int n) else min (2 ^ 63 - 1) (int n))"

text \<open>The text of an absolute path.\<close>

definition path_text :: "path \<Rightarrow> string" where
  "path_text p = CHR ''/'' # join_with (CHR ''/'') p"

definition EvalSymlinks :: "fs \<Rightarrow> path \<Rightarrow> err + path" where
  "EvalSymlinks f p =
     (case resolve 255 f True [] p of
        Inl e \<Rightarrow> Inl (Errno e)
      | Inr q \<Rightarrow> (case inode_at f q of None \<Rightarrow> Inl (Errno ENOENT) | Some i \<Rightarrow> Inr q))"

definition Ext :: "string \<Rightarrow> string" where
  "Ext s = (if CHR ''.'' \<in> set s then CHR ''.'' # rev (takeWhile (\<lambda>c. c \<noteq> CHR ''.'') (rev s)) else [])"

definition kstat_of :: "path \<Rightarrow> ('z eworld_scheme, kstat) io" where
  "kstat_of p = bindE (gets (\<lambda>w. kstats w (kstat_pos w) p)) (\<lambda>k.
     bindE (modify (\<lambda>w. w\<lparr>kstat_pos := Suc (kstat_pos w)\<rparr>)) (\<lambda>_. ret k))"

definition os_Environ :: "('z eworld_scheme, string list) io" where
  "os_Environ = gets environ"

text \<open>\<open>fi.Size()\<close>: of a link, the length of its target.\<close>

fun inode_size :: "inode \<Rightarrow> int" where
  "inode_size (File m cs) = int (length cs)"
| "inode_size (Link t) = int (length t)"
| "inode_size _ = 0"

text \<open>\<open>filepath.Walk\<close>: the root, then what \<open>WalkDir\<close> lists below it; \<open>filepath.Rel\<close> of a visited path.\<close>

definition Walk :: "fs \<Rightarrow> path \<Rightarrow> err + (path \<times> inode) list" where
  "Walk f root =
     (case (Lstat f root, WalkDir f root) of
        (Inr i, Inr listing) \<Rightarrow> Inr (([], i) # listing)
      | (Inl e, _) \<Rightarrow> Inl e
      | (_, Inl e) \<Rightarrow> Inl e)"

definition Rel :: "path \<Rightarrow> string" where
  "Rel r = (if r = [] then ''.'' else rel_text r)"

end
