(* ===== verification/Cache.thy ===== *)
theory Cache
  imports Backend
begin

section \<open>The image cache (internal/engine/cache.go, internal/engine/diskusage_linux.go)\<close>

text \<open>
  Reassembled images are kept as files under \<open>cache\<close> of the repository, named by their hash, and
  the least recently used are removed when the cache outgrows its limit. \<open>baseHash\<close> keeps an index
  of base disks it has stored. The times and disk usage the eviction goes by are whatever the
  kernel reports (\<open>kstat\<close>), so what is shown holds for every report. \<open>os.Chtimes\<close> only changes
  what later reports say and has no other effect in the model.
\<close>

subsection \<open>Definitions\<close>

text \<open>\<open>int64\<close> products and shifts wrap around.\<close>

definition diskUsage :: "kstat \<Rightarrow> int" where
  "diskUsage k = int64 (k_blocks k * 512)"

definition fileIdentity :: "kstat \<Rightarrow> inode \<Rightarrow> string" where
  "fileIdentity k i =
     itoa (k_dev k) @ '':'' @ itoa (k_ino k) @ '':'' @ itoa (inode_size i) @ '':'' @ itoa (k_mtime k)"

definition cacheDir :: "path \<Rightarrow> path" where
  "cacheDir root = fp_join root ''cache''"

definition cacheLimit :: "string list \<Rightarrow> int" where
  "cacheLimit env =
     (case Atoi (Getenv ''VIT_CACHE_GIB'' env) of
        Some g \<Rightarrow> if g > 0 then int64 (g * 2 ^ 30) else 16 * 2 ^ 30
      | None \<Rightarrow> 16 * 2 ^ 30)"

record cache_item =
  ci_path :: path
  ci_used :: int
  ci_mtime :: int

text \<open>The loop that collects the files of the cache.\<close>

fun cache_items :: "path \<Rightarrow> string list \<Rightarrow> ('z eworld_scheme, cache_item list) io" where
  "cache_items dir [] = ret []"
| "cache_items dir (n # ns) =
     bindE (gets hfs) (\<lambda>f.
       case Lstat f (dir @ [n]) of
         Inl e \<Rightarrow> cache_items dir ns
       | Inr i \<Rightarrow>
           if is_dir i then cache_items dir ns
           else
             bindE (kstat_of (dir @ [n])) (\<lambda>k.
             bindE (cache_items dir ns) (\<lambda>rest.
             ret (\<lparr>ci_path = fp_join dir n, ci_used = diskUsage k, ci_mtime = k_mtime k\<rparr> # rest))))"

text \<open>The loop that removes, least recently used first.\<close>

fun evict_loop :: "int \<Rightarrow> path \<Rightarrow> int \<Rightarrow> cache_item list \<Rightarrow> ('z world_scheme, unit) io" where
  "evict_loop limit keep tot [] = ret ()"
| "evict_loop limit keep tot (it # items) =
     (if tot \<le> limit then ret ()
      else if ci_path it = keep then evict_loop limit keep tot items
      else
        bindE (attempt (on_fs (Remove (ci_path it)))) (\<lambda>_.
        evict_loop limit keep (int64 (tot - ci_used it)) items))"

definition sum_used :: "cache_item list \<Rightarrow> int" where
  "sum_used items = fold (\<lambda>it tot. int64 (tot + ci_used it)) items 0"

definition evictCache :: "path \<Rightarrow> path \<Rightarrow> ('z eworld_scheme, unit) io" where
  "evictCache root keep =
     bindE (gets hfs) (\<lambda>f.
       case ReadDir f (cacheDir root) of
         Inl e \<Rightarrow> ret ()
       | Inr names \<Rightarrow>
           bindE (cache_items (cacheDir root) names) (\<lambda>items.
           bindE (gets environ) (\<lambda>env.
           evict_loop (cacheLimit env) keep (sum_used items) (sort_key ci_mtime items))))"

definition writeBlobTo :: "path \<Rightarrow> string \<Rightarrow> path \<Rightarrow> ('z world_scheme, unit) io" where
  "writeBlobTo root hash p =
     bindE (gets hfs) (\<lambda>f.
     bindE (lift_res (Get (CAS root) f hash)) (\<lambda>data.
     bindE (gets umask) (\<lambda>um. on_fs (WriteFile um p data mode_0600))))"

text \<open>The part of \<open>cachedImage\<close> that makes the file.\<close>

definition materialise :: "hasher \<Rightarrow> path \<Rightarrow> string \<Rightarrow> path \<Rightarrow> ('z world_scheme, unit) io" where
  "materialise sha root hash p =
     bindE (gets hfs) (\<lambda>f.
       case ReadManifest (CAS root) f hash of
         Inr m \<Rightarrow> GetChunkedTo sha (CAS root) hash p
       | Inl e \<Rightarrow> writeBlobTo root hash p)"

definition cache_path :: "path \<Rightarrow> string \<Rightarrow> string \<Rightarrow> path" where
  "cache_path root hash ext = fp_join (cacheDir root) (hash @ ext)"

definition cachedImage :: "hasher \<Rightarrow> path \<Rightarrow> string \<Rightarrow> string \<Rightarrow> ('z eworld_scheme, path) io" where
  "cachedImage sha root hash ext =
     bindE (gets umask) (\<lambda>um.
     bindE (on_fs (MkdirAll um (cacheDir root) mode_0755)) (\<lambda>_.
     bindE (gets hfs) (\<lambda>f.
       let p = cache_path root hash ext in
       if exists_at f p then bindE time_now (\<lambda>_. ret p)
       else
         bindE (materialise sha root hash p) (\<lambda>_.
         bindE (evictCache root p) (\<lambda>_. ret p)))))"

text \<open>
  A Go map from strings to strings as its bindings; \<open>json.Marshal\<close> writes them by key.
  \<open>json.Unmarshal\<close> into one, with its error ignored: a document that is no object leaves the map
  empty, \<open>null\<close> makes it nil (\<open>None\<close> here), a member that is no string becomes empty.
\<close>

definition aput :: "'k \<Rightarrow> 'v \<Rightarrow> ('k \<times> 'v) list \<Rightarrow> ('k \<times> 'v) list" where
  "aput k v m = (k, v) # filter (\<lambda>x. fst x \<noteq> k) m"

definition dec_known :: "bytes \<Rightarrow> (string \<times> string) list option" where
  "dec_known b =
     (case parse_json b of
        Some (JObj ms) \<Rightarrow> Some (fold (\<lambda>(k, v) m. aput k (case v of JStr s \<Rightarrow> s | _ \<Rightarrow> []) m) ms [])
      | Some JNull \<Rightarrow> None
      | _ \<Rightarrow> Some [])"

definition known_json :: "(string \<times> string) list \<Rightarrow> json" where
  "known_json m = JObj (map (\<lambda>(k, v). (k, JStr v)) (sort_key fst m))"

definition known_bases :: "path \<Rightarrow> fs \<Rightarrow> (string \<times> string) list option" where
  "known_bases idx f = (case ReadFile f idx of Inl e \<Rightarrow> Some [] | Inr b \<Rightarrow> dec_known b)"

text \<open>The part of \<open>baseHash\<close> after the index was read: assigning to a nil map panics.\<close>

definition remember_base ::
  "hasher \<Rightarrow> path \<Rightarrow> path \<Rightarrow> path \<Rightarrow> string \<Rightarrow> (string \<times> string) list option \<Rightarrow> ('z world_scheme, string) io" where
  "remember_base sha root idx real i known =
     bindE (PutChunked sha (CAS root) real) (\<lambda>(h, _).
       case known of
         None \<Rightarrow> fail (Panic ''assignment to entry in nil map'')
       | Some m \<Rightarrow>
           bindE (gets umask) (\<lambda>um.
           bindE (on_fs (WriteFile um idx (emit (Some 0) (known_json (aput i h m))) mode_0644)) (\<lambda>_.
           ret h)))"

definition baseHash :: "hasher \<Rightarrow> path \<Rightarrow> path \<Rightarrow> ('z eworld_scheme, string) io" where
  "baseHash sha root p =
     bindE (gets hfs) (\<lambda>f.
     bindE (lift_res (EvalSymlinks f p)) (\<lambda>real.
       if real \<noteq> [] \<and> butlast real = cacheDir root \<and> Ext (last real) = ''.base''
       then ret (TrimSuffix (last real) ''.base'')
       else
         bindE (lift_res (Stat f real)) (\<lambda>fi.
         bindE (kstat_of real) (\<lambda>k.
           let i = fileIdentity k fi;
               idx = fp_join root ''bases.json'';
               known = known_bases idx f
           in case Option.bind known (\<lambda>m. map_of m i) of
                Some h \<Rightarrow> if Has (CAS root) f h then ret h else remember_base sha root idx real i known
              | None \<Rightarrow> remember_base sha root idx real i known))))"

end
