(* ===== verification/Engine.thy ===== *)
theory Engine
  imports Cache
begin

section \<open>The engine (internal/engine/engine.go, internal/engine/memory.go)\<close>

text \<open>
  The operations on sandboxes, over a repository and a backend: create, run a command and
  checkpoint the result, check an earlier step out, fork, read and compare past steps, and
  bring machines up from a checkpoint's image. Contexts, which only carry cancellation, are
  left out. A \<open>*Sandbox\<close> that an operation changes is returned with its result; after an error
  no caller uses it.
\<close>

subsection \<open>Definitions\<close>

record 's engine =
  e_repo :: path
  e_backend :: "'s backend"

text \<open>The text after the last slash.\<close>

definition base_name :: "string \<Rightarrow> string" where
  "base_name rel = last (split_on (CHR ''/'') rel)"

definition defaultIgnore :: ignore where
  "defaultIgnore rel isDir \<longleftrightarrow> base_name rel = ''.git'' \<or> base_name rel = ''.vit'' \<or> rel = ''lost+found''"

definition loadTree :: "path \<Rightarrow> fs \<Rightarrow> string \<Rightarrow> err + tree" where
  "loadTree root f hash =
     (case Get (CAS root) f hash of
        Inl e \<Rightarrow> Inl e
      | Inr b \<Rightarrow> (case Unmarshal b of None \<Rightarrow> Inl (Errorf ''json'' [] None) | Some t \<Rightarrow> Inr t))"

text \<open>\<open>Engine.Tree\<close>.\<close>

definition TreeAt :: "path \<Rightarrow> fs \<Rightarrow> string \<Rightarrow> err + tree" where
  "TreeAt root f checkpointID =
     (case Checkpoint root f checkpointID of Inl e \<Rightarrow> Inl e | Inr c \<Rightarrow> loadTree root f (c_tree_hash c))"

text \<open>\<open>Engine.ReadFile\<close>.\<close>

definition ReadFileAt :: "path \<Rightarrow> fs \<Rightarrow> string \<Rightarrow> string \<Rightarrow> err + bytes" where
  "ReadFileAt root f checkpointID p =
     (case TreeAt root f checkpointID of
        Inl e \<Rightarrow> Inl e
      | Inr t \<Rightarrow>
          (case Find t p of
             None \<Rightarrow> Inl (Errorf ''%s is not in checkpoint %s'' [p, checkpointID] None)
           | Some ent \<Rightarrow>
               if e_link ent \<noteq> [] then Inr (''-> '' @ e_link ent @ [CHR 0x0A])
               else if e_dir ent then Inl (Errorf ''%s is a directory'' [p] None)
               else Get (CAS root) f (e_hash ent)))"

text \<open>\<open>Engine.Diff\<close>.\<close>

definition DiffAt :: "path \<Rightarrow> fs \<Rightarrow> string \<Rightarrow> string \<Rightarrow> err + change list" where
  "DiffAt root f fromID toID =
     (case TreeAt root f toID of
        Inl e \<Rightarrow> Inl e
      | Inr to \<Rightarrow>
          if fromID = [] then Inr (Diff None to)
          else case TreeAt root f fromID of
            Inl e \<Rightarrow> Inl e
          | Inr from \<Rightarrow> Inr (Diff (Some from) to))"

subsection \<open>Machines (memory.go)\<close>

definition machineRunning :: "'s engine \<Rightarrow> sandbox \<Rightarrow> 's \<Rightarrow> bool" where
  "machineRunning e s w = (case b_mem (e_backend e) of None \<Rightarrow> False | Some mb \<Rightarrow> m_Running mb (s_id s) w)"

text \<open>The image files a checkpoint's hashes name, from the cache.\<close>

definition optional_image :: "hasher \<Rightarrow> path \<Rightarrow> string \<Rightarrow> string \<Rightarrow> ('z eworld_scheme, path option) io" where
  "optional_image sha root hash ext =
     (if hash = [] then ret None else bindE (cachedImage sha root hash ext) (\<lambda>p. ret (Some p)))"

definition image_of :: "hasher \<Rightarrow> path \<Rightarrow> ckpt \<Rightarrow> ('z eworld_scheme, image) io" where
  "image_of sha root c =
     bindE (cachedImage sha root (c_mem_hash c) ''.mem'') (\<lambda>mem.
     bindE (cachedImage sha root (c_state_hash c) ''.state'') (\<lambda>st.
     bindE (optional_image sha root (c_disk_hash c) ''.disk'') (\<lambda>disk.
     bindE (optional_image sha root (c_base_hash c) ''.base'') (\<lambda>base.
     ret \<lparr>img_Memory = mem, img_State = st, img_Disk = disk, img_BaseDisk = base,
       img_MemoryIsDiff = False, img_Base = c_mem_hash c\<rparr>))))"

definition bringUp ::
  "hasher \<Rightarrow> 'z eworld_scheme engine \<Rightarrow> string \<Rightarrow> ckpt \<Rightarrow> tree \<Rightarrow> ('z eworld_scheme, unit) io" where
  "bringUp sha e targetID c t =
     (case b_mem (e_backend e) of
        None \<Rightarrow> ret ()
      | Some mb \<Rightarrow>
          if HasMemory c then
            bindE (image_of sha (e_repo e) c) (\<lambda>img.
            m_Resume mb targetID (WorkDir (e_repo e) targetID) img)
          else
            bindE (attempt (m_Shutdown mb targetID)) (\<lambda>_.
            bindE (m_Boot mb targetID (WorkDir (e_repo e) targetID)) (\<lambda>_.
            case b_guest (e_backend e) of
              Some g \<Rightarrow> g_WriteTree g targetID t (Get (CAS (e_repo e)))
            | None \<Rightarrow> ret ())))"

definition ensureMachine :: "hasher \<Rightarrow> 'z eworld_scheme engine \<Rightarrow> sandbox \<Rightarrow> ('z eworld_scheme, unit) io" where
  "ensureMachine sha e s =
     (case b_mem (e_backend e) of
        None \<Rightarrow> ret ()
      | Some mb \<Rightarrow>
          bindE (gets (m_Running mb (s_id s))) (\<lambda>up.
            if up then ret ()
            else if s_head s = [] then m_Boot mb (s_id s) (WorkDir (e_repo e) (s_id s))
            else
              bindE (gets hfs) (\<lambda>f.
              bindE (lift_res (Checkpoint (e_repo e) f (s_head s))) (\<lambda>c.
              bindE (lift_res (loadTree (e_repo e) f (c_tree_hash c))) (\<lambda>t.
              bringUp sha e (s_id s) c t)))))"

text \<open>The memory image the next one may be relative to.\<close>

definition head_base :: "path \<Rightarrow> fs \<Rightarrow> string \<Rightarrow> string" where
  "head_base root f head =
     (if head = [] then []
      else case Checkpoint root f head of
        Inl e \<Rightarrow> []
      | Inr c \<Rightarrow> if HasMemory c then c_mem_hash c else [])"

definition store_memory :: "hasher \<Rightarrow> path \<Rightarrow> image \<Rightarrow> string \<Rightarrow> ('z world_scheme, string) io" where
  "store_memory sha root img base =
     (if img_MemoryIsDiff img then
        bindE (PutChunkedOverlay sha (CAS root) (img_Memory img) (if img_Base img = [] then base else img_Base img))
          (\<lambda>(h, _). ret h)
      else bindE (PutChunked sha (CAS root) (img_Memory img)) (\<lambda>(h, _). ret h))"

definition optional_disk :: "hasher \<Rightarrow> path \<Rightarrow> path option \<Rightarrow> ('z world_scheme, string) io" where
  "optional_disk sha root d =
     (case d of None \<Rightarrow> ret [] | Some p \<Rightarrow> bindE (PutChunked sha (CAS root) p) (\<lambda>(h, _). ret h))"

definition optional_base :: "hasher \<Rightarrow> path \<Rightarrow> path option \<Rightarrow> ('z eworld_scheme, string) io" where
  "optional_base sha root d = (case d of None \<Rightarrow> ret [] | Some p \<Rightarrow> baseHash sha root p)"

definition capture_into ::
  "hasher \<Rightarrow> 'z eworld_scheme engine \<Rightarrow> 'z eworld_scheme memory_backend \<Rightarrow> sandbox \<Rightarrow> ckpt \<Rightarrow> path \<Rightarrow>
     ('z eworld_scheme, ckpt) io" where
  "capture_into sha e mb s c dir =
     bindE (gets hfs) (\<lambda>f.
       let base = head_base (e_repo e) f (s_head s) in
       bindE (m_Snapshot mb (s_id s) dir base) (\<lambda>img.
       bindE (store_memory sha (e_repo e) img base) (\<lambda>mem.
       bindE (PutFile sha (CAS (e_repo e)) (img_State img)) (\<lambda>(st, _).
       bindE (optional_disk sha (e_repo e) (img_Disk img)) (\<lambda>disk.
       bindE (optional_base sha (e_repo e) (img_BaseDisk img)) (\<lambda>bd.
       bindE (m_Rebase mb (s_id s) mem) (\<lambda>_.
       ret (c\<lparr>c_mem_hash := mem, c_state_hash := st, c_disk_hash := disk, c_base_hash := bd\<rparr>))))))))"

definition captureMachine ::
  "hasher \<Rightarrow> 'z eworld_scheme engine \<Rightarrow> sandbox \<Rightarrow> ckpt \<Rightarrow> ('z eworld_scheme, ckpt) io" where
  "captureMachine sha e s c =
     (case b_mem (e_backend e) of
        None \<Rightarrow> ret c
      | Some mb \<Rightarrow>
          bindE (gets (m_Running mb (s_id s))) (\<lambda>up.
            if \<not> up then ret c
            else
              bindE (gets umask) (\<lambda>um.
              bindE (gets tempDir) (\<lambda>tmp.
              bindE (on_fs (MkdirTemp um tmp ''vit-snap-'')) (\<lambda>dir.
              deferring (on_fs (RemoveAll dir)) (capture_into sha e mb s c dir))))))"

text \<open>The loop that fetches the contents the store does not hold.\<close>

definition fetch_entry ::
  "hasher \<Rightarrow> path \<Rightarrow> 'z world_scheme guest_fs \<Rightarrow> string \<Rightarrow> entry \<Rightarrow> ('z world_scheme, unit) io" where
  "fetch_entry sha root g i ent =
     bindE (gets hfs) (\<lambda>f.
       if e_hash ent = [] \<or> Has (CAS root) f (e_hash ent) then ret ()
       else
         bindE (attempt (g_ReadFile g i (e_path ent))) (\<lambda>r.
           case r of
             Inl e \<Rightarrow> fail (Errorf ''reading guest file %s: %w'' [e_path ent] (Some e))
           | Inr data \<Rightarrow>
               bindE (Put sha (CAS root) data) (\<lambda>got.
                 if got \<noteq> e_hash ent
                 then fail (Errorf ''guest file %s changed while it was read'' [e_path ent] None)
                 else ret ())))"

definition guestTree ::
  "hasher \<Rightarrow> path \<Rightarrow> 'z world_scheme guest_fs \<Rightarrow> string \<Rightarrow> ('z world_scheme, tree) io" where
  "guestTree sha root g i =
     bindE (attempt (g_ListFiles g i)) (\<lambda>r.
       case r of
         Inl e \<Rightarrow> fail (Errorf ''listing guest files: %w'' [] (Some e))
       | Inr entries \<Rightarrow>
           bindE (for_each entries (fetch_entry sha root g i)) (\<lambda>_. ret (Sorted entries)))"

subsection \<open>Checkpoints (engine.go)\<close>

definition take_tree :: "hasher \<Rightarrow> 'z eworld_scheme engine \<Rightarrow> sandbox \<Rightarrow> ('z eworld_scheme, tree) io" where
  "take_tree sha e s =
     bindE (gets (machineRunning e s)) (\<lambda>up.
       case b_guest (e_backend e) of
         Some g \<Rightarrow>
           if up then guestTree sha (e_repo e) g (s_id s)
           else Snapshot (PutFile sha (CAS (e_repo e))) (WorkDir (e_repo e) (s_id s)) (Some defaultIgnore)
       | None \<Rightarrow> Snapshot (PutFile sha (CAS (e_repo e))) (WorkDir (e_repo e) (s_id s)) (Some defaultIgnore))"

text \<open>
  The parent's tree, where its blob can be read: the error of decoding it is dropped, and the tree is
  then what could be decoded.
\<close>

definition parent_tree :: "path \<Rightarrow> fs \<Rightarrow> string \<Rightarrow> tree option" where
  "parent_tree root f head =
     (if head = [] then None
      else case Checkpoint root f head of
        Inl e \<Rightarrow> None
      | Inr pc \<Rightarrow>
          (case loadTree root f (c_tree_hash pc) of
             Inr t \<Rightarrow> Some t
           | Inl e \<Rightarrow> (case Get (CAS root) f (c_tree_hash pc) of Inl e' \<Rightarrow> None | Inr b \<Rightarrow> Some (part_Unmarshal b))))"

definition count_kind :: "kind \<Rightarrow> change list \<Rightarrow> int" where
  "count_kind k changes = int64 (int (length (filter (\<lambda>ch. snd ch = k) changes)))"

definition checkpoint ::
  "hasher \<Rightarrow> 'z eworld_scheme engine \<Rightarrow> sandbox \<Rightarrow> string list option \<Rightarrow> int \<Rightarrow> string \<Rightarrow> ('z eworld_scheme, ckpt) io" where
  "checkpoint sha e s command code note =
     bindE (take_tree sha e s) (\<lambda>t.
     bindE (Put sha (CAS (e_repo e)) (Marshal t)) (\<lambda>treeHash.
     bindE (gets hfs) (\<lambda>f.
     bindE (newID ''ck-'') (\<lambda>i.
     bindE time_now (\<lambda>now.
       let changes = Diff (parent_tree (e_repo e) f (s_head s)) t;
           c = \<lparr>c_id = i, c_sandbox = s_id s, c_seq = s_steps s, c_parent = s_head s, c_tree_hash = treeHash,
             c_command = (case command of None \<Rightarrow> [] | Some cmd \<Rightarrow> cmd), c_exit_code = code, c_created = now,
             c_added = count_kind added changes, c_modified = count_kind modified changes,
             c_deleted = count_kind deleted changes, c_note = note, c_mem_hash = [], c_state_hash = [],
             c_disk_hash = [], c_base_hash = []\<rparr>
       in bindE (if command = None then ret c else captureMachine sha e s c) (\<lambda>c'.
          bindE (SaveCheckpoint (e_repo e) c') (\<lambda>_. ret c')))))))"

definition new_sandbox :: "'z eworld_scheme engine \<Rightarrow> string \<Rightarrow> string \<Rightarrow> ('z eworld_scheme, sandbox) io" where
  "new_sandbox e name forkedFrom =
     bindE (newID ''sbx-'') (\<lambda>i.
     bindE time_now (\<lambda>now.
     ret \<lparr>s_id = i, s_name = (if name = [] then i else name), s_backend = b_Name (e_backend e), s_head = [],
       s_forked_from = forkedFrom, s_created = now, s_steps = 0\<rparr>))"

definition set_head :: "'z eworld_scheme engine \<Rightarrow> sandbox \<Rightarrow> ckpt \<Rightarrow> ('z eworld_scheme, sandbox) io" where
  "set_head e s c =
     (let s' = s\<lparr>s_head := c_id c\<rparr> in bindE (SaveSandbox (e_repo e) s') (\<lambda>_. ret s'))"

definition Create :: "hasher \<Rightarrow> 'z eworld_scheme engine \<Rightarrow> string \<Rightarrow> ('z eworld_scheme, sandbox) io" where
  "Create sha e name =
     bindE (new_sandbox e name []) (\<lambda>s.
     bindE (gets umask) (\<lambda>um.
     bindE (on_fs (MkdirAll um (WorkDir (e_repo e) (s_id s)) mode_0755)) (\<lambda>_.
     bindE (checkpoint sha e s None 0 ''created'') (\<lambda>c.
     set_head e s c))))"

definition Run ::
  "hasher \<Rightarrow> 'z eworld_scheme engine \<Rightarrow> sandbox \<Rightarrow> string list \<Rightarrow> ('z eworld_scheme, ckpt \<times> sandbox) io" where
  "Run sha e s command =
     bindE (ensureMachine sha e s) (\<lambda>_.
     bindE os_Environ (\<lambda>env.
     bindE (b_Exec (e_backend e) (s_id s) (WorkDir (e_repo e) (s_id s)) command env) (\<lambda>code.
       let s1 = s\<lparr>s_steps := int64 (s_steps s + 1)\<rparr> in
       bindE (checkpoint sha e s1 (Some command) code []) (\<lambda>c.
       bindE (set_head e s1 c) (\<lambda>s2. ret (c, s2))))))"

definition Stop :: "'s engine \<Rightarrow> sandbox \<Rightarrow> ('s, unit) io" where
  "Stop e s = (case b_mem (e_backend e) of Some mb \<Rightarrow> m_Shutdown mb (s_id s) | None \<Rightarrow> ret ())"

definition Checkout :: "hasher \<Rightarrow> 'z eworld_scheme engine \<Rightarrow> sandbox \<Rightarrow> string \<Rightarrow> ('z eworld_scheme, sandbox) io" where
  "Checkout sha e s checkpointID =
     bindE (gets hfs) (\<lambda>f.
     bindE (lift_res (Checkpoint (e_repo e) f checkpointID)) (\<lambda>c.
       if c_sandbox c \<noteq> s_id s
       then fail (Errorf ''checkpoint %s belongs to another sandbox; use fork'' [checkpointID] None)
       else
         bindE (lift_res (loadTree (e_repo e) f (c_tree_hash c))) (\<lambda>t.
         bindE (Restore t (OpenBlob (CAS (e_repo e))) (WorkDir (e_repo e) (s_id s))) (\<lambda>_.
         bindE (bringUp sha e (s_id s) c t) (\<lambda>_.
         set_head e s c)))))"

definition Fork :: "hasher \<Rightarrow> 'z eworld_scheme engine \<Rightarrow> string \<Rightarrow> string \<Rightarrow> ('z eworld_scheme, sandbox) io" where
  "Fork sha e fromCheckpointID name =
     bindE (gets hfs) (\<lambda>f.
     bindE (lift_res (Checkpoint (e_repo e) f fromCheckpointID)) (\<lambda>src.
     bindE (lift_res (loadTree (e_repo e) f (c_tree_hash src))) (\<lambda>t.
     bindE (new_sandbox e name fromCheckpointID) (\<lambda>s.
     bindE (Restore t (OpenBlob (CAS (e_repo e))) (WorkDir (e_repo e) (s_id s))) (\<lambda>_.
     bindE (bringUp sha e (s_id s) src t) (\<lambda>_.
     bindE (newID ''ck-'') (\<lambda>i.
     bindE time_now (\<lambda>now.
       let root = \<lparr>c_id = i, c_sandbox = s_id s, c_seq = 0, c_parent = [], c_tree_hash = c_tree_hash src,
             c_command = [], c_exit_code = 0, c_created = now, c_added = 0, c_modified = 0, c_deleted = 0,
             c_note = ''forked from '' @ fromCheckpointID, c_mem_hash = c_mem_hash src,
             c_state_hash = c_state_hash src, c_disk_hash = c_disk_hash src, c_base_hash = []\<rparr>
       in bindE (SaveCheckpoint (e_repo e) root) (\<lambda>_. set_head e s root)))))))))"

end
