(* ===== verification/RepoProps.thy ===== *)
theory RepoProps
  imports Repo
begin

section \<open>What the repository promises\<close>

text \<open>
  Saving a record and loading it again, for sandboxes and checkpoints alike: the locale
  \<open>keyed_files\<close> states it once. \<open>History\<close> is the chain of parents: it returns exactly when the
  chain reaches a checkpoint without a parent or a missing one, and a saved checkpoint
  extends the history of its parent.
\<close>

subsection \<open>Files of the repository\<close>

definition id_ok :: "string \<Rightarrow> bool" where
  "id_ok i \<longleftrightarrow> CHR ''/'' \<notin> set i"

definition root_ok :: "path \<Rightarrow> bool" where
  "root_ok root \<longleftrightarrow> (\<forall>n \<in> set root. ok_name n)"

lemma ok_name_json: "id_ok i \<Longrightarrow> ok_name (i @ ''.json'')"
  by (auto simp: ok_name_def id_ok_def)

lemma json_file_path: "id_ok i \<Longrightarrow> ok_name d \<Longrightarrow> json_file root d i = root @ [d, i @ ''.json'']"
proof -
  assume "id_ok i" "ok_name d"
  moreover have "split_on (CHR ''/'') (i @ ''.json'') = [i @ ''.json'']"
    using \<open>id_ok i\<close> by (intro split_on_no_sep) (auto simp: id_ok_def)
  ultimately show ?thesis using ok_nameD [of d] ok_nameD [OF ok_name_json [of i]] by (simp add: json_file_def)
qed

text \<open>The directory of a kind of record: there, and holding nothing but regular files.\<close>

definition records_ok :: "path \<Rightarrow> string \<Rightarrow> fs \<Rightarrow> bool" where
  "records_ok root d f \<longleftrightarrow> fs_ok f \<and> ok_name d \<and> is_dir_at f (root @ [d]) \<and>
     (\<forall>n i. fmlookup f (root @ [d, n]) = Some i \<longrightarrow> (\<exists>m cs. i = File m cs))"

lemma records_fileE:
  assumes "records_ok root d f" and "fmlookup f (root @ [d, n]) = Some x"
  obtains m cs where "x = File m cs"
  using assms unfolding records_ok_def by blast

lemma putJSON_effect:
  assumes "records_ok root d (hfs w)" and "id_ok i"
  obtains f m where "putJSON root d i v w = (Inr (), w\<lparr>hfs := f\<rparr>)" and "records_ok root d f"
    and "f = fmupd (root @ [d, i @ ''.json'']) (File m (fdata (emit (Some 0) v))) (hfs w)"
proof -
  let ?p = "root @ [d, i @ ''.json'']" and ?c = "fdata (emit (Some 0) v)"
  from assms(1) have ok: "fs_ok (hfs w)" and d: "is_dir_at (hfs w) (root @ [d])" and n: "ok_name d"
    by (auto simp: records_ok_def)
  have p: "json_file root d i = ?p" by (rule json_file_path [OF assms(2) n])
  have nd: "\<not> is_dir_at (hfs w) ?p"
    using assms(1) by (auto simp: is_dir_at_def inode_at_def split: option.splits elim: records_fileE)
  have "slot (hfs w) ?p" using slotI [OF d ok_name_json [OF assms(2)]] by simp
  with ok nd have "fs_ok (fmupd ?p (File m ?c) (hfs w))" for m by (intro fs_ok_fmupd) auto
  with assms(1) have rec: "records_ok root d (fmupd ?p (File m ?c) (hfs w))" for m
    by (auto simp: records_ok_def is_dir_at_fmupd)
  show ?thesis
  proof (cases "fmlookup (hfs w) ?p")
    case None
    with WriteCells_new [OF ok d ok_name_json [OF assms(2)], of "umask w" ?c mode_0644] that [OF _ rec refl]
    show ?thesis by (simp add: putJSON_def io p WriteFile_def on_fs_def)
  next
    case (Some x)
    then obtain m cs where "x = File m cs" by (rule records_fileE [OF assms(1)])
    with WriteCells_over [OF ok, of ?p m cs "umask w" ?c mode_0644] Some that [OF _ rec refl, of m]
    show ?thesis by (simp add: putJSON_def io p WriteFile_def on_fs_def)
  qed
qed

lemma getJSON_lookup:
  assumes "records_ok root d f" and "id_ok i"
  shows "getJSON root d i dec f =
    (case fmlookup f (root @ [d, i @ ''.json'']) of
       Some (File m cs) \<Rightarrow> (case unmarshal_with dec (fread cs) of None \<Rightarrow> Inl (Errorf ''json'' [] None) | Some v \<Rightarrow> Inr v)
     | _ \<Rightarrow> Inl (Errno ENOENT))"
proof -
  let ?p = "root @ [d, i @ ''.json'']"
  from assms(1) have ok: "fs_ok f" and d: "is_dir_at f (root @ [d])" and n: "ok_name d" by (auto simp: records_ok_def)
  show ?thesis
  proof (cases "fmlookup f ?p")
    case None
    have "ReadFile f ?p = Inl (Errno ENOENT)"
      using ReadFile_absent [OF ok d ok_name_json [OF assms(2)]] None by simp
    with None show ?thesis by (simp add: getJSON_def json_file_path [OF assms(2) n])
  next
    case (Some x)
    then obtain m cs where "x = File m cs" by (rule records_fileE [OF assms(1)])
    with Some ReadFile_present [OF ok] show ?thesis
      by (simp add: getJSON_def json_file_path [OF assms(2) n])
  qed
qed

subsection \<open>Records kept by key\<close>

locale keyed_files =
  fixes save :: "'r \<Rightarrow> ('s, unit) io" and load :: "'s \<Rightarrow> string \<Rightarrow> err + 'r" and key :: "'r \<Rightarrow> string"
    and inv :: "'s \<Rightarrow> bool" and good :: "'r \<Rightarrow> bool" and name_ok :: "string \<Rightarrow> bool"
  assumes save_load: "inv s \<Longrightarrow> good r \<Longrightarrow> \<exists>s'. save r s = (Inr (), s') \<and> inv s' \<and> load s' (key r) = Inr r \<and>
      (\<forall>k. name_ok k \<longrightarrow> k \<noteq> key r \<longrightarrow> load s' k = load s k)"
begin

text \<open>The last record saved under a key is the one found there, however many are saved.\<close>

lemma save_all:
  "inv s \<Longrightarrow> \<forall>r \<in> set rs. good r \<and> name_ok (key r) \<Longrightarrow> \<exists>s'. for_each rs save s = (Inr (), s') \<and> inv s' \<and>
     (\<forall>k. name_ok k \<longrightarrow> load s' k = (case find (\<lambda>r. key r = k) (rev rs) of Some r \<Rightarrow> Inr r | None \<Rightarrow> load s k))"
proof (induction rs arbitrary: s)
  case (Cons r rs)
  then obtain t where t: "save r s = (Inr (), t)" "inv t" "load t (key r) = Inr r"
    "\<forall>k. name_ok k \<longrightarrow> k \<noteq> key r \<longrightarrow> load t k = load s k" using save_load [of s r] by auto
  from Cons.IH [OF t(2)] Cons.prems obtain u where u: "for_each rs save t = (Inr (), u)" "inv u"
    "\<forall>k. name_ok k \<longrightarrow> load u k = (case find (\<lambda>r. key r = k) (rev rs) of Some r \<Rightarrow> Inr r | None \<Rightarrow> load t k)" by auto
  have find: "find P (xs @ [x]) = (case find P xs of Some y \<Rightarrow> Some y | None \<Rightarrow> if P x then Some x else None)"
    for P :: "'r \<Rightarrow> bool" and xs x by (induction xs) auto
  have "load u k = (case find (\<lambda>r. key r = k) (rev (r # rs)) of Some r \<Rightarrow> Inr r | None \<Rightarrow> load s k)" if "name_ok k" for k
    using u(3) t(3,4) that by (cases "find (\<lambda>r. key r = k) (rev rs)") (auto simp: find)
  moreover have "for_each (r # rs) save s = (Inr (), u)" using t(1) u(1) by simp
  ultimately show ?case using u(2) by blast
qed simp

end

interpretation checkpoints: keyed_files "SaveCheckpoint root" "\<lambda>w. Checkpoint root (hfs w)" c_id
  "\<lambda>w. records_ok root ''checkpoints'' (hfs w)" "\<lambda>c. ckpt_ok c \<and> id_ok (c_id c)" id_ok
  for root
proof
  fix w :: "'a world_scheme" and c
  assume ok: "records_ok root ''checkpoints'' (hfs w)" and c: "ckpt_ok c \<and> id_ok (c_id c)"
  let ?p = "\<lambda>i. root @ [''checkpoints'', i @ ''.json'']"
  from putJSON_effect [OF ok, of "c_id c" "ckpt_json c"] c obtain f m where
    f: "putJSON root ''checkpoints'' (c_id c) (ckpt_json c) w = (Inr (), w\<lparr>hfs := f\<rparr>)" "records_ok root ''checkpoints'' f"
    "f = fmupd (?p (c_id c)) (File m (fdata (emit (Some 0) (ckpt_json c)))) (hfs w)" by metis
  have y: "time_marshals (c_created c)" using c by (simp add: ckpt_ok_def time_ok_def time_read_def time_marshals_def)
  have "Checkpoint root f (c_id c) = Inr c"
    using getJSON_lookup [OF f(2), of "c_id c" dec_ckpt] c ckpt_roundtrip [of c "Some 0"] f(3)
    by (simp add: Checkpoint_def)
  moreover have "Checkpoint root f k = Checkpoint root (hfs w) k" if "id_ok k" "k \<noteq> c_id c" for k
    using getJSON_lookup [OF f(2) that(1), of dec_ckpt] getJSON_lookup [OF ok that(1), of dec_ckpt] f(3) that(2)
    by (simp add: Checkpoint_def)
  ultimately show "\<exists>s'. SaveCheckpoint root c w = (Inr (), s') \<and> records_ok root ''checkpoints'' (hfs s') \<and>
      Checkpoint root (hfs s') (c_id c) = Inr c \<and>
      (\<forall>k. id_ok k \<longrightarrow> k \<noteq> c_id c \<longrightarrow> Checkpoint root (hfs s') k = Checkpoint root (hfs w) k)"
    using f(1,2) y by (simp add: SaveCheckpoint_def)
qed

interpretation sandboxes: keyed_files "SaveSandbox root" "\<lambda>w i. getJSON root ''sandboxes'' i dec_sandbox (hfs w)" s_id
  "\<lambda>w. records_ok root ''sandboxes'' (hfs w)" "\<lambda>s. sandbox_ok s \<and> id_ok (s_id s)" id_ok
  for root
proof
  fix w :: "'a world_scheme" and s
  assume ok: "records_ok root ''sandboxes'' (hfs w)" and s: "sandbox_ok s \<and> id_ok (s_id s)"
  let ?p = "\<lambda>i. root @ [''sandboxes'', i @ ''.json'']"
  from putJSON_effect [OF ok, of "s_id s" "sandbox_json s"] s obtain f m where
    f: "putJSON root ''sandboxes'' (s_id s) (sandbox_json s) w = (Inr (), w\<lparr>hfs := f\<rparr>)" "records_ok root ''sandboxes'' f"
    "f = fmupd (?p (s_id s)) (File m (fdata (emit (Some 0) (sandbox_json s)))) (hfs w)" by metis
  have y: "time_marshals (s_created s)" using s by (simp add: sandbox_ok_def time_ok_def time_read_def time_marshals_def)
  have "getJSON root ''sandboxes'' (s_id s) dec_sandbox f = Inr s"
    using getJSON_lookup [OF f(2), of "s_id s" dec_sandbox] s sandbox_roundtrip [of s "Some 0"] f(3) by simp
  moreover have "getJSON root ''sandboxes'' k dec_sandbox f = getJSON root ''sandboxes'' k dec_sandbox (hfs w)"
    if "id_ok k" "k \<noteq> s_id s" for k
    using getJSON_lookup [OF f(2) that(1), of dec_sandbox] getJSON_lookup [OF ok that(1), of dec_sandbox] f(3) that(2)
    by simp
  ultimately show "\<exists>s'. SaveSandbox root s w = (Inr (), s') \<and> records_ok root ''sandboxes'' (hfs s') \<and>
      getJSON root ''sandboxes'' (s_id s) dec_sandbox (hfs s') = Inr s \<and>
      (\<forall>k. id_ok k \<longrightarrow> k \<noteq> s_id s \<longrightarrow>
        getJSON root ''sandboxes'' k dec_sandbox (hfs s') = getJSON root ''sandboxes'' k dec_sandbox (hfs w))"
    using f(1,2) y by (simp add: SaveSandbox_def)
qed

subsection \<open>A concrete repository\<close>

text \<open>
  Checkpoints \<open>a\<close> and \<open>b\<close> after \<open>a\<close>, sandbox \<open>t\<close> at \<open>b\<close>; in \<open>demo_looped\<close> also a checkpoint \<open>s\<close> after
  itself and a sandbox \<open>u\<close> there.
\<close>

definition demo_ckpt :: "string \<Rightarrow> string \<Rightarrow> ckpt" where
  "demo_ckpt i p = \<lparr>c_id = i, c_sandbox = ''t'', c_seq = 0, c_parent = p, c_tree_hash = [], c_command = [],
     c_exit_code = 0, c_created = zero_time, c_added = 0, c_modified = 0, c_deleted = 0, c_note = [],
     c_mem_hash = [], c_state_hash = [], c_disk_hash = [], c_base_hash = []\<rparr>"

definition demo_sandbox :: "string \<Rightarrow> string \<Rightarrow> sandbox" where
  "demo_sandbox i h = \<lparr>s_id = i, s_name = i, s_backend = ''process'', s_head = h, s_forked_from = [],
     s_created = zero_time, s_steps = 0\<rparr>"

definition demo_file :: "string \<Rightarrow> string \<Rightarrow> json \<Rightarrow> fs \<Rightarrow> fs" where
  "demo_file d i v f = fmupd [''v'', d, i @ ''.json''] (File mode_0644 (fdata (emit (Some 0) v))) f"

definition demo_dirs :: fs where
  "demo_dirs = fmupd [''v'', ''sandboxes''] (Dir mode_0755) (fmupd [''v'', ''checkpoints''] (Dir mode_0755)
     (fmupd [''v''] (Dir mode_0755) fmempty))"

definition demo_repo :: fs where
  "demo_repo =
     demo_file ''checkpoints'' ''a'' (ckpt_json (demo_ckpt ''a'' []))
     (demo_file ''checkpoints'' ''b'' (ckpt_json (demo_ckpt ''b'' ''a''))
     (demo_file ''sandboxes'' ''t'' (sandbox_json (demo_sandbox ''t'' ''b'')) demo_dirs))"

definition demo_looped :: fs where
  "demo_looped =
     demo_file ''checkpoints'' ''s'' (ckpt_json (demo_ckpt ''s'' ''s''))
     (demo_file ''sandboxes'' ''u'' (sandbox_json (demo_sandbox ''u'' ''s'')) demo_repo)"

lemma demo_heads [simp]:
  "s_head (demo_sandbox i h) = h" "c_id (demo_ckpt i p) = i" "c_parent (demo_ckpt i p) = p"
  by (simp_all add: demo_sandbox_def demo_ckpt_def)

lemma demo_ckpt_ok: "valid_utf8 i \<Longrightarrow> valid_utf8 p \<Longrightarrow> ckpt_ok (demo_ckpt i p)"
  by (simp add: ckpt_ok_def demo_ckpt_def zero_time_def time_ok_def time_read_def days_in_def int64_id valid_utf8_ascii)

lemma demo_sandbox_ok: "valid_utf8 i \<Longrightarrow> valid_utf8 h \<Longrightarrow> sandbox_ok (demo_sandbox i h)"
  by (simp add: sandbox_ok_def demo_sandbox_def zero_time_def time_ok_def time_read_def days_in_def int64_id valid_utf8_ascii)

lemma demo_dirs_records: "d \<in> {''checkpoints'', ''sandboxes''} \<Longrightarrow> records_ok [''v''] d demo_dirs"
proof -
  have ok: "fs_ok demo_dirs"
    unfolding fs_ok_def by (auto simp: demo_dirs_def slot_def ok_name_def is_dir_at_def inode_at_def)
  assume "d \<in> {''checkpoints'', ''sandboxes''}"
  with ok show ?thesis
    by (auto simp: records_ok_def demo_dirs_def ok_name_def is_dir_at_def inode_at_def split: if_splits)
qed

lemma demo_file_records:
  assumes "\<forall>d \<in> {''checkpoints'', ''sandboxes''}. records_ok [''v''] d f" and "e \<in> {''checkpoints'', ''sandboxes''}" and "id_ok i"
  shows "\<forall>d \<in> {''checkpoints'', ''sandboxes''}. records_ok [''v''] d (demo_file e i v f)"
proof
  fix d assume d: "d \<in> {''checkpoints'', ''sandboxes''}"
  let ?p = "[''v'', e, i @ ''.json'']"
  from assms have r: "records_ok [''v''] e f" "records_ok [''v''] d f" using d by auto
  have nd: "\<not> is_dir_at f ?p"
    using r(1) by (auto simp: is_dir_at_def inode_at_def split: option.splits elim: records_fileE [where root = "[''v'']", simplified])
  have "slot f ?p" using slotI [of f "[''v'', e]", OF _ ok_name_json [OF assms(3)]] r(1) by (simp add: records_ok_def)
  with r nd have "fs_ok (demo_file e i v f)"
    unfolding demo_file_def by (intro fs_ok_fmupd) (auto simp: records_ok_def)
  with r show "records_ok [''v''] d (demo_file e i v f)"
    by (auto simp: records_ok_def demo_file_def is_dir_at_fmupd)
qed

lemma demo_records: "\<forall>d \<in> {''checkpoints'', ''sandboxes''}. records_ok [''v''] d demo_repo"
  unfolding demo_repo_def using demo_dirs_records by (intro demo_file_records) (simp_all add: id_ok_def)

lemma looped_records: "\<forall>d \<in> {''checkpoints'', ''sandboxes''}. records_ok [''v''] d demo_looped"
  unfolding demo_looped_def using demo_records by (intro demo_file_records) (simp_all add: id_ok_def)

lemma demo_lookup:
  "fmlookup demo_dirs [''v'', d, i @ ''.json''] = None"
  "fmlookup (demo_file e j v f) [''v'', d, i @ ''.json''] =
     (if d = e \<and> i = j then Some (File mode_0644 (fdata (emit (Some 0) v))) else fmlookup f [''v'', d, i @ ''.json''])"
  by (auto simp: demo_dirs_def demo_file_def)

lemma demo_Checkpoint:
  assumes "id_ok i"
  shows "Checkpoint [''v''] demo_repo i =
    (if i = ''a'' then Inr (demo_ckpt ''a'' []) else if i = ''b'' then Inr (demo_ckpt ''b'' ''a'')
     else Inl (Errorf ''no checkpoint %q'' [i] None))"
proof -
  have "fmlookup demo_repo [''v'', ''checkpoints'', i @ ''.json''] =
    (if i = ''a'' then Some (File mode_0644 (fdata (emit (Some 0) (ckpt_json (demo_ckpt ''a'' [])))))
     else if i = ''b'' then Some (File mode_0644 (fdata (emit (Some 0) (ckpt_json (demo_ckpt ''b'' ''a'')))))
     else None)"
    by (simp add: demo_repo_def demo_lookup)
  with getJSON_lookup [of "[''v'']" "''checkpoints''", OF demo_records [rule_format] assms, of dec_ckpt]
  show ?thesis by (simp add: Checkpoint_def ckpt_roundtrip demo_ckpt_ok valid_utf8_ascii)
qed

lemma demo_Sandbox: "Sandbox [''v''] demo_repo ''t'' = Inr (demo_sandbox ''t'' ''b'')"
proof -
  have "fmlookup demo_repo [''v'', ''sandboxes'', ''t'' @ ''.json''] =
    Some (File mode_0644 (fdata (emit (Some 0) (sandbox_json (demo_sandbox ''t'' ''b'')))))"
    by (simp only: demo_repo_def demo_lookup) simp
  with getJSON_lookup [of "[''v'']" "''sandboxes''", OF demo_records [rule_format], of "''t''" dec_sandbox]
  show ?thesis by (simp add: Sandbox_def id_ok_def sandbox_roundtrip demo_sandbox_ok valid_utf8_ascii)
qed

lemma looped_loads:
  "Checkpoint [''v''] demo_looped ''s'' = Inr (demo_ckpt ''s'' ''s'')"
  "Sandbox [''v''] demo_looped ''u'' = Inr (demo_sandbox ''u'' ''s'')"
proof -
  have "fmlookup demo_looped [''v'', ''checkpoints'', ''s'' @ ''.json''] =
    Some (File mode_0644 (fdata (emit (Some 0) (ckpt_json (demo_ckpt ''s'' ''s'')))))"
    by (simp only: demo_looped_def demo_lookup) simp
  with getJSON_lookup [of "[''v'']" "''checkpoints''", OF looped_records [rule_format], of "''s''" dec_ckpt]
  show "Checkpoint [''v''] demo_looped ''s'' = Inr (demo_ckpt ''s'' ''s'')"
    by (simp add: Checkpoint_def id_ok_def ckpt_roundtrip demo_ckpt_ok valid_utf8_ascii)
  have "fmlookup demo_looped [''v'', ''sandboxes'', ''u'' @ ''.json''] =
    Some (File mode_0644 (fdata (emit (Some 0) (sandbox_json (demo_sandbox ''u'' ''s'')))))"
    by (simp only: demo_looped_def demo_lookup) simp
  with getJSON_lookup [of "[''v'']" "''sandboxes''", OF looped_records [rule_format], of "''u''" dec_sandbox]
  show "Sandbox [''v''] demo_looped ''u'' = Inr (demo_sandbox ''u'' ''s'')"
    by (simp add: Sandbox_def id_ok_def sandbox_roundtrip demo_sandbox_ok valid_utf8_ascii)
qed

subsection \<open>History\<close>

text \<open>The chain of parents from an id: a checkpoint, its parent's chain, until no parent is named.\<close>

inductive lineage :: "path \<Rightarrow> fs \<Rightarrow> string \<Rightarrow> ckpt list \<Rightarrow> bool" for root f where
  stop: "lineage root f [] []"
| step: "i \<noteq> [] \<Longrightarrow> Checkpoint root f i = Inr c \<Longrightarrow> lineage root f (c_parent c) cs \<Longrightarrow> lineage root f i (c # cs)"

inductive_cases lineage_NilE: "lineage root f [] cs"
inductive_cases lineage_ConsE: "lineage root f i (c # cs)"
inductive_simps lineage_at: "lineage root f i cs"

lemma lineage_history: "lineage root f i cs \<Longrightarrow> history_from root f chain i = Some (Inr (chain @ cs))"
proof (induction arbitrary: chain rule: lineage.induct)
  case stop
  show ?case by (subst history_from.simps) simp
next
  case (step i c cs)
  then show ?case by (subst history_from.simps) simp
qed

lemma history_lineage:
  assumes "history_from root f chain i = Some (Inr out)"
  shows "\<exists>cs. out = chain @ cs \<and> lineage root f i cs"
proof -
  have "\<forall>out. r = Inr out \<longrightarrow> (\<exists>cs. out = chain @ cs \<and> lineage root f i cs)"
    if "history_from root f chain i = Some r" for r
  proof (rule history_from.raw_induct [OF _ that], intro allI impI)
    fix hf root f chain i r and out :: "ckpt list"
    assume IH: "\<And>root f chain i r. hf root f chain i = Some r \<Longrightarrow>
        \<forall>out. r = Inr out \<longrightarrow> (\<exists>cs. out = chain @ cs \<and> lineage root f i cs)"
      and step: "(if i = [] then Some (Inr chain)
        else case Checkpoint root f i of Inl e \<Rightarrow> Some (Inl e) | Inr c \<Rightarrow> hf root f (chain @ [c]) (c_parent c)) = Some r"
      and r: "r = Inr out"
    show "\<exists>cs. out = chain @ cs \<and> lineage root f i cs"
    proof (cases "i = []")
      case True
      with step r show ?thesis by (auto intro: lineage.stop)
    next
      case False
      with step r obtain c where c: "Checkpoint root f i = Inr c" "hf root f (chain @ [c]) (c_parent c) = Some r"
        by (auto split: sum.splits)
      from IH [OF c(2)] r obtain cs where "out = (chain @ [c]) @ cs" "lineage root f (c_parent c) cs" by blast
      with False c(1) show ?thesis by (auto intro: lineage.step)
    qed
  qed
  with assms show ?thesis by blast
qed

lemma history_loops:
  assumes "i \<noteq> []" and "Checkpoint root f i = Inr c" and "c_parent c = i"
  shows "history_from root f chain i = None"
proof (rule ccontr)
  assume "history_from root f chain i \<noteq> None"
  then obtain r where h: "history_from root f chain i = Some r" by blast
  have "\<not> (i' = i \<and> root' = root \<and> f' = f)" if "history_from root' f' chain' i' = Some r'" for root' f' chain' i' r'
  proof (rule history_from.raw_induct [OF _ that], rule notI)
    fix hf root' f' chain' i' r'
    assume IH: "\<And>root' f' chain' i' r'. hf root' f' chain' i' = Some r' \<Longrightarrow> \<not> (i' = i \<and> root' = root \<and> f' = f)"
      and step: "(if i' = [] then Some (Inr chain')
        else case Checkpoint root' f' i' of Inl e \<Rightarrow> Some (Inl e) | Inr c \<Rightarrow> hf root' f' (chain' @ [c]) (c_parent c)) = Some r'"
      and e: "i' = i \<and> root' = root \<and> f' = f"
    from step e assms have "hf root f (chain' @ [c]) i = Some r'" by simp
    with IH [OF this] show False by simp
  qed
  with h show False by blast
qed

text \<open>
  Property C18. \<open>History\<close> returns a list of checkpoints exactly when the sandbox is found and its
  head's parents, followed one by one, end at a checkpoint that names no parent; the list is
  that chain, from head to root.
\<close>

theorem History_is_lineage:
  "History root f sid = Some (Inr cs) \<longleftrightarrow> (\<exists>s. Sandbox root f sid = Inr s \<and> lineage root f (s_head s) cs)"
  using lineage_history [of root f _ cs "[]"] history_lineage [of root f "[]" _ cs]
  by (auto simp: History_def split: sum.splits)

text \<open>
  Property C19. \<open>History\<close> always returns where every checkpoint has a smaller rank than those it
  is the parent of, as it has when parents are saved before their children: each step goes to a
  smaller rank.
\<close>

theorem History_returns:
  assumes "\<forall>i c. id_ok i \<longrightarrow> Checkpoint root f i = Inr c \<longrightarrow> c_parent c \<noteq> [] \<longrightarrow>
      id_ok (c_parent c) \<and> rank (c_parent c) < (rank i :: nat)"
    and "\<forall>s. Sandbox root f sid = Inr s \<longrightarrow> id_ok (s_head s)"
  shows "\<exists>r. History root f sid = Some r"
proof -
  have "\<exists>r. history_from root f chain i = Some r" if "id_ok i" for chain i
    using that
  proof (induction "rank i" arbitrary: chain i rule: less_induct)
    case less
    show ?case
    proof (cases "i = [] \<or> (\<exists>e. Checkpoint root f i = Inl e)")
      case True
      then show ?thesis by (subst history_from.simps) auto
    next
      case False
      then obtain c where c: "i \<noteq> []" "Checkpoint root f i = Inr c" by (cases "Checkpoint root f i") auto
      have "\<exists>r. history_from root f (chain @ [c]) (c_parent c) = Some r"
      proof (cases "c_parent c = []")
        case True
        then show ?thesis by (subst history_from.simps) simp
      qed (use less assms(1) c(2) in blast)
      with c show ?thesis by (subst history_from.simps) simp
    qed
  qed
  with assms(2) show ?thesis by (auto simp: History_def split: sum.splits)
qed

theorem History_returns_witness: "\<exists>r. History [''v''] demo_repo ''t'' = Some r"
proof (rule History_returns)
  show "\<forall>i c. id_ok i \<longrightarrow> Checkpoint [''v''] demo_repo i = Inr c \<longrightarrow> c_parent c \<noteq> [] \<longrightarrow>
      id_ok (c_parent c) \<and> (if c_parent c = ''b'' then 1 else 0) < (if i = ''b'' then 1 else 0 :: nat)"
    by (auto simp: demo_Checkpoint demo_ckpt_def id_ok_def)
  show "\<forall>s. Sandbox [''v''] demo_repo ''t'' = Inr s \<longrightarrow> id_ok (s_head s)"
    by (simp add: demo_Sandbox demo_sandbox_def id_ok_def)
qed

text \<open>
  Property C20. A checkpoint that is its own parent, as a file or an object pulled from a remote
  store may say, makes \<open>History\<close> of a sandbox whose head it is run forever.
\<close>

theorem History_self_parent_diverges:
  assumes "Sandbox root f sid = Inr s" and "s_head s \<noteq> []" and "Checkpoint root f (s_head s) = Inr c"
    and "c_parent c = s_head s"
  shows "History root f sid = None"
  using assms by (simp add: History_def history_loops)

theorem History_self_parent_diverges_witness: "History [''v''] demo_looped ''u'' = None"
  using History_self_parent_diverges [OF looped_loads(2) _ _, of "demo_ckpt ''s'' ''s''"]
  by (simp add: looped_loads)

subsection \<open>Saving\<close>

text \<open>A chain that does not pass the saved id is the same before and after.\<close>

lemma lineage_keep:
  assumes "lineage root f i cs" and "\<forall>k. id_ok k \<longrightarrow> k \<noteq> j \<longrightarrow> Checkpoint root f' k = Checkpoint root f k"
    and "id_ok i" and "i \<noteq> j" and "\<forall>c \<in> set cs. id_ok (c_parent c) \<and> c_parent c \<noteq> j"
  shows "lineage root f' i cs"
  using assms by (induction rule: lineage.induct) (auto intro: lineage.intros)

text \<open>
  Saving a checkpoint under a new id extends the history of its parent: the chain of
  the new id is the new checkpoint followed by the parent's chain, and every other checkpoint is
  found as before.
\<close>

lemma SaveCheckpoint_extends_lineage:
  assumes "records_ok root ''checkpoints'' (hfs w)" and "ckpt_ok c" and "id_ok (c_id c)" and "c_id c \<noteq> []"
    and "lineage root (hfs w) (c_parent c) cs" and "id_ok (c_parent c)" and "c_parent c \<noteq> c_id c"
    and "\<forall>d \<in> set cs. id_ok (c_parent d) \<and> c_parent d \<noteq> c_id c"
  shows "\<exists>w'. SaveCheckpoint root c w = (Inr (), w') \<and> records_ok root ''checkpoints'' (hfs w') \<and>
    lineage root (hfs w') (c_id c) (c # cs) \<and>
    (\<forall>k. id_ok k \<longrightarrow> k \<noteq> c_id c \<longrightarrow> Checkpoint root (hfs w') k = Checkpoint root (hfs w) k)"
proof -
  from checkpoints.save_load [OF assms(1), of c] assms(2,3) obtain w' where
    w': "SaveCheckpoint root c w = (Inr (), w')" "records_ok root ''checkpoints'' (hfs w')"
    "Checkpoint root (hfs w') (c_id c) = Inr c"
    "\<forall>k. id_ok k \<longrightarrow> k \<noteq> c_id c \<longrightarrow> Checkpoint root (hfs w') k = Checkpoint root (hfs w) k" by auto
  from lineage_keep [OF assms(5) w'(4) assms(6-8)] assms(4) w'(3)
  have "lineage root (hfs w') (c_id c) (c # cs)" by (auto intro: lineage.step)
  with w' show ?thesis by blast
qed

definition demo_host :: "fs \<Rightarrow> world" where
  "demo_host f = \<lparr>hfs = f, umask = 0, lseek_ok = True, zeroHashes = Map.empty\<rparr>"

text \<open>
  Any number of checkpoints saved one after the other: each id is then found with the
  last checkpoint saved under it, and ids not saved as before.
\<close>

lemma SaveCheckpoint_last_wins:
  assumes "records_ok root ''checkpoints'' (hfs w)" and "\<forall>c \<in> set cs. ckpt_ok c \<and> id_ok (c_id c)"
  shows "\<exists>w'. for_each cs (SaveCheckpoint root) w = (Inr (), w') \<and>
    (\<forall>k. id_ok k \<longrightarrow> Checkpoint root (hfs w') k =
       (case find (\<lambda>c. c_id c = k) (rev cs) of Some c \<Rightarrow> Inr c | None \<Rightarrow> Checkpoint root (hfs w) k))"
  using checkpoints.save_all [OF assms(1), of cs] assms(2) by auto

end
