(* ===== verification/Pool.thy ===== *)
theory Pool
  imports Chunked
begin

section \<open>The worker pool of \<open>parallel\<close>\<close>

text \<open>
  What \<open>parallel\<close> (internal/cas/chunked.go) gives its callers, proved once in the locale
  \<open>monotone_jobs\<close>: jobs that succeed wherever an invariant holds, only extend the state, and
  promise something later jobs cannot take away. Then every way the workers interleave ends,
  without an error, having run every index exactly once, with every promise kept; running
  the indices one after another in any order does the same. The jobs of \<open>putChunked\<close> and
  of \<open>GetChunkedTo\<close> are such jobs (\<open>ChunkedCorrect\<close>).
\<close>

subsection \<open>Progress of the pool\<close>

abbreviation pool_reach ::
  "nat \<Rightarrow> nat \<Rightarrow> (nat \<Rightarrow> ('s, 'a) io) \<Rightarrow> 's \<Rightarrow> ('s, 'a) pool \<Rightarrow> bool" where
  "pool_reach workers n fn s p \<equiv> (pool_step workers n fn)\<^sup>*\<^sup>* (pool_start s) p"

text \<open>What holds of the bookkeeping at every moment, whatever the jobs do.\<close>

definition pool_books :: "nat \<Rightarrow> nat \<Rightarrow> ('s, 'a) pool \<Rightarrow> bool" where
  "pool_books workers n p \<longleftrightarrow> finite (p_running p) \<and> card (p_running p) \<le> workers \<and> p_next p \<le> n \<and>
     p_running p \<subseteq> {..<p_next p} \<and> set (map fst (p_done p)) \<subseteq> {..<p_next p} - p_running p \<and>
     distinct (map fst (p_done p)) \<and>
     (p_err p = None \<longrightarrow> p_running p \<union> set (map fst (p_done p)) = {..<p_next p})"

lemma pool_books_step: "pool_step workers n fn p q \<Longrightarrow> pool_books workers n p \<Longrightarrow> pool_books workers n q"
proof (induction rule: pool_step.induct)
  case (take_job p)
  then have "p_next p \<notin> p_running p" "p_next p \<notin> set (map fst (p_done p))"
    by (auto simp: pool_books_def)
  with take_job show ?case by (auto simp: pool_books_def lessThan_Suc)
next
  case (job_ok i p x s)
  then have "card (p_running p - {i}) \<le> card (p_running p)" by (simp add: card_mono pool_books_def)
  moreover have "i \<notin> set (map fst (p_done p))" using job_ok by (auto simp: pool_books_def)
  ultimately show ?case using job_ok by (auto simp: pool_books_def)
next
  case (job_err i p e s)
  then have "card (p_running p - {i}) \<le> card (p_running p)" by (simp add: card_mono pool_books_def)
  with job_err show ?case by (auto simp: pool_books_def split: option.splits)
qed

lemma pool_books_reach: "pool_reach workers n fn s p \<Longrightarrow> pool_books workers n p"
proof (induction rule: rtranclp_induct)
  case base
  show ?case by (simp add: pool_start_def pool_books_def)
qed (rule pool_books_step)

text \<open>Every step makes progress, so no run of the pool is infinite.\<close>

definition pool_measure :: "nat \<Rightarrow> ('s, 'a) pool \<Rightarrow> nat" where
  "pool_measure n p = 2 * (n - p_next p) + card (p_running p)"

lemma pool_measure_step:
  "pool_step workers n fn p q \<Longrightarrow> pool_books workers n p \<Longrightarrow> pool_measure n q < pool_measure n p"
proof (induction rule: pool_step.induct)
  case (take_job p)
  then have "p_next p \<notin> p_running p" "finite (p_running p)" by (auto simp: pool_books_def)
  with take_job show ?case by (simp add: pool_measure_def)
next
  case (job_ok i p x s)
  then have "card (p_running p - {i}) < card (p_running p)"
    by (intro card_Diff1_less) (simp_all add: pool_books_def)
  then show ?case by (simp only: pool_measure_def) simp
next
  case (job_err i p e s)
  then have "card (p_running p - {i}) < card (p_running p)"
    by (intro card_Diff1_less) (simp_all add: pool_books_def)
  then show ?case by (simp only: pool_measure_def) simp
qed

text \<open>A pool with a worker that is not finished can go on: there is no deadlock.\<close>

lemma pool_not_stuck:
  assumes "0 < workers" and "pool_books workers n p" and "\<not> pool_finished n p"
  shows "\<exists>q. pool_step workers n fn p q"
proof (cases "p_running p = {}")
  case True
  with assms have "p_next p < n" "p_err p = None" "card (p_running p) < workers"
    by (auto simp: pool_finished_def)
  then show ?thesis by (blast intro: take_job)
next
  case False
  then obtain i where i: "i \<in> p_running p" by blast
  obtain r s where "fn i (p_state p) = (r, s)" by fastforce
  with i show ?thesis by (cases r) (auto intro: job_ok job_err)
qed

lemma pool_finishes:
  "0 < workers \<Longrightarrow> pool_books workers n p \<Longrightarrow>
     \<exists>q. (pool_step workers n fn)\<^sup>*\<^sup>* p q \<and> pool_finished n q"
proof (induction "pool_measure n p" arbitrary: p rule: less_induct)
  case less
  show ?case
  proof (cases "pool_finished n p")
    case False
    then obtain q where q: "pool_step workers n fn p q"
      using pool_not_stuck [OF less.prems, of fn] by blast
    with less show ?thesis
      by (meson pool_measure_step pool_books_step converse_rtranclp_into_rtranclp)
  qed blast
qed

subsection \<open>Jobs that only extend the state\<close>

locale monotone_jobs =
  fixes fn :: "nat \<Rightarrow> ('s, 'a) io" and n :: nat
    and I :: "'s \<Rightarrow> bool" and R :: "'s \<Rightarrow> 's \<Rightarrow> bool" and Q :: "nat \<Rightarrow> 'a \<Rightarrow> 's \<Rightarrow> bool"
  assumes job: "I s \<Longrightarrow> i < n \<Longrightarrow> \<exists>x s'. fn i s = (Inr x, s') \<and> R s s' \<and> Q i x s'"
    and R_refl: "R s s"
    and R_trans: "R s t \<Longrightarrow> R t u \<Longrightarrow> R s u"
    and R_keeps: "I s \<Longrightarrow> R s s' \<Longrightarrow> I s'"
    and Q_stable: "I s \<Longrightarrow> Q i x s \<Longrightarrow> R s s' \<Longrightarrow> Q i x s'"
begin

lemma run_jobs_any_order:
  assumes "I s" and "\<forall>i \<in> set is. i < n"
  shows "\<exists>rs s'. run_jobs is fn s = (Inr rs, s') \<and> R s s' \<and> map fst rs = is \<and>
    (\<forall>(i, x) \<in> set rs. Q i x s')"
  using assms
proof (induction "is" arbitrary: s)
  case Nil
  then show ?case by (simp add: R_refl)
next
  case (Cons i "is")
  then obtain x t where t: "fn i s = (Inr x, t)" "R s t" "Q i x t" using job [of s i] by auto
  with R_keeps Cons.prems have It: "I t" by blast
  with Cons.IH [of t] Cons.prems obtain rs u where u: "run_jobs is fn t = (Inr rs, u)" "R t u"
    "map fst rs = is" "\<forall>(i, x) \<in> set rs. Q i x u" by auto
  with t It have "run_jobs (i # is) fn s = (Inr ((i, x) # rs), u)" "R s u" "Q i x u"
    using R_trans Q_stable by (auto simp: io)
  with u show ?case by force
qed

lemma parallel_ok:
  assumes "I s"
  shows "\<exists>rs s'. parallel n fn s = (Inr rs, s') \<and> R s s' \<and> map fst rs = [0..<n] \<and>
    (\<forall>(i, x) \<in> set rs. Q i x s')"
  using run_jobs_any_order [OF assms, of "[0..<n]"] by (simp add: parallel_def)

definition pool_good :: "'s \<Rightarrow> ('s, 'a) pool \<Rightarrow> bool" where
  "pool_good s p \<longleftrightarrow> p_err p = None \<and> R s (p_state p) \<and> I (p_state p) \<and>
     (\<forall>(i, x) \<in> set (p_done p). Q i x (p_state p))"

lemma pool_good_step:
  assumes "pool_step workers n fn p q" and "pool_books workers n p" and "pool_good s p"
  shows "pool_good s q"
  using assms
proof (cases rule: pool_step.cases)
  case (job_ok i x t)
  with assms(2,3) have i: "i < n" and Ip: "I (p_state p)" by (auto simp: pool_books_def pool_good_def)
  with job [OF Ip i] job_ok have j: "R (p_state p) t" "Q i x t" by auto
  from assms(3) j(1) have "R s t" unfolding pool_good_def by (blast intro: R_trans)
  moreover have "I t" using Ip j(1) by (rule R_keeps)
  moreover have "Q k y t" if "(k, y) \<in> set (p_done p)" for k y
    using assms(3) that Q_stable [OF Ip _ j(1)] by (auto simp: pool_good_def)
  ultimately have "R s t" "I t" "\<forall>(i, x) \<in> set (p_done p). Q i x t" by auto
  with job_ok j assms(3) show ?thesis by (auto simp: pool_good_def)
next
  case (job_err i e t)
  with assms(2,3) have "i < n" "I (p_state p)" by (auto simp: pool_books_def pool_good_def)
  with job [of "p_state p" i] job_err show ?thesis by auto
qed (auto simp: pool_good_def)

lemma pool_good_reach: "pool_reach workers n fn s p \<Longrightarrow> I s \<Longrightarrow> pool_good s p"
proof (induction rule: rtranclp_induct)
  case base
  then show ?case by (simp add: pool_good_def pool_start_def R_refl)
next
  case (step p q)
  with pool_books_reach [OF step.hyps(1)] show ?case by (meson pool_good_step)
qed

text \<open>However the workers interleave: no error, every index once, every promise kept.\<close>

lemma pool_result:
  assumes "I s" and "pool_reach workers n fn s p" and "pool_finished n p"
  shows "p_err p = None" and "R s (p_state p)" and "set (map fst (p_done p)) = {..<n}"
    and "distinct (map fst (p_done p))" and "(i, x) \<in> set (p_done p) \<Longrightarrow> Q i x (p_state p)"
  using pool_good_reach [OF assms(2,1)] pool_books_reach [OF assms(2)] assms(3)
  by (auto simp: pool_good_def pool_books_def pool_finished_def)

end

end
