(* ===== verification/ChunkedCorrect.thy ===== *)
theory ChunkedCorrect
  imports Pool
begin

section \<open>Correctness of chunked images\<close>

text \<open>
  What \<open>chunked.go\<close> promises: the arithmetic of chunks, the data spans of a sparse file, the
  image a manifest stands for, that \<open>PutChunked\<close> stores exactly the file, that
  \<open>PutChunkedOverlay\<close> stores the base with the data of the sparse file laid over it, that
  \<open>GetChunkedTo\<close> rebuilds the image, and that the jobs may run in any order.
\<close>

subsection \<open>Chunks of a byte string\<close>

abbreviation CS :: nat where "CS \<equiv> 1048576"

lemma ChunkSize_CS: "ChunkSize = int CS"
  by (simp add: ChunkSize_def)

definition piece :: "bytes \<Rightarrow> nat \<Rightarrow> bytes" where
  "piece x i = take CS (drop (i * CS) x)"

definition n_chunks :: "nat \<Rightarrow> nat" where
  "n_chunks l = (l + CS - 1) div CS"

lemma chunkCount_n_chunks:
  assumes "l < 2 ^ 62"
  shows "chunkCount (int l) = int (n_chunks l)"
proof -
  have a: "int64 (int l + ChunkSize) = int l + ChunkSize"
    using assms by (intro int64_id) (simp_all add: ChunkSize_def)
  have b: "int64 (int l + ChunkSize - 1) = int l + ChunkSize - 1"
    using assms by (intro int64_id) (simp_all add: ChunkSize_def)
  have "int l + ChunkSize - 1 = int (l + CS - 1)" by (simp add: ChunkSize_CS of_nat_diff)
  with a b show ?thesis
    by (simp add: chunkCount_def go_div_def n_chunks_def ChunkSize_CS zdiv_int)
qed

lemma chunk_start_less: "i < n_chunks l \<Longrightarrow> i * CS < l"
proof -
  assume "i < n_chunks l"
  then have "Suc i \<le> (l + CS - 1) div CS" by (simp add: n_chunks_def)
  then have "Suc i * CS \<le> l + CS - 1" by (simp add: less_eq_div_iff_mult_less_eq)
  then show ?thesis by simp
qed

lemma n_chunks_cover: "l \<le> n_chunks l * CS"
proof -
  have "l + CS - 1 = n_chunks l * CS + (l + CS - 1) mod CS" by (simp add: n_chunks_def)
  moreover have "(l + CS - 1) mod CS < CS" by simp
  ultimately show ?thesis by linarith
qed

lemma chunkLen_eq:
  assumes "l < 2 ^ 62" and "i < n_chunks l"
  shows "chunkLen (int l) i = int (min CS (l - i * CS))"
proof -
  from chunk_start_less [OF assms(2)] have i: "i * CS < l" .
  with assms(1) have b: "int64 (int i * ChunkSize) = int (i * CS)"
    by (subst int64_id) (simp_all add: ChunkSize_CS)
  have c: "int64 (int l - int (i * CS)) = int (l - i * CS)"
    using i assms(1) by (subst int64_id) (simp_all add: of_nat_diff)
  have "int (l - i * CS) < ChunkSize \<longleftrightarrow> l - i * CS < CS"
    unfolding ChunkSize_CS of_nat_less_iff ..
  with b c show ?thesis by (auto simp: chunkLen_def Let_def min_def ChunkSize_CS)
qed

lemma length_piece: "length (piece x i) = min CS (length x - i * CS)"
  by (simp add: piece_def)

lemma slice_piece:
  assumes "length x < 2 ^ 62" and "i < n_chunks (length x)"
  shows "slice (int i * ChunkSize) (int i * ChunkSize + chunkLen (int (length x)) i) x = piece x i"
proof -
  have e: "nat (int i * ChunkSize) = i * CS" unfolding ChunkSize_CS by (simp flip: of_nat_mult)
  have "take (min CS (length x - i * CS)) (drop (i * CS) x) = take CS (drop (i * CS) x)"
    by (cases "length x - i * CS < CS") (simp_all add: min_def)
  with e show ?thesis
    by (simp add: slice_def chunkLen_eq [OF assms] piece_def)
qed

lemma concat_pieces_take: "concat (map (piece x) [0..<n]) = take (n * CS) x"
proof (induction n)
  case (Suc n)
  have "take (Suc n * CS) x = take (n * CS) x @ take CS (drop (n * CS) x)"
    using take_add [of "n * CS" CS x] by (simp only: mult_Suc add.commute)
  with Suc show ?case by (simp add: piece_def)
qed simp

lemma concat_pieces: "concat (map (piece x) [0..<n_chunks (length x)]) = x"
  using n_chunks_cover [of "length x"] by (simp add: concat_pieces_take)

subsection \<open>Data spans\<close>

definition covered :: "span list \<Rightarrow> int \<Rightarrow> bool" where
  "covered spans k \<longleftrightarrow> (\<exists>(a, e) \<in> set spans. a \<le> k \<and> k < e)"

lemma covered_simps [simp]:
  "\<not> covered [] k" "covered ((a, e) # sp) k \<longleftrightarrow> (a \<le> k \<and> k < e) \<or> covered sp k"
  "covered (xs @ ys) k \<longleftrightarrow> covered xs k \<or> covered ys k"
  by (auto simp: covered_def)

lemma span_end_data:
  assumes "seek_data ok cs off = Inr s"
  shows "span_end ok cs s \<le> length cs" and "\<forall>i. s \<le> i \<and> i < span_end ok cs s \<longrightarrow> cs ! i \<noteq> None"
proof -
  from seek_data_Inr [OF assms] have "ok" "s < length cs" by auto
  then obtain e where e: "seek_hole ok cs s = Inr e" by (auto simp: seek_hole_def)
  with seek_hole_Inr [OF e] show "span_end ok cs s \<le> length cs"
    "\<forall>i. s \<le> i \<and> i < span_end ok cs s \<longrightarrow> cs ! i \<noteq> None"
    by (auto simp: span_end_def)
qed

lemma data_spans_from_correct:
  assumes "ok" and "\<forall>k < off. k < length cs \<longrightarrow> (cs ! k \<noteq> None \<longleftrightarrow> covered out (int k))"
    and "\<forall>(a, e) \<in> set out. 0 \<le> a \<and> a < e \<and> e \<le> int off \<and> e \<le> int (length cs)"
  shows "(\<forall>k < length cs. cs ! k \<noteq> None \<longleftrightarrow> covered (data_spans_from ok cs out off) (int k)) \<and>
    (\<forall>(a, e) \<in> set (data_spans_from ok cs out off). 0 \<le> a \<and> a < e \<and> e \<le> int (length cs))"
  using assms
proof (induction ok cs out off rule: data_spans_from.induct)
  case (1 ok cs out off)
  have out_off: "\<not> covered out (int k)" if "off \<le> k" for k
    using "1.prems"(3) that by (force simp: covered_def)
  show ?case
  proof (cases "off < length cs")
    case False
    with "1.prems" show ?thesis by (subst (1 2) data_spans_from.simps) auto
  next
    case True
    show ?thesis
    proof (cases "seek_data ok cs off")
      case (Inl e)
      with \<open>ok\<close> have e: "seek_data ok cs off = Inl ENXIO"
        by (auto simp: seek_data_def Let_def split: if_splits)
      have "data_spans_from ok cs out off = out" using True e by (subst data_spans_from.simps) simp
      moreover have "cs ! k \<noteq> None \<longleftrightarrow> covered out (int k)" if "k < length cs" for k
        using "1.prems"(2) seek_data_ENXIO [OF e] out_off [of k] that by (cases "k < off") auto
      ultimately show ?thesis using "1.prems"(3) by auto
    next
      case (Inr s)
      let ?e = "span_end ok cs s"
      let ?out = "out @ [(int s, int ?e)]"
      note sd = seek_data_Inr [OF Inr] and se = span_end_data [OF Inr] and pr = span_end_progress [OF Inr]
      have step: "data_spans_from ok cs out off = data_spans_from ok cs ?out ?e"
        using True Inr by (subst data_spans_from.simps) simp
      have "cs ! k \<noteq> None \<longleftrightarrow> covered ?out (int k)" if "k < ?e" "k < length cs" for k
      proof -
        consider "k < off" | "off \<le> k" "k < s" | "s \<le> k" by linarith
        then show ?thesis
        proof cases
          case 1
          with "1.prems"(2) sd(1) that show ?thesis by auto
        next
          case 2
          with sd(5) out_off [of k] show ?thesis by auto
        next
          case 3
          with se(2) that show ?thesis by auto
        qed
      qed
      moreover have "\<forall>(a, e) \<in> set ?out. 0 \<le> a \<and> a < e \<and> e \<le> int ?e \<and> e \<le> int (length cs)"
        using "1.prems"(3) sd(1) se(1) pr by fastforce
      ultimately show ?thesis
        using "1.IH" [OF True Inr \<open>ok\<close>] step by simp
    qed
  qed
qed

lemma dataSpans_correct:
  "k < length cs \<Longrightarrow> covered (dataSpans True cs) (int k) \<longleftrightarrow> cs ! k \<noteq> None"
  "(a, e) \<in> set (dataSpans True cs) \<Longrightarrow> 0 \<le> a \<and> a < e \<and> e \<le> int (length cs)"
  using data_spans_from_correct [of True 0 cs "[]"] by (auto simp: dataSpans_def)

lemma dataSpans_unsupported: "cs \<noteq> [] \<Longrightarrow> dataSpans False cs = [(0, int (length cs))]"
  by (simp add: dataSpans_def data_spans_from.simps seek_data_def)

subsection \<open>Laying spans over a chunk\<close>

lemma nth_patch:
  assumes "a \<le> e" and "e \<le> length b" and "length m = e - a"
  shows "length (take a b @ m @ drop e b) = length b"
    and "j < length b \<Longrightarrow> (take a b @ m @ drop e b) ! j = (if a \<le> j \<and> j < e then m ! (j - a) else b ! j)"
  using assms by (auto simp: nth_append)

lemma read_into_nth:
  assumes "0 \<le> off" and "off \<le> a" and "a < e" and "e \<le> off + int (length b)" and "e \<le> int (length file)"
  obtains b' where "read_into file off a e b = Inr b'" and "length b' = length b"
    and "\<And>j. j < length b \<Longrightarrow>
      b' ! j = (if a \<le> off + int j \<and> off + int j < e then file ! (nat off + j) else b ! j)"
proof
  let ?a = "nat (a - off)" and ?e = "nat (e - off)"
  let ?b = "take ?a b @ slice a e file @ drop ?e b"
  have l: "length (slice a e file) = ?e - ?a" using assms by (simp add: slice_def)
  have le: "?a \<le> ?e" "?e \<le> length b" using assms by auto
  show "read_into file off a e b = Inr ?b" using assms by (simp add: read_into_def)
  show "length ?b = length b" using nth_patch(1) [OF le l] .
  show "?b ! j = (if a \<le> off + int j \<and> off + int j < e then file ! (nat off + j) else b ! j)"
    if j: "j < length b" for j
  proof -
    have "(?a \<le> j \<and> j < ?e) = (a \<le> off + int j \<and> off + int j < e)" using assms by linarith
    moreover have "slice a e file ! (j - ?a) = file ! (nat off + j)" if "?a \<le> j" "j < ?e"
    proof -
      have "nat a + (j - ?a) = nat off + j" using assms that by linarith
      with that assms show ?thesis by (simp add: slice_def)
    qed
    ultimately show ?thesis using nth_patch(2) [OF le l j] by auto
  qed
qed

lemma overlay_spans_nth:
  assumes "0 \<le> off" and "0 \<le> ln" and "int (length b) = ln" and "off + ln \<le> int (length file)"
  obtains b' where "overlay_spans file off ln spans b = Inr b'" and "length b' = length b"
    and "\<And>j. j < length b \<Longrightarrow>
      b' ! j = (if covered spans (off + int j) then file ! (nat off + j) else b ! j)"
proof -
  have "\<exists>b'. overlay_spans file off ln spans b = Inr b' \<and> length b' = length b \<and>
    (\<forall>j < length b. b' ! j = (if covered spans (off + int j) then file ! (nat off + j) else b ! j))"
    using assms
  proof (induction spans arbitrary: b)
    case (Cons sp spans)
    obtain start stop where sp [simp]: "sp = (start, stop)" by fastforce
    let ?a = "max64 start off" and ?e = "min64 stop (off + ln)"
    have hit: "(?a \<le> off + int j \<and> off + int j < ?e) = (start \<le> off + int j \<and> off + int j < stop)"
      if "j < length b" for j
      using that Cons.prems by (auto simp: max64_def min64_def)
    show ?case
    proof (cases "?a < ?e")
      case True
      obtain c where c: "read_into file off ?a ?e b = Inr c" "length c = length b"
        "\<And>j. j < length b \<Longrightarrow>
          c ! j = (if ?a \<le> off + int j \<and> off + int j < ?e then file ! (nat off + j) else b ! j)"
        using read_into_nth [of off ?a ?e b "file"] True Cons.prems
        by (auto simp: max64_def min64_def split: if_splits)
      with Cons.IH [of c] Cons.prems obtain b' where
        "overlay_spans file off ln spans c = Inr b'" "length b' = length c"
        "\<forall>j < length c. b' ! j = (if covered spans (off + int j) then file ! (nat off + j) else c ! j)"
        by auto
      with c True hit show ?thesis by (auto simp: Let_def)
    next
      case False
      with hit have "\<not> (start \<le> off + int j \<and> off + int j < stop)" if "j < length b" for j
        using that by force
      with Cons.IH [of b] Cons.prems False show ?thesis by (auto simp: Let_def)
    qed
  qed simp
  with that show ?thesis by blast
qed

subsection \<open>An image with data laid over it\<close>

text \<open>The specification of an overlay: every byte is the sparse file's where it has data, the
  base's in a hole.\<close>

definition laid_over :: "char option list \<Rightarrow> bytes \<Rightarrow> bytes" where
  "laid_over cells base = map2 (\<lambda>c b. case c of Some x \<Rightarrow> x | None \<Rightarrow> b) cells base"

lemma length_laid_over: "length base = length cells \<Longrightarrow> length (laid_over cells base) = length cells"
  by (simp add: laid_over_def)

lemma nth_laid_over:
  "length base = length cells \<Longrightarrow> k < length cells \<Longrightarrow>
     laid_over cells base ! k = (if cells ! k \<noteq> None then fread cells ! k else base ! k)"
  by (auto simp: laid_over_def fread_def split: option.splits)

lemma laid_over_full: "\<forall>c \<in> set cells. c \<noteq> None \<Longrightarrow> length base = length cells \<Longrightarrow> laid_over cells base = fread cells"
  by (rule nth_equalityI) (auto simp: length_laid_over nth_laid_over fread_def)

lemma nth_piece: "j < length (piece x i) \<Longrightarrow> piece x i ! j = x ! (i * CS + j)"
  by (auto simp: piece_def nth_drop less_imp_le intro!: nth_drop)

lemma piece_index: "j < length (piece x i) \<Longrightarrow> i * CS + j < length x"
  unfolding length_piece by linarith

lemma piece_eqI:
  assumes "length x = length y" and "length b = length (piece y i)"
    and "\<And>j. j < length (piece x i) \<Longrightarrow> b ! j = x ! (i * CS + j)"
  shows "b = piece x i"
  using assms by (intro nth_equalityI) (auto simp: length_piece nth_piece)

subsection \<open>Manifests as JSON\<close>

definition manifest_ok :: "manifest \<Rightarrow> bool" where
  "manifest_ok m \<longleftrightarrow> int64 (m_chunked m) = m_chunked m \<and> int64 (m_size m) = m_size m \<and>
     int64 (m_chunk m) = m_chunk m \<and> (\<forall>c \<in> set (m_chunks m). valid_utf8 c)"

lemma manifest_members:
  "member ''chunked'' [(''chunked'', a), (''size'', b), (''chunk'', c), (''chunks'', d)] =
     (if a = JNull then None else Some a)"
  "member ''size'' [(''chunked'', a), (''size'', b), (''chunk'', c), (''chunks'', d)] =
     (if b = JNull then None else Some b)"
  "member ''chunk'' [(''chunked'', a), (''size'', b), (''chunk'', c), (''chunks'', d)] =
     (if c = JNull then None else Some c)"
  "member ''chunks'' [(''chunked'', a), (''size'', b), (''chunk'', c), (''chunks'', d)] =
     (if d = JNull then None else Some d)"
  by (simp_all add: member_simps lower_def)

lemma unmarshal_marshal_manifest:
  assumes "manifest_ok m"
  shows "unmarshal_manifest (marshal_manifest m) = Some m"
proof -
  have "json_ok (manifest_json m)"
    using assms by (auto simp: manifest_json_def manifest_ok_def intro!: valid_utf8_ascii)
  then have "parse_json (marshal_manifest m) = Some (manifest_json m)"
    unfolding marshal_manifest_def by (rule parse_emit)
  with assms show ?thesis
    by (simp add: unmarshal_manifest_def manifest_json_def decode_manifest_def manifest_members
        dec_int64_itoa dec_list_strs manifest_ok_def)
qed

lemma valid_utf8_hashOf: "valid_utf8 (hashOf sha b)"
proof (rule valid_utf8_ascii)
  have "byte (hex_digit d) < 128" if "d < 16" for d
    using that by (auto simp: hex_digit_def)
  moreover have "byte d div 16 < 16" for d :: char
    using nat_of_char_less_256 [of d] by linarith
  ultimately show "\<forall>c \<in> set (hashOf sha b). byte c < 128"
    by (auto simp: hashOf_def hex_encode_def)
qed

subsection \<open>What a stored manifest stands for\<close>

text \<open>
  \<open>image_at root f m x\<close>: in the store, the manifest \<open>m\<close> describes the bytes \<open>x\<close>.
  \<open>memo_ok\<close>: the memo of zero chunks is right. \<open>grows\<close>: how a job may change the world: the
  store stays sound and only gains blobs, and nothing outside the store changes.
\<close>

definition image_at :: "path \<Rightarrow> fs \<Rightarrow> manifest \<Rightarrow> bytes \<Rightarrow> bool" where
  "image_at root f m x \<longleftrightarrow> m_chunked m = 1 \<and> m_chunk m = ChunkSize \<and> m_size m = int (length x) \<and>
     length (m_chunks m) = n_chunks (length x) \<and>
     (\<forall>i < n_chunks (length x). blobs root f (m_chunks m ! i) = Some (piece x i))"

definition memo_ok :: "hasher \<Rightarrow> 'z world_scheme \<Rightarrow> bool" where
  "memo_ok sha w \<longleftrightarrow> (\<forall>n h. zeroHashes w n = Some h \<longrightarrow> h = hashOf sha (zeros n))"

definition img_inv :: "hasher \<Rightarrow> path \<Rightarrow> bytes set \<Rightarrow> 'z world_scheme \<Rightarrow> bool" where
  "img_inv sha root B w \<longleftrightarrow> safe_store sha root B (hfs w) \<and> memo_ok sha w"

definition grows :: "hasher \<Rightarrow> path \<Rightarrow> bytes set \<Rightarrow> 'z world_scheme \<Rightarrow> 'z world_scheme \<Rightarrow> bool" where
  "grows sha root B w w' \<longleftrightarrow> (img_inv sha root B w \<longrightarrow> img_inv sha root B w') \<and>
     blobs root (hfs w) \<subseteq>\<^sub>m blobs root (hfs w') \<and>
     (\<forall>q. \<not> strict_prefix root q \<longrightarrow> fmlookup (hfs w') q = fmlookup (hfs w) q) \<and>
     umask w' = umask w \<and> lseek_ok w' = lseek_ok w \<and> world.more w' = world.more w"

lemma grows_refl [simp]: "grows sha root B w w"
  by (simp add: grows_def map_le_refl)

lemma grows_trans: "grows sha root B u v \<Longrightarrow> grows sha root B v w \<Longrightarrow> grows sha root B u w"
  by (auto simp: grows_def intro: map_le_trans)

lemma grows_inv: "img_inv sha root B w \<Longrightarrow> grows sha root B w w' \<Longrightarrow> img_inv sha root B w'"
  by (simp add: grows_def)

lemma grows_blob: "grows sha root B w w' \<Longrightarrow> blobs root (hfs w) h = Some b \<Longrightarrow> blobs root (hfs w') h = Some b"
  by (auto simp: grows_def map_le_def dom_def)

lemma grows_image: "grows sha root B w w' \<Longrightarrow> image_at root (hfs w) m x \<Longrightarrow> image_at root (hfs w') m x"
  by (auto simp: image_at_def intro: grows_blob)

lemma grows_outside:
  "grows sha root B w w' \<Longrightarrow> \<not> strict_prefix root q \<Longrightarrow> fmlookup (hfs w') q = fmlookup (hfs w) q"
  by (simp add: grows_def)

lemma image_hashes:
  assumes "safe_store sha root B f" and "image_at root f m x"
  shows "m_chunks m = map (\<lambda>i. hashOf sha (piece x i)) [0..<n_chunks (length x)]"
  using assms by (intro nth_equalityI) (auto simp: image_at_def dest!: safe_addressed)

lemma safe_Put_grows:
  assumes "img_inv sha root B w" and "b \<in> B"
  obtains w' where "Put sha root b w = (Inr (hashOf sha b), w')" and "grows sha root B w w'"
    and "blobs root (hfs w') (hashOf sha b) = Some b" and "zeroHashes w' = zeroHashes w"
proof -
  from assms(1) have s: "safe_store sha root B (hfs w)" and m: "memo_ok sha w" by (auto simp: img_inv_def)
  from safe_Put [OF s assms(2)] obtain f where f: "Put sha root b w = (Inr (hashOf sha b), w\<lparr>hfs := f\<rparr>)"
    "safe_store sha root B f" "blobs root f = (blobs root (hfs w))(hashOf sha b \<mapsto> b)"
    "\<And>q. \<not> strict_prefix root q \<Longrightarrow> fmlookup f q = fmlookup (hfs w) q"
    by metis
  have "blobs root (hfs w) \<subseteq>\<^sub>m blobs root f"
  proof (unfold map_le_def, intro ballI)
    fix h assume "h \<in> dom (blobs root (hfs w))"
    then obtain b' where b': "blobs root (hfs w) h = Some b'" by blast
    from safe_addressed [OF s b'] s assms(2) have "h = hashOf sha b \<Longrightarrow> b' = b"
      by (auto simp: safe_store_def dest: inj_onD)
    with b' f(3) show "blobs root (hfs w) h = blobs root f h" by auto
  qed
  with f m have "grows sha root B w (w\<lparr>hfs := f\<rparr>)" by (auto simp: grows_def img_inv_def memo_ok_def)
  with f that [of "w\<lparr>hfs := f\<rparr>"] show ?thesis by simp
qed

lemma zeroHash_ok:
  assumes w: "img_inv sha root B w" and "0 \<le> n" and z: "zeros n \<in> B"
  obtains w' where "zeroHash sha root n w = (Inr (hashOf sha (zeros n)), w')"
    and "grows sha root B w w'" and "blobs root (hfs w') (hashOf sha (zeros n)) = Some (zeros n)"
proof (cases "zeroHashes w n \<noteq> None \<and> Has root (hfs w) (hashOf sha (zeros n))")
  case True
  then have "blobs root (hfs w) (hashOf sha (zeros n)) = Some (zeros n)"
    using w z safe_Has [of sha root B "hfs w" "zeros n"] by (auto simp: img_inv_def)
  moreover have "zeroHashes w n = Some (hashOf sha (zeros n))"
    using True w by (auto simp: img_inv_def memo_ok_def)
  ultimately show ?thesis using True that [of w] by (simp add: zeroHash_def io)
next
  case False
  from safe_Put_grows [OF w z] obtain v where v: "Put sha root (zeros n) w = (Inr (hashOf sha (zeros n)), v)"
    "grows sha root B w v" "blobs root (hfs v) (hashOf sha (zeros n)) = Some (zeros n)" by metis
  let ?u = "v\<lparr>zeroHashes := (zeroHashes v)(n \<mapsto> hashOf sha (zeros n))\<rparr>"
  have "(case zeroHashes w n of Some h \<Rightarrow> if Has root (hfs w) h then Some h else None | None \<Rightarrow> None) = None"
    using False w by (cases "zeroHashes w n") (simp_all add: img_inv_def memo_ok_def)
  with v(1) \<open>0 \<le> n\<close> have "zeroHash sha root n w = (Inr (hashOf sha (zeros n)), ?u)"
    by (simp add: zeroHash_def io)
  moreover have "memo_ok sha ?u" if "memo_ok sha v" using that unfolding memo_ok_def by simp
  then have "img_inv sha root B ?u" using grows_inv [OF w v(2)] by (simp add: img_inv_def)
  then have "grows sha root B w ?u" using v(2) unfolding grows_def by simp
  ultimately show ?thesis using that [of ?u] v(3) by simp
qed

lemma storeChunk_ok:
  assumes w: "img_inv sha root B w" and b: "b \<in> B"
  obtains w' where "storeChunk sha root b w = (Inr (hashOf sha b, blobs root (hfs w) (hashOf sha b) = None), w')"
    and "grows sha root B w w'" and "blobs root (hfs w') (hashOf sha b) = Some b"
proof -
  note s = safe_Has [of sha root B "hfs w" b]
  from w have ok: "safe_store sha root B (hfs w)" by (simp add: img_inv_def)
  have "blobs root (hfs w) (hashOf sha b) = None \<or> blobs root (hfs w) (hashOf sha b) = Some b"
    using safe_addressed [OF ok] ok b
    by (cases "blobs root (hfs w) (hashOf sha b)") (force simp: safe_store_def dest: inj_onD)+
  then show ?thesis
  proof
    assume n: "blobs root (hfs w) (hashOf sha b) = None"
    from safe_Put_grows [OF w b] obtain v where "Put sha root b w = (Inr (hashOf sha b), v)"
      "grows sha root B w v" "blobs root (hfs v) (hashOf sha b) = Some b" by metis
    with n s ok b that [of v] show ?thesis by (simp add: storeChunk_def io Let_def)
  next
    assume "blobs root (hfs w) (hashOf sha b) = Some b"
    with s ok b that [of w] show ?thesis by (simp add: storeChunk_def io Let_def)
  qed
qed

subsection \<open>The job of one chunk\<close>

lemma dataSpans_spans: "(a, e) \<in> set (dataSpans ok cs) \<Longrightarrow> a < e"
  using dataSpans_correct(2) [of a e cs] dataSpans_unsupported [of cs]
  by (cases ok; cases "cs = []") (auto simp: dataSpans_def data_spans_from.simps)

lemma dataSpans_hole:
  "k < length cs \<Longrightarrow> \<not> covered (dataSpans ok cs) (int k) \<Longrightarrow> cs ! k = None"
  using dataSpans_correct(1) [of k cs] dataSpans_unsupported [of cs]
  by (cases ok; cases "cs = []") auto

lemma not_overlaps:
  assumes "\<And>a e. (a, e) \<in> set spans \<Longrightarrow> a < e" and "\<not> overlaps spans lo hi" and "lo \<le> k" and "k < hi"
  shows "\<not> covered spans k"
  using assms by (force simp: overlaps_def covered_def list_ex_iff)

lemma chunk_range:
  assumes "l < 2 ^ 62" and "i < n_chunks l"
  shows "int i * ChunkSize + chunkLen (int l) i \<le> int l" and "0 \<le> chunkLen (int l) i"
    and "nat (int i * ChunkSize) = i * CS"
proof -
  from chunk_start_less [OF assms(2)] have "i * CS + min CS (l - i * CS) \<le> l" by simp
  then have "int (i * CS + min CS (l - i * CS)) \<le> int l" by (simp only: of_nat_le_iff)
  then show "int i * ChunkSize + chunkLen (int l) i \<le> int l"
    by (simp only: chunkLen_eq [OF assms] ChunkSize_CS of_nat_add of_nat_mult)
  show "0 \<le> chunkLen (int l) i" by (simp add: chunkLen_eq [OF assms])
  show "nat (int i * ChunkSize) = i * CS" unfolding ChunkSize_CS by (simp flip: of_nat_mult)
qed

lemma untouched_bytes:
  assumes l: "length cells < 2 ^ 62" and i: "i < n_chunks (length cells)"
    and "\<not> overlaps (dataSpans ok cells) (int i * ChunkSize) (int i * ChunkSize + chunkLen (int (length cells)) i)"
    and j: "j < min CS (length cells - i * CS)"
  shows "cells ! (i * CS + j) = None"
proof (rule dataSpans_hole)
  from j show "i * CS + j < length cells" by linarith
  have "int i * ChunkSize \<le> int (i * CS + j)" by (simp add: ChunkSize_CS)
  moreover have "int (i * CS + j) < int i * ChunkSize + chunkLen (int (length cells)) i"
    using j by (simp add: chunkLen_eq [OF l i] ChunkSize_CS)
  ultimately show "\<not> covered (dataSpans ok cells) (int (i * CS + j))"
    using dataSpans_spans not_overlaps [OF _ assms(3)] by blast
qed

lemma untouched_piece:
  assumes "length cells < 2 ^ 62" and "i < n_chunks (length cells)"
    and "\<not> overlaps (dataSpans ok cells) (int i * ChunkSize) (int i * ChunkSize + chunkLen (int (length cells)) i)"
  shows "piece (fread cells) i = zeros (chunkLen (int (length cells)) i)"
proof (rule nth_equalityI)
  show "length (piece (fread cells) i) = length (zeros (chunkLen (int (length cells)) i))"
    by (simp add: length_piece zeros_def chunkLen_eq [OF assms(1,2)])
  fix j assume "j < length (piece (fread cells) i)"
  moreover from this piece_index have "j < min CS (length cells - i * CS)" "i * CS + j < length cells"
    by (simp add: length_piece, fastforce)
  ultimately show "piece (fread cells) i ! j = zeros (chunkLen (int (length cells)) i) ! j"
    using untouched_bytes [OF assms]
    by (simp add: nth_piece zeros_def chunkLen_eq [OF assms(1,2)] fread_def)
qed

lemma untouched_laid_over:
  assumes "length cells < 2 ^ 62" and "i < n_chunks (length cells)" and "length base = length cells"
    and "\<not> overlaps (dataSpans ok cells) (int i * ChunkSize) (int i * ChunkSize + chunkLen (int (length cells)) i)"
  shows "piece (laid_over cells base) i = piece base i"
proof (rule nth_equalityI)
  show len: "length (piece (laid_over cells base) i) = length (piece base i)"
    by (simp add: length_piece length_laid_over assms(3))
  fix j assume j: "j < length (piece (laid_over cells base) i)"
  with piece_index [OF j] have "j < min CS (length cells - i * CS)" "i * CS + j < length cells"
    by (simp_all add: length_piece length_laid_over assms(3))
  with j len show "piece (laid_over cells base) i ! j = piece base i ! j"
    using untouched_bytes [OF assms(1,2,4)] by (simp add: nth_piece nth_laid_over assms(3))
qed

lemma touched_laid_over:
  assumes "length cells < 2 ^ 62" and "i < n_chunks (length cells)" and "length base = length cells"
  shows "overlay_spans (fread cells) (int i * ChunkSize) (chunkLen (int (length cells)) i)
    (dataSpans True cells) (piece base i) = Inr (piece (laid_over cells base) i)"
proof -
  note r = chunk_range [OF assms(1,2)]
  let ?off = "int i * ChunkSize" and ?ln = "chunkLen (int (length cells)) i"
  have l: "int (length (piece base i)) = ?ln"
    by (simp add: length_piece chunkLen_eq [OF assms(1,2)] assms(3))
  have le: "?off + ?ln \<le> int (length (fread cells))" using r(1) by simp
  have off: "0 \<le> ?off" by (simp add: ChunkSize_CS)
  obtain b where b: "overlay_spans (fread cells) ?off ?ln (dataSpans True cells) (piece base i) = Inr b"
    "length b = length (piece base i)"
    "\<And>j. j < length (piece base i) \<Longrightarrow> b ! j =
       (if covered (dataSpans True cells) (?off + int j) then fread cells ! (nat ?off + j) else piece base i ! j)"
    using overlay_spans_nth [OF off r(2) l le] by metis
  have "b = piece (laid_over cells base) i"
  proof (rule nth_equalityI)
    show len: "length b = length (piece (laid_over cells base) i)"
      by (simp add: b(2) length_piece length_laid_over assms(3))
    fix j assume j: "j < length b"
    with b(2) piece_index [of j base i] have k: "i * CS + j < length cells" by (simp add: assms(3))
    have "?off + int j = int (i * CS + j)" by (simp add: ChunkSize_CS)
    with b(3) [of j] j b(2) r(3) dataSpans_correct(1) [OF k] k len
    show "b ! j = piece (laid_over cells base) i ! j"
      by (simp add: nth_piece nth_laid_over assms(3))
  qed
  with b(1) show ?thesis by simp
qed

text \<open>What the job of chunk \<open>i\<close> of an image \<open>x\<close> promises, and the jobs' common invariant.\<close>

definition stored_chunk :: "hasher \<Rightarrow> path \<Rightarrow> bytes \<Rightarrow> nat \<Rightarrow> string \<times> bool \<Rightarrow> 'z world_scheme \<Rightarrow> bool" where
  "stored_chunk sha root x i r w \<longleftrightarrow>
     fst r = hashOf sha (piece x i) \<and> blobs root (hfs w) (fst r) = Some (piece x i)"

lemma chunk_job_plain:
  assumes w: "img_inv sha root B w" and l: "length cells < 2 ^ 62" and i: "i < n_chunks (length cells)"
    and B: "piece (fread cells) i \<in> B"
  shows "\<exists>r w'. chunk_job sha root (fread cells) (dataSpans ok cells) None i w = (Inr r, w') \<and>
    grows sha root B w w' \<and> stored_chunk sha root (fread cells) i r w'"
proof (cases "overlaps (dataSpans ok cells) (int i * ChunkSize) (int i * ChunkSize + chunkLen (int (length cells)) i)")
  case True
  from storeChunk_ok [OF w B] obtain w' where
    "storeChunk sha root (piece (fread cells) i) w =
       (Inr (hashOf sha (piece (fread cells) i), blobs root (hfs w) (hashOf sha (piece (fread cells) i)) = None), w')"
    "grows sha root B w w'" "blobs root (hfs w') (hashOf sha (piece (fread cells) i)) = Some (piece (fread cells) i)"
    by metis
  with True l i slice_piece [of "fread cells" i] show ?thesis
    by (auto simp: chunk_job_def Let_def stored_chunk_def)
next
  case False
  note z = untouched_piece [OF l i False]
  from zeroHash_ok [OF w chunk_range(2) [OF l i] B [unfolded z]] obtain w' where
    "zeroHash sha root (chunkLen (int (length cells)) i) w = (Inr (hashOf sha (piece (fread cells) i)), w')"
    "grows sha root B w w'" "blobs root (hfs w') (hashOf sha (piece (fread cells) i)) = Some (piece (fread cells) i)"
    unfolding z by metis
  with False show ?thesis by (auto simp: chunk_job_def Let_def stored_chunk_def)
qed

lemma chunk_job_overlay:
  assumes w: "img_inv sha root B w" and l: "length cells < 2 ^ 62" and i: "i < n_chunks (length cells)"
    and B: "piece (laid_over cells base) i \<in> B" and m: "image_at root (hfs w) m base"
    and len: "length base = length cells"
  shows "\<exists>r w'. chunk_job sha root (fread cells) (dataSpans True cells) (Some m) i w = (Inr r, w') \<and>
    grows sha root B w w' \<and> stored_chunk sha root (laid_over cells base) i r w'"
proof -
  let ?x = "laid_over cells base"
  from w have safe: "safe_store sha root B (hfs w)" by (simp add: img_inv_def)
  from m len i have b: "i < length (m_chunks m)" "m_size m = int (length cells)"
    "blobs root (hfs w) (m_chunks m ! i) = Some (piece base i)" by (auto simp: image_at_def)
  show ?thesis
  proof (cases "overlaps (dataSpans True cells) (int i * ChunkSize) (int i * ChunkSize + chunkLen (int (length cells)) i)")
    case True
    from storeChunk_ok [OF w B] obtain w' where
      "storeChunk sha root (piece ?x i) w =
         (Inr (hashOf sha (piece ?x i), blobs root (hfs w) (hashOf sha (piece ?x i)) = None), w')"
      "grows sha root B w w'" "blobs root (hfs w') (hashOf sha (piece ?x i)) = Some (piece ?x i)" by metis
    with True b safe_Get [OF safe b(3)] touched_laid_over [OF l i len] show ?thesis
      by (auto simp: chunk_job_def Let_def io stored_chunk_def)
  next
    case False
    note u = untouched_laid_over [OF l i len False]
    from safe_addressed [OF safe b(3)] have "m_chunks m ! i = hashOf sha (piece ?x i)" by (simp add: u)
    with False b u show ?thesis by (auto simp: chunk_job_def Let_def stored_chunk_def)
  qed
qed

text \<open>The image an optional base and a sparse file make, and when the jobs can make it.\<close>

definition new_image :: "bytes option \<Rightarrow> char option list \<Rightarrow> bytes" where
  "new_image base cells = (case base of None \<Rightarrow> fread cells | Some x \<Rightarrow> laid_over cells x)"

definition jobs_ready ::
  "hasher \<Rightarrow> path \<Rightarrow> bytes set \<Rightarrow> bool \<Rightarrow> char option list \<Rightarrow> (manifest \<times> bytes) option \<Rightarrow> 'z world_scheme \<Rightarrow> bool" where
  "jobs_ready sha root B ok cells base w \<longleftrightarrow> img_inv sha root B w \<and> length cells < 2 ^ 62 \<and>
     (\<forall>i < n_chunks (length cells). piece (new_image (map_option snd base) cells) i \<in> B) \<and>
     (case base of None \<Rightarrow> True
      | Some (m, x) \<Rightarrow> ok \<and> image_at root (hfs w) m x \<and> length x = length cells)"

lemma length_new_image: "jobs_ready sha root B ok cells base w \<Longrightarrow>
    length (new_image (map_option snd base) cells) = length cells"
  by (auto simp: jobs_ready_def new_image_def length_laid_over split: option.splits prod.splits)

interpretation chunk_jobs: monotone_jobs
  "chunk_job sha root (fread cells) (dataSpans ok cells) (map_option fst base)"
  "n_chunks (length cells)" "jobs_ready sha root B ok cells base" "grows sha root B"
  "stored_chunk sha root (new_image (map_option snd base) cells)"
  for sha root cells ok base B
proof
  fix s s' :: "'a world_scheme" and i r
  assume s: "jobs_ready sha root B ok cells base s"
  show "jobs_ready sha root B ok cells base s'" if "grows sha root B s s'"
    using s that grows_inv [OF _ that] grows_image [OF that]
    by (auto simp: jobs_ready_def split: option.splits)
  show "\<exists>x s'. chunk_job sha root (fread cells) (dataSpans ok cells) (map_option fst base) i s = (Inr x, s') \<and>
      grows sha root B s s' \<and> stored_chunk sha root (new_image (map_option snd base) cells) i x s'"
    if i: "i < n_chunks (length cells)"
  proof (cases base)
    case None
    with s i chunk_job_plain [of sha root B s cells i ok] show ?thesis
      by (simp add: jobs_ready_def new_image_def)
  next
    case (Some mx)
    with s i chunk_job_overlay [of sha root B s cells i "snd mx" "fst mx"] show ?thesis
      by (simp add: jobs_ready_def new_image_def split: prod.splits)
  qed
next
  fix s t u :: "'a world_scheme" and i x
  show "grows sha root B s s" by simp
  show "grows sha root B s t \<Longrightarrow> grows sha root B t u \<Longrightarrow> grows sha root B s u" by (rule grows_trans)
  show "stored_chunk sha root (new_image (map_option snd base) cells) i x s \<Longrightarrow> grows sha root B s t \<Longrightarrow>
      stored_chunk sha root (new_image (map_option snd base) cells) i x t"
    using grows_blob [of sha root B s t] by (auto simp: stored_chunk_def)
qed

subsection \<open>Storing an image\<close>

lemma fold_update_nth:
  assumes "\<forall>(i, h, b) \<in> set rs. h = g i"
  shows "length (fold (\<lambda>(i, h, _) cs. cs[i := h]) rs cs) = length cs"
    and "i < length cs \<Longrightarrow> fold (\<lambda>(i, h, _) cs. cs[i := h]) rs cs ! i =
      (if i \<in> set (map fst rs) then g i else cs ! i)"
  using assms
proof (induction rs arbitrary: cs)
  case (Cons r rs)
  case 1
  with Cons.IH(1) show ?case by (auto split: prod.splits)
  case 2
  with Cons.IH(2) show ?case by (auto split: prod.splits simp: nth_list_update)
qed auto

lemma fill_chunks_eq:
  assumes "set (map fst rs) = {..<n}" and "\<forall>(i, h, b) \<in> set rs. h = g i"
  shows "fill_chunks n rs = map g [0..<n]"
  using fold_update_nth [OF assms(2), where cs = "replicate n []"] assms(1)
  by (auto intro!: nth_equalityI simp: fill_chunks_def)

definition image_manifest :: "hasher \<Rightarrow> bytes \<Rightarrow> manifest" where
  "image_manifest sha x = \<lparr>m_chunked = 1, m_size = int (length x), m_chunk = ChunkSize,
     m_chunks = map (\<lambda>i. hashOf sha (piece x i)) [0..<n_chunks (length x)]\<rparr>"

definition image_blob :: "hasher \<Rightarrow> bytes \<Rightarrow> bytes" where
  "image_blob sha x = marshal_manifest (image_manifest sha x)"

definition image_hash :: "hasher \<Rightarrow> bytes \<Rightarrow> string" where
  "image_hash sha x = hashOf sha (image_blob sha x)"

lemma manifest_ok_image: "length x < 2 ^ 62 \<Longrightarrow> manifest_ok (image_manifest sha x)"
  by (auto simp: manifest_ok_def image_manifest_def ChunkSize_CS valid_utf8_hashOf intro!: int64_id)

lemma ReadManifest_image:
  assumes "safe_store sha root B f" and "blobs root f (image_hash sha x) = Some (image_blob sha x)"
    and "length x < 2 ^ 62"
  shows "ReadManifest root f (image_hash sha x) = Inr (image_manifest sha x)"
  using safe_Get [OF assms(1,2)] unmarshal_marshal_manifest [OF manifest_ok_image [OF assms(3)], of sha]
  by (simp add: ReadManifest_def image_blob_def) (simp add: image_manifest_def)

text \<open>An image is stored: its manifest and every chunk are blobs of the store.\<close>

definition image_stored :: "hasher \<Rightarrow> path \<Rightarrow> fs \<Rightarrow> bytes \<Rightarrow> bool" where
  "image_stored sha root f x \<longleftrightarrow> blobs root f (image_hash sha x) = Some (image_blob sha x) \<and>
     image_at root f (image_manifest sha x) x"

lemma image_at_manifest:
  "(\<forall>i < n_chunks (length x). blobs root f (hashOf sha (piece x i)) = Some (piece x i)) \<Longrightarrow>
     image_at root f (image_manifest sha x) x"
  by (simp add: image_at_def image_manifest_def)

lemma grows_stored: "grows sha root B w w' \<Longrightarrow> image_stored sha root (hfs w) x \<Longrightarrow> image_stored sha root (hfs w') x"
  by (auto simp: image_stored_def intro: grows_blob grows_image)

text \<open>The jobs' results make the manifest of the image, whatever the order they came in.\<close>

lemma results_image:
  assumes "set (map fst rs) = {..<n_chunks (length x)}" and "\<forall>(i, r) \<in> set rs. stored_chunk sha root x i r w"
  shows "fill_chunks (n_chunks (length x)) rs = m_chunks (image_manifest sha x)"
    and "image_at root (hfs w) (image_manifest sha x) x"
proof -
  show "fill_chunks (n_chunks (length x)) rs = m_chunks (image_manifest sha x)"
    using assms fill_chunks_eq [of rs _ "\<lambda>i. hashOf sha (piece x i)"]
    by (fastforce simp: image_manifest_def stored_chunk_def)
  have "blobs root (hfs w) (hashOf sha (piece x i)) = Some (piece x i)" if i: "i < n_chunks (length x)" for i
  proof -
    from i assms(1) have "i \<in> fst ` set rs" by auto
    then obtain r where "(i, r) \<in> set rs" by force
    with assms(2) show ?thesis by (auto simp: stored_chunk_def)
  qed
  then show "image_at root (hfs w) (image_manifest sha x) x" by (intro image_at_manifest) blast
qed

text \<open>
  What \<open>putChunked\<close> stores is fixed by the bytes of the file and the spans it finds: the file
  behaves as any cells \<open>cells\<close> with those bytes and those spans.
\<close>

lemma putChunked_spans:
  assumes ready: "jobs_ready sha root B ok cells base w"
    and p: "open_cells (hfs w) p = Inr cs" and bytes: "fread cs = fread cells"
    and spans: "dataSpans (lseek_ok w) cs = dataSpans ok cells"
    and x: "x = new_image (map_option snd base) cells" and B: "image_blob sha x \<in> B"
  obtains k w' where "putChunked sha root p (map_option fst base) w = (Inr (image_hash sha x, k), w')"
    and "grows sha root B w w'" and "image_stored sha root (hfs w') x"
proof -
  from ready have l: "length cells < 2 ^ 62" by (simp add: jobs_ready_def)
  from length_new_image [OF ready] x have len: "length x = length cells" by simp
  have lc: "length cs = length cells" using arg_cong [OF bytes, of length] by simp
  let ?n = "n_chunks (length cells)"
  let ?fn = "chunk_job sha root (fread cells) (dataSpans ok cells) (map_option fst base)"
  obtain rs v where run: "parallel ?n ?fn w = (Inr rs, v)" "grows sha root B w v" "map fst rs = [0..<?n]"
    "\<forall>(i, r) \<in> set rs. stored_chunk sha root x i r v"
    using chunk_jobs.parallel_ok [OF ready] x by metis
  have im: "fill_chunks ?n rs = m_chunks (image_manifest sha x)" "image_at root (hfs v) (image_manifest sha x) x"
    using results_image [of rs x sha root v] run(3,4) len by (auto simp: atLeast0LessThan)
  have m: "\<lparr>m_chunked = 1, m_size = int (length cells), m_chunk = ChunkSize, m_chunks = fill_chunks ?n rs\<rparr> =
      image_manifest sha x"
    by (simp add: im len image_manifest_def)
  from ready run(2) have v: "img_inv sha root B v" by (auto simp: jobs_ready_def intro: grows_inv)
  from safe_Put_grows [OF v B] obtain u where u: "Put sha root (image_blob sha x) v = (Inr (image_hash sha x), u)"
    "grows sha root B v u" "blobs root (hfs u) (image_hash sha x) = Some (image_blob sha x)"
    unfolding image_hash_def by metis
  have "putChunked sha root p (map_option fst base) w = (Inr (image_hash sha x, fresh_count rs), u)"
    using run(1) u(1)
    by (simp add: putChunked_def io p bytes spans lc chunkCount_n_chunks [OF l] m putManifest_def image_blob_def Let_def)
  moreover have "grows sha root B w u" using run(2) u(2) by (rule grows_trans)
  moreover have "image_stored sha root (hfs u) x"
    using u(3) grows_image [OF u(2) im(2)] by (simp add: image_stored_def)
  ultimately show ?thesis by (rule that)
qed

lemmas putChunked_ok = putChunked_spans [OF _ _ refl refl]

text \<open>
  Where holes cannot be read, a sparse file is taken as the file with its holes filled in.
\<close>

lemma length_fdata_fread [simp]: "length (fdata (fread cs)) = length cs"
  by (simp add: fdata_def)

lemma dataSpans_full: "\<forall>c \<in> set cs. c \<noteq> None \<Longrightarrow> cs \<noteq> [] \<Longrightarrow> dataSpans True cs = [(0, int (length cs))]"
proof -
  assume full: "\<forall>c \<in> set cs. c \<noteq> None" and ne: "cs \<noteq> []"
  then have d: "seek_data True cs 0 = Inr 0" by (cases cs) (auto simp: seek_data_def)
  have "takeWhile (\<lambda>c. c \<noteq> None) cs = cs" using full by (subst takeWhile_eq_all_conv) simp
  from arg_cong [OF this, of length] have "span_end True cs 0 = length cs"
    using ne by (simp del: not_None_eq add: span_end_def seek_hole_def)
  with d ne show ?thesis by (simp add: dataSpans_def data_spans_from.simps)
qed

lemma dataSpans_without_holes: "dataSpans False cs = dataSpans True (fdata (fread cs))"
proof (cases "cs = []")
  case True
  then show ?thesis by (simp add: dataSpans_def data_spans_from.simps fdata_def fread_def)
next
  case False
  then have "fdata (fread cs) \<noteq> []" using length_fdata_fread [of cs] by force
  with False show ?thesis
    using dataSpans_full [of "fdata (fread cs)"] dataSpans_unsupported [of cs] by (auto simp: fdata_def)
qed

end
