(* ===== verification/RepoInv.thy ===== *)
theory RepoInv
  imports RepoProps ChunkedCorrect
begin

section \<open>The invariant of a repository\<close>

text \<open>
  \<open>repo_ok\<close>: the store is sound and free of collisions on \<open>B\<close>, and both directories of records
  hold only files. It depends only on what lies below the root (\<open>local_same\<close>), survives every
  growth of the store and the saving of records, and each of these changes only what it
  names.
\<close>

definition repo_ok :: "hasher \<Rightarrow> path \<Rightarrow> bytes set \<Rightarrow> 'z world_scheme \<Rightarrow> bool" where
  "repo_ok sha root B w \<longleftrightarrow> img_inv sha (root @ [''blobs'']) B w \<and>
     records_ok root ''checkpoints'' (hfs w) \<and> records_ok root ''sandboxes'' (hfs w)"

lemma CAS_path [simp]: "CAS root = root @ [''blobs'']"
  unfolding CAS_def by (rule fp_join_name) (simp add: ok_name_def)

lemma repo_okD:
  assumes "repo_ok sha root B w"
  shows "img_inv sha (root @ [''blobs'']) B w" and "safe_store sha (root @ [''blobs'']) B (hfs w)"
    and "store_ok sha (root @ [''blobs'']) (hfs w)" and "fs_ok (hfs w)" and "ok_sha sha"
    and "records_ok root ''checkpoints'' (hfs w)" and "records_ok root ''sandboxes'' (hfs w)"
  using assms by (auto simp: repo_ok_def img_inv_def safe_store_def dest: store_okD)

lemma repo_ok_root: "repo_ok sha root B w \<Longrightarrow> is_dir_at (hfs w) root"
  using fs_ok_prefix [of "hfs w" root "[''blobs'']"] repo_okD(3,4) [of sha root B w]
  by (simp add: store_okD)

subsection \<open>What depends on the files below the root only\<close>

definition local_same :: "path \<Rightarrow> 'z world_scheme \<Rightarrow> 'z world_scheme \<Rightarrow> bool" where
  "local_same root w w' \<longleftrightarrow> fs_ok (hfs w') \<and> zeroHashes w' = zeroHashes w \<and> umask w' = umask w \<and>
     (\<forall>q. prefix root q \<longrightarrow> fmlookup (hfs w') q = fmlookup (hfs w) q)"

lemma local_same_refl: "fs_ok (hfs w) \<Longrightarrow> local_same root w w"
  by (simp add: local_same_def)

lemma local_same_trans: "local_same root u v \<Longrightarrow> local_same root v w \<Longrightarrow> local_same root u w"
  by (simp add: local_same_def)

lemma local_sameD: "local_same root w w' \<Longrightarrow> fmlookup (hfs w') (root @ q) = fmlookup (hfs w) (root @ q)"
  by (simp add: local_same_def)

lemma records_agree:
  assumes "records_ok root d f" and "fs_ok g"
    and "\<And>q. fmlookup g (root @ d # q) = fmlookup f (root @ d # q)"
  shows "records_ok root d g"
  using assms(1,2) assms(3) [of "[]"] assms(3) [of "[_]"]
  by (auto simp: records_ok_def is_dir_at_def inode_at_def)

lemma getJSON_agree:
  assumes "records_ok root d f" and "records_ok root d g" and "id_ok i"
    and "fmlookup g (root @ [d, i @ ''.json'']) = fmlookup f (root @ [d, i @ ''.json''])"
  shows "getJSON root d i dec g = getJSON root d i dec f"
  using getJSON_lookup [OF assms(1,3), of dec] getJSON_lookup [OF assms(2,3), of dec] assms(4) by simp

lemma Checkpoint_agree:
  assumes "records_ok root ''checkpoints'' f" and "records_ok root ''checkpoints'' g" and "id_ok i"
    and "fmlookup g (root @ [''checkpoints'', i @ ''.json'']) = fmlookup f (root @ [''checkpoints'', i @ ''.json''])"
  shows "Checkpoint root g i = Checkpoint root f i"
  using getJSON_agree [OF assms, of dec_ckpt] by (simp add: Checkpoint_def)

lemma repo_ok_local:
  assumes "repo_ok sha root B w" and "local_same root w w'"
  shows "repo_ok sha root B w'" and "blobs (root @ [''blobs'']) (hfs w') = blobs (root @ [''blobs'']) (hfs w)"
    and "id_ok i \<Longrightarrow> Checkpoint root (hfs w') i = Checkpoint root (hfs w) i"
proof -
  have ok: "fs_ok (hfs w')" and z: "zeroHashes w' = zeroHashes w" using assms(2) by (auto simp: local_same_def)
  have e: "fmlookup (hfs w') q = fmlookup (hfs w) q" if "prefix (root @ [''blobs'']) q" for q
    using assms(2) that by (auto simp: local_same_def prefix_def)
  note r = repo_okD [OF assms(1)]
  have c: "records_ok root d (hfs w')" if "records_ok root d (hfs w)" for d
    using that ok local_sameD [OF assms(2)] by (rule records_agree)
  have "img_inv sha (root @ [''blobs'']) B w'"
    using safe_agree [OF r(2) ok e] r(1) z by (simp add: img_inv_def memo_ok_def)
  with c r(6,7) show "repo_ok sha root B w'" by (simp add: repo_ok_def)
  show "blobs (root @ [''blobs'']) (hfs w') = blobs (root @ [''blobs'']) (hfs w)"
    by (rule store_agree(2) [OF r(3) ok e])
  show "Checkpoint root (hfs w') i = Checkpoint root (hfs w) i" if "id_ok i"
    using Checkpoint_agree [OF r(6) c [OF r(6)] that] local_sameD [OF assms(2)] by simp
qed

subsection \<open>Growth of the store\<close>

lemma repo_ok_grows:
  assumes "repo_ok sha root B w" and "grows sha (root @ [''blobs'']) B w w'"
  shows "repo_ok sha root B w'" and "id_ok i \<Longrightarrow> Checkpoint root (hfs w') i = Checkpoint root (hfs w) i"
    and "\<not> prefix root q \<Longrightarrow> fmlookup (hfs w') q = fmlookup (hfs w) q"
proof -
  note r = repo_okD [OF assms(1)]
  have inv: "img_inv sha (root @ [''blobs'']) B w'" using r(1) assms(2) by (rule grows_inv)
  then have ok: "fs_ok (hfs w')" by (auto simp: img_inv_def safe_store_def dest: store_okD)
  have e: "fmlookup (hfs w') (root @ d # q) = fmlookup (hfs w) (root @ d # q)" if "d \<noteq> ''blobs''" for d q
    using grows_outside [OF assms(2), of "root @ d # q"] that by (auto simp: strict_prefix_def)
  have c: "records_ok root d (hfs w')" if "records_ok root d (hfs w)" "d \<noteq> ''blobs''" for d
    using that(1) ok e [OF that(2)] by (rule records_agree)
  with inv r(6,7) show "repo_ok sha root B w'" by (simp add: repo_ok_def)
  show "Checkpoint root (hfs w') i = Checkpoint root (hfs w) i" if "id_ok i"
    using Checkpoint_agree [OF r(6) c [OF r(6)] that] e by simp
  show "fmlookup (hfs w') q = fmlookup (hfs w) q" if "\<not> prefix root q"
    using grows_outside [OF assms(2), of q] that
    by (metis append_prefixD prefix_order.less_imp_le)
qed

subsection \<open>Saving records\<close>

lemma repo_ok_record:
  assumes "repo_ok sha root B w" and "d \<in> {''checkpoints'', ''sandboxes''}" and "records_ok root d f"
    and "f = fmupd (root @ [d, n]) (File m cs) (hfs w)"
  shows "repo_ok sha root B (w\<lparr>hfs := f\<rparr>)" and "blobs (root @ [''blobs'']) f = blobs (root @ [''blobs'']) (hfs w)"
proof -
  note r = repo_okD [OF assms(1)]
  have ok: "fs_ok f" using assms(3) by (simp add: records_ok_def)
  have e: "fmlookup f q = fmlookup (hfs w) q" if "prefix (root @ [''blobs'']) q" for q
    using that assms(2,4) by (auto simp: prefix_def)
  have o: "records_ok root d' f" if "records_ok root d' (hfs w)" "d' \<noteq> d" for d'
    using that ok assms(4) by (intro records_agree [OF that(1)]) auto
  have "img_inv sha (root @ [''blobs'']) B (w\<lparr>hfs := f\<rparr>)"
    using safe_agree [OF r(2) ok e] r(1) by (simp add: img_inv_def memo_ok_def)
  with o r(6,7) assms(2,3) show "repo_ok sha root B (w\<lparr>hfs := f\<rparr>)" by (auto simp: repo_ok_def)
  show "blobs (root @ [''blobs'']) f = blobs (root @ [''blobs'']) (hfs w)" by (rule store_agree(2) [OF r(3) ok e])
qed

lemma SaveCheckpoint_repo:
  assumes "repo_ok sha root B w" and "ckpt_ok c" and "id_ok (c_id c)"
  obtains f m cs where "SaveCheckpoint root c w = (Inr (), w\<lparr>hfs := f\<rparr>)" and "repo_ok sha root B (w\<lparr>hfs := f\<rparr>)"
    and "f = fmupd (root @ [''checkpoints'', c_id c @ ''.json'']) (File m cs) (hfs w)"
    and "blobs (root @ [''blobs'']) f = blobs (root @ [''blobs'']) (hfs w)"
    and "Checkpoint root f (c_id c) = Inr c"
    and "\<And>k. id_ok k \<Longrightarrow> k \<noteq> c_id c \<Longrightarrow> Checkpoint root f k = Checkpoint root (hfs w) k"
proof -
  note r = repo_okD [OF assms(1)]
  from putJSON_effect [OF r(6) assms(3), of "ckpt_json c"] obtain f m where
    f: "putJSON root ''checkpoints'' (c_id c) (ckpt_json c) w = (Inr (), w\<lparr>hfs := f\<rparr>)" "records_ok root ''checkpoints'' f"
    "f = fmupd (root @ [''checkpoints'', c_id c @ ''.json'']) (File m (fdata (emit (Some 0) (ckpt_json c)))) (hfs w)"
    by metis
  have y: "time_marshals (c_created c)" using assms(2) by (simp add: ckpt_ok_def time_ok_def time_read_def time_marshals_def)
  then have s: "SaveCheckpoint root c w = (Inr (), w\<lparr>hfs := f\<rparr>)" using f(1) by (simp add: SaveCheckpoint_def)
  from checkpoints.save_load [OF r(6), of c] assms(2,3) s
  have "Checkpoint root f (c_id c) = Inr c" "\<And>k. id_ok k \<Longrightarrow> k \<noteq> c_id c \<Longrightarrow> Checkpoint root f k = Checkpoint root (hfs w) k"
    by auto
  with that [OF s] repo_ok_record [OF assms(1) _ f(2) f(3)] f(3) show ?thesis by auto
qed

lemma Sandbox_found: "getJSON root ''sandboxes'' i dec_sandbox f = Inr s \<Longrightarrow> Sandbox root f i = Inr s"
  by (simp add: Sandbox_def)

lemma SaveSandbox_repo:
  assumes "repo_ok sha root B w" and "sandbox_ok s" and "id_ok (s_id s)"
  obtains f m cs where "SaveSandbox root s w = (Inr (), w\<lparr>hfs := f\<rparr>)" and "repo_ok sha root B (w\<lparr>hfs := f\<rparr>)"
    and "f = fmupd (root @ [''sandboxes'', s_id s @ ''.json'']) (File m cs) (hfs w)"
    and "blobs (root @ [''blobs'']) f = blobs (root @ [''blobs'']) (hfs w)"
    and "getJSON root ''sandboxes'' (s_id s) dec_sandbox f = Inr s"
    and "\<And>k. id_ok k \<Longrightarrow> Checkpoint root f k = Checkpoint root (hfs w) k"
proof -
  note r = repo_okD [OF assms(1)]
  from putJSON_effect [OF r(7) assms(3), of "sandbox_json s"] obtain f m where
    f: "putJSON root ''sandboxes'' (s_id s) (sandbox_json s) w = (Inr (), w\<lparr>hfs := f\<rparr>)" "records_ok root ''sandboxes'' f"
    "f = fmupd (root @ [''sandboxes'', s_id s @ ''.json'']) (File m (fdata (emit (Some 0) (sandbox_json s)))) (hfs w)"
    by metis
  have y: "time_marshals (s_created s)" using assms(2) by (simp add: sandbox_ok_def time_ok_def time_read_def time_marshals_def)
  then have s: "SaveSandbox root s w = (Inr (), w\<lparr>hfs := f\<rparr>)" using f(1) by (simp add: SaveSandbox_def)
  have "getJSON root ''sandboxes'' (s_id s) dec_sandbox f = Inr s"
    using sandboxes.save_load [OF r(7), of s] assms(2,3) s by auto
  moreover have c: "records_ok root ''checkpoints'' f"
    using repo_ok_record(1) [OF assms(1) _ f(2) f(3)] by (simp add: repo_ok_def)
  moreover have "Checkpoint root f k = Checkpoint root (hfs w) k" if "id_ok k" for k
    by (rule Checkpoint_agree [OF r(6) c that]) (simp add: f(3))
  ultimately show ?thesis using that [OF s _ f(3)] repo_ok_record [OF assms(1) _ f(2) f(3)] by auto
qed

end
