(* ===== verification/ChunkedRead.thy ===== *)
theory ChunkedRead
  imports ChunkedCorrect
begin

unbundle bit_operations_syntax

section \<open>Reassembling images\<close>

text \<open>
  \<open>GetChunkedTo\<close> (internal/cas/chunked.go) makes a file that reads as the stored image: the
  jobs that write its chunks are an instance of \<open>monotone_jobs\<close>, whatever order they run in.
  Nothing but the target file changes outside the store, and no temporary file is left.
\<close>

subsection \<open>A file outside the store\<close>

definition outside :: "path \<Rightarrow> path \<Rightarrow> fs \<Rightarrow> bool" where
  "outside root p f \<longleftrightarrow> p \<noteq> [] \<and> ok_name (last p) \<and> is_dir_at f (butlast p) \<and> \<not> is_dir_at f p \<and>
     \<not> prefix root p"

lemma outside_fmupd:
  assumes "fs_ok f" and "outside root p f" and "\<not> is_dir i"
  shows "fs_ok (fmupd p i f)" and "blobs root (fmupd p i f) = blobs root f"
    and "store_ok sha root f \<Longrightarrow> store_ok sha root (fmupd p i f)"
    and "safe_store sha root B f \<Longrightarrow> safe_store sha root B (fmupd p i f)"
proof -
  have s: "slot f p" using assms(2) by (simp add: outside_def slot_def)
  show ok: "fs_ok (fmupd p i f)" using assms s by (intro fs_ok_fmupd) (auto simp: outside_def)
  have "prefix root (blob_path root h)" for h by (simp add: prefix_def)
  with assms(2) have ne: "p \<noteq> blob_path root h" for h by (metis outside_def)
  then show bl: "blobs root (fmupd p i f) = blobs root f"
    by (auto simp: blobs_def fun_eq_iff)
  show st: "store_ok sha root (fmupd p i f)" if "store_ok sha root f"
    using that ok assms(2)
    by (auto simp: store_ok_def outside_def is_dir_at_fmupd fmlookup_dom_iff strict_prefix_def split: if_splits)
  show "safe_store sha root B (fmupd p i f)" if "safe_store sha root B f"
    using that st bl by (simp add: safe_store_def)
qed

subsection \<open>Writing at an offset\<close>

lemma write_at_nth:
  assumes "off + length b \<le> length cs"
  shows "length (write_at cs off b) = length cs"
    and "k < length cs \<Longrightarrow> write_at cs off b ! k =
      (if off \<le> k \<and> k < off + length b then Some (b ! (k - off)) else cs ! k)"
  using assms by (auto simp: write_at_def nth_append)

lemma open_cells_present: "fs_ok f \<Longrightarrow> fmlookup f p = Some (File m cs) \<Longrightarrow> open_cells f p = Inr cs"
  by (simp add: open_cells_def Stat_def stat_with_present)

lemma PWrite_effect:
  assumes "fs_ok f" and "fmlookup f p = Some (File m cs)"
  shows "PWrite p off b f = (Inr (), fmupd p (File m (write_at cs off b)) f)"
  using assms by (simp add: PWrite_def open_cells_present WriteCells_over)

subsection \<open>The jobs that write the chunks\<close>

definition cells_at :: "path \<Rightarrow> fs \<Rightarrow> char option list" where
  "cells_at p f = (case fmlookup f p of Some (File m cs) \<Rightarrow> cs | _ \<Rightarrow> [])"

text \<open>\<open>part_of x cs\<close>: a file on its way to \<open>x\<close>: every byte is still a hole or already right.\<close>

definition part_of :: "bytes \<Rightarrow> char option list \<Rightarrow> bool" where
  "part_of x cs \<longleftrightarrow> length cs = length x \<and> (\<forall>k < length x. cs ! k = None \<or> cs ! k = Some (x ! k))"

definition right_at :: "bytes \<Rightarrow> char option list \<Rightarrow> nat \<Rightarrow> bool" where
  "right_at x cs k \<longleftrightarrow> fread cs ! k = x ! k"

definition zero_hashes :: "hasher \<Rightarrow> bytes \<Rightarrow> string list \<Rightarrow> bool" where
  "zero_hashes sha x zs \<longleftrightarrow> (\<forall>i < n_chunks (length x). hashOf sha (piece x i) \<in> set zs \<longrightarrow>
     (\<forall>c \<in> set (piece x i). c = CHR 0x00))"

definition rebuilding ::
  "hasher \<Rightarrow> path \<Rightarrow> bytes set \<Rightarrow> path \<Rightarrow> mode \<Rightarrow> bytes \<Rightarrow> string list \<Rightarrow> fs \<Rightarrow> 'z world_scheme \<Rightarrow> bool" where
  "rebuilding sha root B tmp md x zs f0 w \<longleftrightarrow>
     safe_store sha root B f0 \<and> outside root tmp f0 \<and> image_at root f0 (image_manifest sha x) x \<and>
     zero_hashes sha x zs \<and>
     hfs w = fmupd tmp (File md (cells_at tmp (hfs w))) f0 \<and> part_of x (cells_at tmp (hfs w))"

definition fills ::
  "hasher \<Rightarrow> path \<Rightarrow> bytes set \<Rightarrow> path \<Rightarrow> mode \<Rightarrow> bytes \<Rightarrow> string list \<Rightarrow> fs \<Rightarrow> 'z world_scheme \<Rightarrow> 'z world_scheme \<Rightarrow> bool" where
  "fills sha root B tmp md x zs f0 w w' \<longleftrightarrow>
     (rebuilding sha root B tmp md x zs f0 w \<longrightarrow> rebuilding sha root B tmp md x zs f0 w' \<and>
       (\<forall>k < length x. right_at x (cells_at tmp (hfs w)) k \<longrightarrow> right_at x (cells_at tmp (hfs w')) k)) \<and>
     (\<forall>g. w'\<lparr>hfs := g\<rparr> = w\<lparr>hfs := g\<rparr>)"

definition chunk_right :: "path \<Rightarrow> bytes \<Rightarrow> nat \<Rightarrow> unit \<Rightarrow> 'z world_scheme \<Rightarrow> bool" where
  "chunk_right tmp x i u w \<longleftrightarrow> (\<forall>j < length (piece x i). right_at x (cells_at tmp (hfs w)) (i * CS + j))"

lemma hole_right: "part_of x cs \<Longrightarrow> k < length x \<Longrightarrow> x ! k = CHR 0x00 \<Longrightarrow> right_at x cs k"
  by (auto simp: part_of_def right_at_def fread_def split: option.splits)

lemma write_piece:
  assumes "part_of x cs" and "i < n_chunks (length x)"
  shows "part_of x (write_at cs (i * CS) (piece x i))"
    and "k < length x \<Longrightarrow> right_at x cs k \<Longrightarrow> right_at x (write_at cs (i * CS) (piece x i)) k"
    and "j < length (piece x i) \<Longrightarrow> right_at x (write_at cs (i * CS) (piece x i)) (i * CS + j)"
proof -
  from assms have l: "length cs = length x" by (simp add: part_of_def)
  with chunk_start_less [OF assms(2)] have le: "i * CS + length (piece x i) \<le> length cs"
    unfolding length_piece by linarith
  let ?n = "write_at cs (i * CS) (piece x i)"
  have nth: "?n ! k = (if i * CS \<le> k \<and> k < i * CS + length (piece x i) then Some (x ! k) else cs ! k)"
    if "k < length x" for k
    using write_at_nth(2) [OF le, of k] that l nth_piece [of "k - i * CS" x i] by auto
  show part: "part_of x ?n" using assms(1) write_at_nth(1) [OF le] nth l by (auto simp: part_of_def)
  have len: "length ?n = length x" using part by (simp add: part_of_def)
  show "right_at x ?n k" if "k < length x" "right_at x cs k"
    using that nth [of k] len l by (auto simp: right_at_def fread_def)
  show "right_at x ?n (i * CS + j)" if j: "j < length (piece x i)"
    using nth [of "i * CS + j"] piece_index [OF j] j len by (simp add: right_at_def fread_def)
qed

lemma write_job_ok:
  assumes w: "rebuilding sha root B tmp md x zs f0 w" and i: "i < n_chunks (length x)"
  shows "\<exists>u w'. write_job root tmp hash zs (m_chunks (image_manifest sha x)) i w = (Inr u, w') \<and>
    fills sha root B tmp md x zs f0 w w' \<and> chunk_right tmp x i u w'"
proof -
  let ?cs = "cells_at tmp (hfs w)" and ?h = "hashOf sha (piece x i)"
  from w have f: "hfs w = fmupd tmp (File md ?cs) f0" and part: "part_of x ?cs"
    and safe: "safe_store sha root B f0" and out: "outside root tmp f0"
    and im: "image_at root f0 (image_manifest sha x) x" and z: "zero_hashes sha x zs"
    by (auto simp: rebuilding_def)
  have h: "m_chunks (image_manifest sha x) ! i = ?h" using i by (simp add: image_manifest_def)
  show ?thesis
  proof (cases "?h \<in> set zs")
    case True
    then have "\<forall>c \<in> set (piece x i). c = CHR 0x00" using z i by (auto simp: zero_hashes_def)
    then have "right_at x ?cs (i * CS + j)" if "j < length (piece x i)" for j
      using that hole_right [OF part piece_index [OF that]] nth_piece [OF that] nth_mem [OF that] by auto
    with True h show ?thesis by (auto simp: write_job_def fills_def chunk_right_def)
  next
    case False
    have fok: "fs_ok f0" using safe store_okD(2) by (auto simp: safe_store_def)
    note o = outside_fmupd [OF fok out, of "File md ?cs"]
    have "blobs root f0 ?h = Some (piece x i)" using im i h by (auto simp: image_at_def)
    then have "Get root (hfs w) ?h = Inr (piece x i)" using o(2,4) safe f by (auto intro!: safe_Get)
    moreover have "fs_ok (hfs w)" "fmlookup (hfs w) tmp = Some (File md ?cs)"
      using o(1) f by (simp, metis fmupd_lookup)
    note pw = PWrite_effect [OF this, of "i * CS" "piece x i"]
    moreover have "fmupd tmp (File md c) (hfs w) = fmupd tmp (File md c) f0" for c
      by (subst f) (simp add: fmap_ext)
    ultimately have r: "write_job root tmp hash zs (m_chunks (image_manifest sha x)) i w =
        (Inr (), w\<lparr>hfs := fmupd tmp (File md (write_at ?cs (i * CS) (piece x i))) f0\<rparr>)"
      using False h by (simp add: write_job_def Let_def io on_fs_def ChunkSize_CS)
    let ?w = "w\<lparr>hfs := fmupd tmp (File md (write_at ?cs (i * CS) (piece x i))) f0\<rparr>"
    have c: "cells_at tmp (hfs ?w) = write_at ?cs (i * CS) (piece x i)" by (simp add: cells_at_def)
    have "rebuilding sha root B tmp md x zs f0 ?w"
      using w write_piece(1) [OF part i] unfolding rebuilding_def c by simp
    then have "fills sha root B tmp md x zs f0 w ?w"
      unfolding fills_def c using write_piece(2) [OF part i] by simp
    moreover have "chunk_right tmp x i () ?w"
      unfolding chunk_right_def c using write_piece(3) [OF part i] by simp
    ultimately show ?thesis using r by blast
  qed
qed

interpretation write_jobs: monotone_jobs
  "write_job root tmp hash zs (m_chunks (image_manifest sha x))" "n_chunks (length x)"
  "rebuilding sha root B tmp md x zs f0" "fills sha root B tmp md x zs f0" "chunk_right tmp x"
  for root tmp hash zs sha x B md f0
proof
  fix s t u :: "'a world_scheme" and i y
  show "rebuilding sha root B tmp md x zs f0 s \<Longrightarrow> i < n_chunks (length x) \<Longrightarrow>
      \<exists>y s'. write_job root tmp hash zs (m_chunks (image_manifest sha x)) i s = (Inr y, s') \<and>
        fills sha root B tmp md x zs f0 s s' \<and> chunk_right tmp x i y s'"
    by (rule write_job_ok)
  show "fills sha root B tmp md x zs f0 s s" by (simp add: fills_def)
  show "fills sha root B tmp md x zs f0 s u"
    if "fills sha root B tmp md x zs f0 s t" "fills sha root B tmp md x zs f0 t u"
    using that unfolding fills_def by simp
  assume s: "rebuilding sha root B tmp md x zs f0 s" and f: "fills sha root B tmp md x zs f0 s t"
  then show "rebuilding sha root B tmp md x zs f0 t" by (simp add: fills_def)
  show "chunk_right tmp x i y t" if "chunk_right tmp x i y s"
    using that s f piece_index by (auto simp: fills_def chunk_right_def)
qed

subsection \<open>Rebuilding the file\<close>

lemma outside_grows:
  assumes "grows sha root B w w'" and "outside root p (hfs w)"
  shows "outside root p (hfs w')" and "fmlookup (hfs w') p = fmlookup (hfs w) p"
proof -
  have "\<not> strict_prefix root q" if "prefix q p" for q
    using that assms(2) prefix_order.trans by (fastforce simp: outside_def strict_prefix_def)
  then have same: "fmlookup (hfs w') q = fmlookup (hfs w) q" if "prefix q p" for q
    using that grows_outside [OF assms(1)] by blast
  then show "fmlookup (hfs w') p = fmlookup (hfs w) p" by simp
  have "prefix (butlast p) p" by (simp add: prefixeq_butlast)
  moreover have "is_dir_at (hfs w') q = is_dir_at (hfs w) q" if "prefix q p" for q
    using same [OF that] by (simp add: is_dir_at_def inode_at_def)
  ultimately show "outside root p (hfs w')" using assms(2) by (simp add: outside_def)
qed

lemma zeros_bytes: "c \<in> set (zeros n) \<Longrightarrow> c = CHR 0x00"
  by (simp add: zeros_def)

lemma zero_or_empty_ok:
  assumes "img_inv sha root B w" and "0 \<le> n" and "zeros n \<in> B"
  obtains w' where "zero_or_empty sha root n w = (Inr (hashOf sha (zeros n)), w')" and "grows sha root B w w'"
proof -
  from zeroHash_ok [OF assms] obtain w' where "zeroHash sha root n w = (Inr (hashOf sha (zeros n)), w')"
    "grows sha root B w w'" by metis
  with that [of w'] show ?thesis by (simp add: zero_or_empty_def io)
qed

text \<open>The chunks \<open>GetChunkedTo\<close> takes for holes; both are among the byte strings considered.\<close>

definition edge_zeros :: "bytes \<Rightarrow> bytes set" where
  "edge_zeros x =
     (if x = [] then {}
      else {zeros (chunkLen (int (length x)) 0), zeros (chunkLen (int (length x)) (n_chunks (length x) - 1))})"

lemma n_chunks_0 [simp]: "n_chunks l = 0 \<longleftrightarrow> l = 0"
  using n_chunks_cover [of l] by (auto simp: n_chunks_def)

lemma zero_hashesI:
  assumes "inj_on (hashOf sha) B" and "\<forall>i < n_chunks (length x). piece x i \<in> B"
    and "zs = map (hashOf sha \<circ> zeros) ns" and "\<forall>n \<in> set ns. zeros n \<in> B"
  shows "zero_hashes sha x zs"
  unfolding zero_hashes_def
proof (intro allI impI ballI)
  fix i c assume i: "i < n_chunks (length x)" and h: "hashOf sha (piece x i) \<in> set zs" and c: "c \<in> set (piece x i)"
  from h assms(3) obtain n where "n \<in> set ns" "hashOf sha (piece x i) = hashOf sha (zeros n)" by auto
  with assms(1,2,4) i have "piece x i = zeros n" by (auto dest: inj_onD)
  with c zeros_bytes show "c = CHR 0x00" by auto
qed

lemma zero_stage_ok:
  assumes w: "img_inv sha root B w" and l: "length x < 2 ^ 62" and B: "edge_zeros x \<subseteq> B"
    and pieces: "\<forall>i < n_chunks (length x). piece x i \<in> B"
  obtains zs w' where "zero_stage sha root (image_manifest sha x) w = (Inr zs, w')"
    and "grows sha root B w w'" and "zero_hashes sha x zs"
proof (cases "x = []")
  case True
  with that [of "[]" w] show ?thesis by (simp add: zero_stage_def image_manifest_def zero_hashes_def)
next
  case False
  let ?a = "chunkLen (int (length x)) 0" and ?b = "chunkLen (int (length x)) (n_chunks (length x) - 1)"
  from False have n: "0 < n_chunks (length x)" by (simp flip: neq0_conv)
  then have ge: "0 \<le> ?a" "0 \<le> ?b" using chunk_range(2) [OF l] by auto
  from B False have z: "zeros ?a \<in> B" "zeros ?b \<in> B" by (auto simp: edge_zeros_def)
  from zero_or_empty_ok [OF w ge(1) z(1)] obtain v where
    v: "zero_or_empty sha root ?a w = (Inr (hashOf sha (zeros ?a)), v)" "grows sha root B w v" by metis
  from zero_or_empty_ok [OF grows_inv [OF w v(2)] ge(2) z(2)] obtain u where
    u: "zero_or_empty sha root ?b v = (Inr (hashOf sha (zeros ?b)), u)" "grows sha root B v u" by metis
  have "zero_hashes sha x [hashOf sha (zeros ?a), hashOf sha (zeros ?b)]"
    using w z pieces by (intro zero_hashesI [where B = B and ns = "[?a, ?b]"]) (auto simp: img_inv_def safe_store_def)
  moreover have "zero_stage sha root (image_manifest sha x) w =
      (Inr [hashOf sha (zeros ?a), hashOf sha (zeros ?b)], u)"
    using v(1) u(1) n False by (simp add: zero_stage_def image_manifest_def)
  ultimately show ?thesis using that grows_trans [OF v(2) u(2)] by blast
qed

lemma all_chunks_right:
  assumes "part_of x cs" and "\<And>i j. i < n_chunks (length x) \<Longrightarrow> j < length (piece x i) \<Longrightarrow> right_at x cs (i * CS + j)"
  shows "fread cs = x"
proof (rule nth_equalityI)
  show len: "length (fread cs) = length x" using assms(1) by (simp add: part_of_def)
  fix k assume "k < length (fread cs)"
  with len have k: "k < length x" by simp
  let ?i = "k div CS" and ?j = "k mod CS"
  have e: "?i * CS + ?j = k" by simp
  with k n_chunks_cover [of "length x"] have "?i * CS < n_chunks (length x) * CS" by linarith
  then have "?i < n_chunks (length x)" by simp
  moreover have "?j < length (piece x ?i)"
    unfolding length_piece using k e mod_less_divisor [of CS k] by linarith
  ultimately show "fread cs ! k = x ! k" using assms(2) [of ?i ?j] e by (simp add: right_at_def)
qed

lemma fmupd_fmupd [simp]: "fmupd p a (fmupd p b f) = fmupd p a f"
  by (rule fmap_ext) simp

lemma TruncateNew_effect:
  "fs_ok f \<Longrightarrow> fmlookup f p = Some (File m cs) \<Longrightarrow> 0 \<le> n \<Longrightarrow>
     TruncateNew p n f = (Inr (), fmupd p (File m (replicate (nat n) None)) f)"
  by (simp add: TruncateNew_def WriteCells_over)

definition tmp_of :: "path \<Rightarrow> path" where
  "tmp_of p = with_suffix p ''.tmp''"

lemma tmp_of_simps: "p \<noteq> [] \<Longrightarrow> tmp_of p \<noteq> p" "tmp_of p \<noteq> []" "butlast (tmp_of p) = butlast p"
  by (auto simp: tmp_of_def with_suffix_def) (metis append_butlast_last_id append_self_conv last_snoc list.distinct(1))

text \<open>Where the file is to go: outside the store, and with no temporary file in the way.\<close>

definition target_ok :: "path \<Rightarrow> path \<Rightarrow> fs \<Rightarrow> bool" where
  "target_ok root p f \<longleftrightarrow> outside root p f \<and> outside root (tmp_of p) f \<and> fmlookup f (tmp_of p) = None"

lemma GetChunkedTo_ok:
  assumes w: "img_inv sha root B w" and st: "image_stored sha root (hfs w) x" and l: "length x < 2 ^ 62"
    and B: "edge_zeros x \<subseteq> B" and t: "target_ok root p (hfs w)"
  obtains w' v md cs where "GetChunkedTo sha root (image_hash sha x) p w = (Inr (), w')"
    and "grows sha root B w v" and "w' = v\<lparr>hfs := fmupd p (File md cs) (hfs v)\<rparr>" and "fread cs = x"
proof -
  let ?m = "image_manifest sha x" and ?t = "tmp_of p" and ?md = "438 AND NOT (umask w)"
  from w have safe: "safe_store sha root B (hfs w)" by (simp add: img_inv_def)
  have rm: "ReadManifest root (hfs w) (image_hash sha x) = Inr ?m"
    using safe st l by (intro ReadManifest_image) (auto simp: image_stored_def)
  have pieces: "\<forall>i < n_chunks (length x). piece x i \<in> B"
    using st safe_addressed [OF safe] by (auto simp: image_stored_def image_at_def)
  obtain zs v where z: "zero_stage sha root ?m w = (Inr zs, v)" "grows sha root B w v" "zero_hashes sha x zs"
    using zero_stage_ok [OF w l B pieces] by metis
  have v: "safe_store sha root B (hfs v)" "umask v = umask w" "image_at root (hfs v) ?m x"
    using grows_inv [OF w z(2)] z(2) grows_image [OF z(2)] st
    by (auto simp: img_inv_def grows_def image_stored_def)
  then have ok: "fs_ok (hfs v)" using store_okD(2) by (auto simp: safe_store_def)
  from t outside_grows [OF z(2)] have tp: "outside root p (hfs v)" "outside root ?t (hfs v)"
    "fmlookup (hfs v) ?t = None" by (auto simp: target_ok_def)
  have out: "fs_ok (fmupd ?t (File m c) (hfs v))" for m c by (rule outside_fmupd(1) [OF ok tp(2)]) simp
  have cr: "WriteCells (umask v) ?t [] 438 (hfs v) = (Inr (), fmupd ?t (File ?md []) (hfs v))"
    using WriteCells_new [OF ok, of "butlast ?t" "last ?t"] tp(2,3) v(2) by (simp add: outside_def)
  have tr: "TruncateNew ?t (m_size ?m) (fmupd ?t (File ?md []) (hfs v)) =
      (Inr (), fmupd ?t (File ?md (replicate (length x) None)) (hfs v))"
    by (subst TruncateNew_effect [OF out]) (simp_all add: image_manifest_def)
  let ?u = "v\<lparr>hfs := fmupd ?t (File ?md (replicate (length x) None)) (hfs v)\<rparr>"
  have re: "rebuilding sha root B ?t ?md x zs (hfs v) ?u"
    using v z(3) tp(2) by (simp add: rebuilding_def cells_at_def part_of_def)
  obtain rs u where r: "parallel (n_chunks (length x)) (write_job root ?t (image_hash sha x) zs (m_chunks ?m)) ?u = (Inr rs, u)"
    "fills sha root B ?t ?md x zs (hfs v) ?u u" "map fst rs = [0..<n_chunks (length x)]"
    "\<forall>(i, y) \<in> set rs. chunk_right ?t x i y u"
    using write_jobs.parallel_ok [OF re, of "image_hash sha x"] by metis
  from r(2) re have ru: "rebuilding sha root B ?t ?md x zs (hfs v) u" and eu: "\<And>g. u\<lparr>hfs := g\<rparr> = v\<lparr>hfs := g\<rparr>"
    by (auto simp: fills_def)
  let ?cs = "cells_at ?t (hfs u)"
  from ru have hu: "hfs u = fmupd ?t (File ?md ?cs) (hfs v)" and pu: "part_of x ?cs" by (auto simp: rebuilding_def)
  have "chunk_right ?t x i () u" if "i < n_chunks (length x)" for i
  proof -
    from that r(3) have "i \<in> fst ` set rs" by (metis atLeastLessThan_iff list.set_map set_upt zero_le)
    with r(4) show ?thesis by auto
  qed
  then have "fread ?cs = x" by (intro all_chunks_right [OF pu]) (auto simp: chunk_right_def)
  moreover have "Rename ?t p (hfs u) = (Inr (), fmupd p (File ?md ?cs) (hfs v))"
  proof -
    have ne: "?t \<noteq> p" using tp(1) tmp_of_simps(1) by (auto simp: outside_def)
    have "butlast p \<noteq> ?t" using tmp_of_simps(3) [of p] tmp_of_simps(2) [of p]
      by (metis append_butlast_last_id append_self_conv not_Cons_self2)
    then have "is_dir_at (hfs u) (butlast p)" "\<not> is_dir_at (hfs u) p"
      using tp(1) ne by (subst hu, simp add: outside_def is_dir_at_fmupd)+
    moreover have "fmdrop ?t (hfs u) = hfs v" using tp(3) by (subst hu) (auto intro!: fmap_ext)
    moreover have "fs_ok (hfs u)" "fmlookup (hfs u) ?t = Some (File ?md ?cs)" using out by (subst hu, simp)+
    ultimately show ?thesis using Rename_over [of "hfs u" ?t ?md ?cs p] tp(1) ne by (simp add: outside_def)
  qed
  moreover have "GetChunkedTo sha root (image_hash sha x) p w =
      (Inr (), u\<lparr>hfs := fmupd p (File ?md ?cs) (hfs v)\<rparr>)" if "Rename ?t p (hfs u) = (Inr (), fmupd p (File ?md ?cs) (hfs v))"
    using rm z(1) cr tr r(1) that
    by (simp add: GetChunkedTo_def io Let_def tmp_of_def [symmetric] on_fs_def image_manifest_def)
  ultimately show ?thesis using that [of _ v ?md ?cs] z(2) eu by simp
qed

end
