(* ===== verification/CasProps.thy ===== *)
theory CasProps
  imports ChunkedRead
begin

section \<open>What package cas promises\<close>

text \<open>
  The properties of the content-addressed store and of chunked images, over the operations of
  \<open>cas.go\<close> and \<open>chunked.go\<close>, and a small concrete store on which their hypotheses hold.
\<close>

subsection \<open>A concrete store\<close>

text \<open>
  A hash for examples: 32 times the position of the argument in a list. It does not collide
  on the members of the list.
\<close>

definition find_index :: "bytes \<Rightarrow> bytes list \<Rightarrow> nat" where
  "find_index b xs = length (takeWhile (\<lambda>x. x \<noteq> b) xs)"

definition tag_sha :: "bytes list \<Rightarrow> hasher" where
  "tag_sha xs b = replicate 32 (char_of (find_index b xs))"

lemma ok_tag_sha: "ok_sha (tag_sha xs)"
  by (simp add: ok_sha_def tag_sha_def)

lemma find_index_nth: "b \<in> set xs \<Longrightarrow> find_index b xs < length xs \<and> xs ! find_index b xs = b"
  by (induction xs) (auto simp: find_index_def)

lemma tag_sha_inj:
  assumes "length xs < 256"
  shows "inj_on (hashOf (tag_sha xs)) (set xs)"
proof (rule inj_onI)
  fix a b assume ab: "a \<in> set xs" "b \<in> set xs" and "hashOf (tag_sha xs) a = hashOf (tag_sha xs) b"
  then have "tag_sha xs a = tag_sha xs b" by (auto simp: hashOf_def dest: hex_encode_inj)
  then have "(char_of (find_index a xs) :: char) = char_of (find_index b xs)"
    unfolding tag_sha_def replicate_eq_replicate by (metis zero_neq_numeral)
  then have "of_char (char_of (find_index a xs) :: char) = (of_char (char_of (find_index b xs) :: char) :: nat)"
    by (rule arg_cong)
  then have m: "find_index a xs mod 256 = find_index b xs mod 256" by (simp only: of_char_of)
  note ia = find_index_nth [OF ab(1)] and ib = find_index_nth [OF ab(2)]
  from ia ib assms have "find_index a xs < 256" "find_index b xs < 256" by linarith+
  with m have e: "find_index a xs = find_index b xs" by (metis mod_less)
  show "a = b" by (rule trans [OF conjunct2 [OF ia, symmetric, unfolded e] conjunct2 [OF ib]])
qed

lemma small_pieces: "x \<noteq> [] \<Longrightarrow> length x \<le> CS \<Longrightarrow> n_chunks (length x) = 1 \<and> piece x 0 = x"
  by (cases "length x") (auto simp: n_chunks_def piece_def intro!: div_nat_eqI)

text \<open>The manifest of an image of one chunk whose hash is \<open>t\<close> 32 times.\<close>

definition one_chunk :: "nat \<Rightarrow> bytes \<Rightarrow> bytes" where
  "one_chunk t x = marshal_manifest \<lparr>m_chunked = 1, m_size = int (length x), m_chunk = ChunkSize,
     m_chunks = [hex_encode (replicate 32 (char_of t))]\<rparr>"

lemma image_blob_one_chunk:
  "x \<noteq> [] \<Longrightarrow> length x \<le> CS \<Longrightarrow> image_blob (tag_sha xs) x = one_chunk (find_index x xs) x"
  using small_pieces [of x]
  by (simp add: image_blob_def image_manifest_def one_chunk_def hashOf_def tag_sha_def)

definition demo_blobs :: "bytes list" where
  "demo_blobs = [''abc'', ''axc'', replicate 3 (CHR 0x00), [CHR 0x00, CHR ''x'', CHR 0x00],
     one_chunk 0 ''abc'', one_chunk 1 ''axc'', one_chunk 3 [CHR 0x00, CHR ''x'', CHR 0x00]]"

definition demo_sha :: hasher where
  "demo_sha = tag_sha demo_blobs"

definition demo_fs :: fs where
  "demo_fs = fmupd [''g''] (File mode_0644 [None, Some (CHR ''x''), None])
     (fmupd [''f''] (File mode_0644 (fdata ''abc'')) (fmupd [''r''] (Dir mode_0755) fmempty))"

definition demo_world :: world where
  "demo_world = \<lparr>hfs = demo_fs, umask = 0, lseek_ok = True, zeroHashes = Map.empty\<rparr>"

lemma demo_images:
  "image_blob demo_sha ''abc'' = one_chunk 0 ''abc''" "image_blob demo_sha ''axc'' = one_chunk 1 ''axc''"
  "image_blob demo_sha [CHR 0x00, CHR ''x'', CHR 0x00] = one_chunk 3 [CHR 0x00, CHR ''x'', CHR 0x00]"
  by (simp_all add: demo_sha_def image_blob_one_chunk demo_blobs_def find_index_def numeral_3_eq_3)

lemma demo_fs_ok: "fs_ok demo_fs"
  by (auto simp: fs_ok_def demo_fs_def slot_def ok_name_def is_dir_at_def inode_at_def)

lemma demo_safe: "safe_store demo_sha [''r''] (set demo_blobs) demo_fs"
proof -
  have "store_ok demo_sha [''r''] demo_fs"
    using demo_fs_ok ok_tag_sha [of demo_blobs]
    by (auto simp: store_ok_def demo_sha_def demo_fs_def is_dir_at_def inode_at_def strict_prefix_def prefix_def)
  moreover have "blobs [''r''] demo_fs = Map.empty" by (auto simp: blobs_def demo_fs_def fun_eq_iff)
  moreover have "inj_on (hashOf demo_sha) (set demo_blobs)"
    unfolding demo_sha_def by (rule tag_sha_inj) (simp add: demo_blobs_def)
  ultimately show ?thesis by (simp add: safe_store_def)
qed

lemma demo_img_inv: "img_inv demo_sha [''r''] (set demo_blobs) demo_world"
  using demo_safe by (simp add: img_inv_def demo_world_def memo_ok_def)

lemma demo_files:
  "fmlookup (hfs demo_world) [''f''] = Some (File mode_0644 (fdata ''abc''))"
  "fmlookup (hfs demo_world) [''g''] = Some (File mode_0644 [None, Some (CHR ''x''), None])"
  by (simp_all add: demo_world_def demo_fs_def)

lemma demo_ready: "jobs_ready demo_sha [''r''] (set demo_blobs) True (fdata ''abc'') None demo_world"
  using demo_img_inv small_pieces [of "''abc''"] by (simp add: jobs_ready_def new_image_def demo_blobs_def)

text \<open>The store after \<open>PutChunked\<close> of the file \<open>f\<close>.\<close>

definition demo_stored :: world where
  "demo_stored = snd (putChunked demo_sha [''r''] [''f''] None demo_world)"

lemma demo_stored_ok:
  "grows demo_sha [''r''] (set demo_blobs) demo_world demo_stored \<and>
   img_inv demo_sha [''r''] (set demo_blobs) demo_stored \<and> image_stored demo_sha [''r''] (hfs demo_stored) ''abc''"
proof -
  have "open_cells (hfs demo_world) [''f''] = Inr (fdata ''abc'')"
    using demo_fs_ok demo_files by (intro open_cells_present) (simp_all add: demo_world_def)
  moreover have "lseek_ok demo_world" by (simp add: demo_world_def)
  moreover have "image_blob demo_sha ''abc'' \<in> set demo_blobs" by (simp add: demo_images demo_blobs_def)
  ultimately obtain k w' where "putChunked demo_sha [''r''] [''f''] None demo_world =
      (Inr (image_hash demo_sha ''abc'', k), w')"
    "grows demo_sha [''r''] (set demo_blobs) demo_world w'" "image_stored demo_sha [''r''] (hfs w') ''abc''"
    using putChunked_ok [of demo_sha "[''r'']" "set demo_blobs" demo_world "fdata ''abc''" None "[''f'']" "''abc''"]
      demo_ready by (auto simp: new_image_def)
  with grows_inv [OF demo_img_inv] show ?thesis by (simp add: demo_stored_def)
qed

subsection \<open>Storing an image\<close>

lemma image_stored_bytes:
  assumes "image_stored sha root f x"
  shows "concat (map (\<lambda>c. the (blobs root f c)) (m_chunks (image_manifest sha x))) = x"
proof -
  have "map (\<lambda>c. the (blobs root f c)) (m_chunks (image_manifest sha x)) = map (piece x) [0..<n_chunks (length x)]"
    using assms by (auto simp: image_stored_def image_at_def image_manifest_def)
  then show ?thesis by (simp add: concat_pieces)
qed

lemma putChunked_image:
  assumes "safe_store sha root B (hfs w)" and "memo_ok sha w" and "length x < 2 ^ 62"
    and "grows sha root B w w'" and "image_stored sha root (hfs w') x"
  shows "safe_store sha root B (hfs w') \<and> memo_ok sha w' \<and> blobs root (hfs w) \<subseteq>\<^sub>m blobs root (hfs w') \<and>
    (\<exists>m. ReadManifest root (hfs w') (image_hash sha x) = Inr m \<and> m_size m = int (length x) \<and>
      concat (map (\<lambda>c. the (blobs root (hfs w') c)) (m_chunks m)) = x)"
proof -
  have inv: "img_inv sha root B w'" using grows_inv [OF _ assms(4)] assms(1,2) by (simp add: img_inv_def)
  have "ReadManifest root (hfs w') (image_hash sha x) = Inr (image_manifest sha x)"
    using inv assms(3,5) by (intro ReadManifest_image) (auto simp: img_inv_def image_stored_def)
  with inv assms(4) image_stored_bytes [OF assms(5)] show ?thesis
    by (auto simp: img_inv_def grows_def image_manifest_def)
qed

text \<open>
  Property C7. \<open>PutChunked\<close> stores exactly the file: in a sound store where the image's chunks
  and manifest do not collide with each other or with a stored blob, it succeeds, the hash it
  returns reads as a manifest of the file's size whose chunks, one after the other, are the
  file's bytes; holes count as zeros. The store stays sound and loses nothing.
\<close>

theorem PutChunked_stores_file:
  assumes "safe_store sha root B (hfs w)" and "memo_ok sha w"
    and "fmlookup (hfs w) p = Some (File md cells)" and "length cells < 2 ^ 62"
    and "\<forall>i < n_chunks (length cells). piece (fread cells) i \<in> B" and "image_blob sha (fread cells) \<in> B"
  shows "\<exists>k w'. PutChunked sha root p w = (Inr (image_hash sha (fread cells), k), w') \<and>
    safe_store sha root B (hfs w') \<and> memo_ok sha w' \<and> blobs root (hfs w) \<subseteq>\<^sub>m blobs root (hfs w') \<and>
    (\<exists>m. ReadManifest root (hfs w') (image_hash sha (fread cells)) = Inr m \<and> m_size m = int (length cells) \<and>
      concat (map (\<lambda>c. the (blobs root (hfs w') c)) (m_chunks m)) = fread cells)"
proof -
  have ready: "jobs_ready sha root B (lseek_ok w) cells None w"
    using assms by (simp add: jobs_ready_def img_inv_def new_image_def)
  have "open_cells (hfs w) p = Inr cells"
    using assms(1,3) by (auto simp: safe_store_def intro: open_cells_present dest: store_okD(2))
  then obtain k w' where "putChunked sha root p None w = (Inr (image_hash sha (fread cells), k), w')"
    "grows sha root B w w'" "image_stored sha root (hfs w') (fread cells)"
    using putChunked_ok [OF ready, of p "fread cells"] assms(6) by (auto simp: new_image_def)
  with putChunked_image [OF assms(1,2), of "fread cells" w'] assms(4) show ?thesis
    by (auto simp: PutChunked_def)
qed

theorem PutChunked_stores_file_witness:
  "\<exists>k w'. PutChunked demo_sha [''r''] [''f''] demo_world = (Inr (image_hash demo_sha ''abc'', k), w') \<and>
    (\<exists>m. ReadManifest [''r''] (hfs w') (image_hash demo_sha ''abc'') = Inr m \<and> m_size m = 3 \<and>
      concat (map (\<lambda>c. the (blobs [''r''] (hfs w') c)) (m_chunks m)) = ''abc'')"
  using PutChunked_stores_file [of demo_sha "[''r'']" "set demo_blobs" demo_world "[''f'']" mode_0644 "fdata ''abc''"]
    demo_img_inv demo_files small_pieces [of "''abc''"]
  by (auto simp: img_inv_def demo_blobs_def demo_images)

text \<open>
  Property C5. \<open>PutChunkedOverlay\<close> stores the base image with the data regions of the sparse
  file laid over it, byte for byte, where the filesystem reports holes and the file has the
  base's size; every chunk in which the file has no data keeps the base's hash.
\<close>

theorem PutChunkedOverlay_lays_over:
  assumes "safe_store sha root B (hfs w)" and "memo_ok sha w" and "lseek_ok w"
    and "fmlookup (hfs w) p = Some (File md cells)" and "length cells < 2 ^ 62"
    and "ReadManifest root (hfs w) bh = Inr m" and "image_at root (hfs w) m base" and "length base = length cells"
    and "\<forall>i < n_chunks (length cells). piece (laid_over cells base) i \<in> B"
    and "image_blob sha (laid_over cells base) \<in> B"
  shows "\<exists>k w'. PutChunkedOverlay sha root p bh w = (Inr (image_hash sha (laid_over cells base), k), w') \<and>
    safe_store sha root B (hfs w') \<and> memo_ok sha w' \<and> blobs root (hfs w) \<subseteq>\<^sub>m blobs root (hfs w') \<and>
    (\<exists>m'. ReadManifest root (hfs w') (image_hash sha (laid_over cells base)) = Inr m' \<and>
      m_size m' = int (length cells) \<and>
      concat (map (\<lambda>c. the (blobs root (hfs w') c)) (m_chunks m')) = laid_over cells base \<and>
      (\<forall>i < n_chunks (length cells). (\<forall>c \<in> set (take CS (drop (i * CS) cells)). c = None) \<longrightarrow>
         m_chunks m' ! i = m_chunks m ! i))"
proof -
  let ?x = "laid_over cells base"
  have ready: "jobs_ready sha root B (lseek_ok w) cells (Some (m, base)) w"
    using assms by (simp add: jobs_ready_def img_inv_def new_image_def)
  have len: "length ?x = length cells" using assms(8) by (rule length_laid_over)
  have "open_cells (hfs w) p = Inr cells"
    using assms(1,4) by (auto simp: safe_store_def intro: open_cells_present dest: store_okD(2))
  then obtain k w' where put: "putChunked sha root p (Some m) w = (Inr (image_hash sha ?x, k), w')"
    "grows sha root B w w'" "image_stored sha root (hfs w') ?x"
    using putChunked_ok [OF ready, of p ?x] assms(10) by (auto simp: new_image_def)
  have "piece ?x i = piece base i" if none: "\<forall>c \<in> set (take CS (drop (i * CS) cells)). c = None" for i
  proof -
    have "piece ?x i ! j = piece base i ! j" if j: "j < length (piece ?x i)" for j
    proof -
      note k = piece_index [OF j]
      from j len have "j < length (take CS (drop (i * CS) cells))" by (simp add: length_piece)
      from nth_mem [OF this] none this have "cells ! (i * CS + j) = None" by fastforce
      with k j len assms(8) show ?thesis by (simp add: nth_piece length_piece nth_laid_over)
    qed
    then show ?thesis using len assms(8) by (intro nth_equalityI) (auto simp: length_piece)
  qed
  then have "m_chunks (image_manifest sha ?x) ! i = m_chunks m ! i"
    if "i < n_chunks (length cells)" "\<forall>c \<in> set (take CS (drop (i * CS) cells)). c = None" for i
    using that image_hashes [OF assms(1,7)] assms(8) len by (simp add: image_manifest_def)
  moreover have "ReadManifest root (hfs w') (image_hash sha ?x) = Inr (image_manifest sha ?x)"
    using grows_inv [OF _ put(2)] assms(1,2,5) put(3) len
    by (intro ReadManifest_image) (auto simp: img_inv_def image_stored_def)
  ultimately show ?thesis
    using putChunked_image [OF assms(1,2) _ put(2,3)] put(1) assms(5,6) len
    by (auto simp: PutChunkedOverlay_def io)
qed

theorem PutChunkedOverlay_lays_over_witness:
  "\<exists>k w'. PutChunkedOverlay demo_sha [''r''] [''g''] (image_hash demo_sha ''abc'') demo_stored =
      (Inr (image_hash demo_sha ''axc'', k), w') \<and>
    (\<exists>m'. ReadManifest [''r''] (hfs w') (image_hash demo_sha ''axc'') = Inr m' \<and>
      concat (map (\<lambda>c. the (blobs [''r''] (hfs w') c)) (m_chunks m')) = ''axc'')"
proof -
  let ?c = "[None, Some (CHR ''x''), None]"
  have x: "laid_over ?c ''abc'' = ''axc''" by (simp add: laid_over_def)
  have inv: "safe_store demo_sha [''r''] (set demo_blobs) (hfs demo_stored)" "memo_ok demo_sha demo_stored"
    using demo_stored_ok by (auto simp: img_inv_def)
  have l: "lseek_ok demo_stored" using demo_stored_ok by (simp add: grows_def demo_world_def)
  have g: "fmlookup (hfs demo_stored) [''g''] = Some (File mode_0644 ?c)"
    using grows_outside [OF conjunct1 [OF demo_stored_ok], of "[''g'']"] demo_files(2)
    by (simp add: strict_prefix_def)
  have m: "ReadManifest [''r''] (hfs demo_stored) (image_hash demo_sha ''abc'') = Inr (image_manifest demo_sha ''abc'')"
    using demo_stored_ok inv(1) by (intro ReadManifest_image) (auto simp: image_stored_def)
  have a: "image_at [''r''] (hfs demo_stored) (image_manifest demo_sha ''abc'') ''abc''"
    using demo_stored_ok by (simp add: image_stored_def)
  have B: "\<forall>i < n_chunks (length ?c). piece (laid_over ?c ''abc'') i \<in> set demo_blobs"
    "image_blob demo_sha (laid_over ?c ''abc'') \<in> set demo_blobs"
    using small_pieces [of "''axc''"] by (simp_all add: x demo_images demo_blobs_def)
  show ?thesis
    using PutChunkedOverlay_lays_over [OF inv l g _ m a _ B] by (auto simp: x)
qed



text \<open>
  Property C10. The pool always ends: it has no infinite run, and while a worker exists and the
  run is not finished some worker can take a step, whatever the jobs do.
\<close>

theorem parallel_terminates:
  fixes fn :: "nat \<Rightarrow> ('s, 'a) io"
  shows "\<not> (\<exists>run. run 0 = pool_start s \<and> (\<forall>k. pool_step workers n fn (run k) (run (Suc k)))) \<and>
    (\<forall>p. pool_reach (Suc workers) n fn s p \<and> \<not> pool_finished n p \<longrightarrow> (\<exists>q. pool_step (Suc workers) n fn p q))"
proof (intro conjI allI impI)
  fix p assume "pool_reach (Suc workers) n fn s p \<and> \<not> pool_finished n p"
  then show "\<exists>q. pool_step (Suc workers) n fn p q"
    by (intro pool_not_stuck [where n = n and p = p, OF zero_less_Suc pool_books_reach [where fn = fn and s = s]]) simp_all
next
  show "\<not> (\<exists>run. run 0 = pool_start s \<and> (\<forall>k. pool_step workers n fn (run k) (run (Suc k))))"
  proof
    assume "\<exists>run. run 0 = pool_start s \<and> (\<forall>k. pool_step workers n fn (run k) (run (Suc k)))"
    then obtain run where r: "run 0 = pool_start s" "\<And>k. pool_step workers n fn (run k) (run (Suc k))" by blast
    have reach: "pool_reach workers n fn s (run k)" for k
      using r by (induction k) (auto intro: rtranclp.rtrancl_into_rtrancl)
    have "pool_measure n (run (Suc k)) < pool_measure n (run k)" for k
      using pool_measure_step [OF r(2) pool_books_reach [OF reach]] .
    then show False
      using wf_no_infinite_down_chainE [OF wf_less_than, of "\<lambda>k. pool_measure n (run k)"] by (metis less_than_iff)
  qed
qed

theorem parallel_terminates_witness:
  "\<exists>q. pool_step 1 1 (\<lambda>i. ret i) (pool_start (0::nat)) q"
  using parallel_terminates [of "0::nat" 0 1 "\<lambda>i. ret i"] by (force simp: pool_finished_def pool_start_def)

text \<open>
  Property C11. Where the filesystem supports \<open>SEEK_DATA\<close> and \<open>SEEK_HOLE\<close>, the spans
  \<open>dataSpans\<close> returns cover exactly the bytes of the file that are data.
\<close>

theorem dataSpans_exact: "{k. covered (dataSpans True cs) k} = int ` {k. k < length cs \<and> cs ! k \<noteq> None}"
proof -
  have "\<exists>j. k = int j \<and> j < length cs" if "covered (dataSpans True cs) k" for k
  proof -
    from that obtain a e where "(a, e) \<in> set (dataSpans True cs)" "a \<le> k" "k < e" by (auto simp: covered_def)
    with dataSpans_correct(2) [of a e cs] show ?thesis by (intro exI [of _ "nat k"]) auto
  qed
  then show ?thesis using dataSpans_correct(1) by blast
qed

subsection \<open>Reading an image back\<close>

text \<open>
  Property C6. The round trip: after \<open>PutChunked\<close> of a file, \<open>GetChunkedTo\<close> of the hash it
  returned succeeds and makes a file with the same bytes; nothing else outside the store is
  changed, in particular no temporary file is left.
\<close>

theorem GetChunkedTo_PutChunked:
  assumes "safe_store sha root B (hfs w)" and "memo_ok sha w"
    and "fmlookup (hfs w) p = Some (File md cells)" and "length cells < 2 ^ 62"
    and "\<forall>i < n_chunks (length cells). piece (fread cells) i \<in> B" and "image_blob sha (fread cells) \<in> B"
    and "edge_zeros (fread cells) \<subseteq> B" and "target_ok root q (hfs w)"
  shows "\<exists>h k w1 w2. PutChunked sha root p w = (Inr (h, k), w1) \<and> GetChunkedTo sha root h q w1 = (Inr (), w2) \<and>
    ReadFile (hfs w2) q = Inr (fread cells) \<and>
    (\<forall>r. \<not> strict_prefix root r \<and> r \<noteq> q \<longrightarrow> fmlookup (hfs w2) r = fmlookup (hfs w) r)"
proof -
  have ready: "jobs_ready sha root B (lseek_ok w) cells None w"
    using assms by (simp add: jobs_ready_def img_inv_def new_image_def)
  have "open_cells (hfs w) p = Inr cells"
    using assms(1,3) by (auto simp: safe_store_def intro: open_cells_present dest: store_okD(2))
  then obtain k w1 where put: "putChunked sha root p None w = (Inr (image_hash sha (fread cells), k), w1)"
    "grows sha root B w w1" "image_stored sha root (hfs w1) (fread cells)"
    using putChunked_ok [OF ready, of p "fread cells"] assms(6) by (auto simp: new_image_def)
  have inv: "img_inv sha root B w1" using grows_inv [OF _ put(2)] assms(1,2) by (simp add: img_inv_def)
  have t: "target_ok root q (hfs w1)"
    using assms(8) outside_grows [OF put(2)] by (auto simp: target_ok_def)
  obtain w2 v md' cs where get: "GetChunkedTo sha root (image_hash sha (fread cells)) q w1 = (Inr (), w2)"
    "grows sha root B w1 v" "w2 = v\<lparr>hfs := fmupd q (File md' cs) (hfs v)\<rparr>" "fread cs = fread cells"
    using GetChunkedTo_ok [OF inv put(3) _ assms(7) t] assms(4) by (metis length_fread)
  have "fs_ok (hfs v)" using grows_inv [OF inv get(2)] store_okD(2) by (auto simp: img_inv_def safe_store_def)
  moreover have "outside root q (hfs v)" using t outside_grows [OF get(2)] by (auto simp: target_ok_def)
  ultimately have "fs_ok (hfs w2)" using outside_fmupd(1) [of "hfs v" root q] get(3) by simp
  then have "ReadFile (hfs w2) q = Inr (fread cells)"
    using get(3,4) ReadFile_present [of "hfs w2" q md' cs] by simp
  moreover have "fmlookup (hfs w2) r = fmlookup (hfs w) r" if "\<not> strict_prefix root r" "r \<noteq> q" for r
    using that get(3) grows_outside [OF get(2)] grows_outside [OF put(2)] by simp
  ultimately show ?thesis using put(1) get(1) by (auto simp: PutChunked_def)
qed

lemma demo_edge_zeros: "edge_zeros ''abc'' \<subseteq> set demo_blobs"
proof -
  have "n_chunks 3 = 1" using small_pieces [of "''abc''"] by (simp add: numeral_3_eq_3)
  then have "chunkLen 3 0 = 3" using chunkLen_eq [of 3 0] by simp
  then show ?thesis using \<open>n_chunks 3 = 1\<close> by (simp add: numeral_3_eq_3 [symmetric] edge_zeros_def zeros_def demo_blobs_def)
qed

theorem GetChunkedTo_PutChunked_witness:
  "\<exists>h k w1 w2. PutChunked demo_sha [''r''] [''f''] demo_world = (Inr (h, k), w1) \<and>
    GetChunkedTo demo_sha [''r''] h [''o''] w1 = (Inr (), w2) \<and> ReadFile (hfs w2) [''o''] = Inr ''abc''"
proof -
  have "target_ok [''r''] [''o''] (hfs demo_world)"
    by (auto simp: target_ok_def outside_def demo_world_def demo_fs_def ok_name_def tmp_of_def with_suffix_def
        is_dir_at_def inode_at_def)
  then show ?thesis
    using GetChunkedTo_PutChunked [of demo_sha "[''r'']" "set demo_blobs" demo_world "[''f'']" mode_0644
        "fdata ''abc''" "[''o'']"]
      demo_img_inv demo_files small_pieces [of "''abc''"] demo_edge_zeros
    by (auto simp: img_inv_def demo_blobs_def demo_images)
qed

subsection \<open>Where holes cannot be read\<close>

text \<open>
  Property C12. Where the filesystem does not support \<open>SEEK_DATA\<close>, \<open>dataSpans\<close> takes the whole
  file for data, and \<open>PutChunkedOverlay\<close> of a sparse file of the base's size stores the sparse
  file alone, its holes as zeros: the hash it returns is that of the file's own image and the
  chunks of the stored manifest, one after the other, are the file's bytes, nothing of the base.
\<close>

theorem overlay_without_holes_drops_base:
  assumes "safe_store sha root B (hfs w)" and "memo_ok sha w" and "\<not> lseek_ok w"
    and "fmlookup (hfs w) p = Some (File md cells)" and "length cells < 2 ^ 62"
    and "ReadManifest root (hfs w) bh = Inr m" and "image_at root (hfs w) m base" and "length base = length cells"
    and "\<forall>i < n_chunks (length cells). piece (fread cells) i \<in> B" and "image_blob sha (fread cells) \<in> B"
  shows "\<exists>k w'. PutChunkedOverlay sha root p bh w = (Inr (image_hash sha (fread cells), k), w') \<and>
    (\<exists>m'. ReadManifest root (hfs w') (image_hash sha (fread cells)) = Inr m' \<and> m_size m' = int (length cells) \<and>
      concat (map (\<lambda>c. the (blobs root (hfs w') c)) (m_chunks m')) = fread cells)"
proof -
  let ?full = "fdata (fread cells)"
  have over: "laid_over ?full base = fread cells"
    using laid_over_full [of ?full base] assms(8) by (auto simp: fdata_def fread_def o_def)
  have ready: "jobs_ready sha root B True ?full (Some (m, base)) w"
    using assms over by (simp add: jobs_ready_def img_inv_def new_image_def)
  have o: "open_cells (hfs w) p = Inr cells"
    using assms(1,4) by (auto simp: safe_store_def intro: open_cells_present dest: store_okD(2))
  have s: "dataSpans (lseek_ok w) cells = dataSpans True ?full"
    using assms(3) by (simp add: dataSpans_without_holes)
  obtain k w' where put: "putChunked sha root p (Some m) w = (Inr (image_hash sha (fread cells), k), w')"
    "grows sha root B w w'" "image_stored sha root (hfs w') (fread cells)"
    using putChunked_spans [OF ready o _ s, of "fread cells"] assms(10) over by (auto simp: new_image_def)
  with putChunked_image [OF assms(1,2) _ put(2,3)] assms(5,6) show ?thesis
    by (auto simp: PutChunkedOverlay_def io)
qed

theorem overlay_without_holes_drops_base_witness:
  "\<exists>k w'. PutChunkedOverlay demo_sha [''r''] [''g''] (image_hash demo_sha ''abc'') (demo_stored\<lparr>lseek_ok := False\<rparr>) =
      (Inr (image_hash demo_sha (fread [None, Some (CHR ''x''), None]), k), w') \<and>
    (\<exists>m'. ReadManifest [''r''] (hfs w') (image_hash demo_sha (fread [None, Some (CHR ''x''), None])) = Inr m' \<and>
      concat (map (\<lambda>c. the (blobs [''r''] (hfs w') c)) (m_chunks m')) = [CHR 0x00, CHR ''x'', CHR 0x00])"
proof -
  let ?c = "[None, Some (CHR ''x''), None]" and ?w = "demo_stored\<lparr>lseek_ok := False\<rparr>"
  have x: "fread ?c = [CHR 0x00, CHR ''x'', CHR 0x00]" by (simp add: fread_def)
  have inv: "safe_store demo_sha [''r''] (set demo_blobs) (hfs ?w)" "memo_ok demo_sha ?w"
    using demo_stored_ok by (auto simp: img_inv_def memo_ok_def)
  have g: "fmlookup (hfs ?w) [''g''] = Some (File mode_0644 ?c)"
    using grows_outside [OF conjunct1 [OF demo_stored_ok], of "[''g'']"] demo_files(2)
    by (simp add: strict_prefix_def)
  have m: "ReadManifest [''r''] (hfs ?w) (image_hash demo_sha ''abc'') = Inr (image_manifest demo_sha ''abc'')"
    using demo_stored_ok inv(1) by (simp, intro ReadManifest_image) (auto simp: image_stored_def)
  have a: "image_at [''r''] (hfs ?w) (image_manifest demo_sha ''abc'') ''abc''"
    using demo_stored_ok by (simp add: image_stored_def)
  have B: "\<forall>i < n_chunks (length ?c). piece (fread ?c) i \<in> set demo_blobs" "image_blob demo_sha (fread ?c) \<in> set demo_blobs"
    using small_pieces [of "fread ?c"] demo_images by (simp_all add: x demo_blobs_def)
  show ?thesis
    using overlay_without_holes_drops_base [OF inv _ g _ m a _ B] by (auto simp: x)
qed

subsection \<open>Single blobs\<close>

text \<open>
  Property C8. \<open>Put\<close> implements the insertion of a content-addressed map: in a sound store it
  always succeeds and returns the hash of its argument, the store stays sound, and what it
  holds afterwards is what it held before with that one binding added, unless the hash was
  there already. With no collision, \<open>Get\<close> and \<open>Has\<close> then find the argument.
\<close>

theorem Put_refines_insert:
  assumes "store_ok sha root (hfs w)"
  shows "\<exists>w'. Put sha root b w = (Inr (hashOf sha b), w') \<and> store_ok sha root (hfs w') \<and>
    blobs root (hfs w') = (if blobs root (hfs w) (hashOf sha b) = None
      then (blobs root (hfs w))(hashOf sha b \<mapsto> b) else blobs root (hfs w)) \<and>
    Has root (hfs w') (hashOf sha b) \<and>
    (blobs root (hfs w) (hashOf sha b) \<in> {None, Some b} \<longrightarrow> Get root (hfs w') (hashOf sha b) = Inr b)"
proof -
  obtain w' where w': "Put sha root b w = (Inr (hashOf sha b), w')" "store_ok sha root (hfs w')"
    using cas.put_total [OF assms, of b] by blast
  have bl: "blobs root (hfs w') = (if blobs root (hfs w) (hashOf sha b) = None
      then (blobs root (hfs w))(hashOf sha b \<mapsto> b) else blobs root (hfs w))"
    using cas.put_new [OF assms, of b] cas.put_present [OF assms, of b] w'(1)
    by (cases "blobs root (hfs w) (hashOf sha b)") auto
  moreover have "Has root (hfs w') (hashOf sha b)"
    using cas.put_stored [OF assms w'(1)] cas.has_present [OF w'(2)] by blast
  moreover have "Get root (hfs w') (hashOf sha b) = Inr b" if "blobs root (hfs w) (hashOf sha b) \<in> {None, Some b}"
    using that bl by (intro cas.get_present [OF w'(2)]) auto
  ultimately show ?thesis using w' by blast
qed

theorem Put_refines_insert_witness:
  "\<exists>w'. Put demo_sha [''r''] ''abc'' demo_world = (Inr (hashOf demo_sha ''abc''), w') \<and>
    Get [''r''] (hfs w') (hashOf demo_sha ''abc'') = Inr ''abc''"
proof -
  have "store_ok demo_sha [''r''] (hfs demo_world)" using demo_safe by (simp add: safe_store_def demo_world_def)
  moreover have "blobs [''r''] (hfs demo_world) h = None" for h
    by (simp add: blobs_def demo_world_def demo_fs_def)
  ultimately show ?thesis using Put_refines_insert [of demo_sha "[''r'']" demo_world "''abc''"] by auto
qed

end
