(* ===== verification/SnapProps.thy ===== *)
theory SnapProps
  imports CasProps Restore
begin

unbundle bit_operations_syntax

section \<open>Snapshots and restores over the store\<close>

text \<open>
  The store as a \<open>Blober\<close>, what a snapshot into it holds, that a snapshot is a well-formed
  tree, and that restoring a snapshot makes a copy of the directory.
\<close>

subsection \<open>The store is a Blober\<close>

definition has_blob :: "hasher \<Rightarrow> path \<Rightarrow> 'z world_scheme \<Rightarrow> bytes \<Rightarrow> bool" where
  "has_blob sha root w b \<longleftrightarrow> blobs root (hfs w) (hashOf sha b) = Some b"

interpretation cas_blober: blober "PutFile sha root" "hashOf sha" "img_inv sha root B" "grows sha root B"
  "\<lambda>q. \<not> strict_prefix root q" "\<lambda>b. b \<in> B" "has_blob sha root"
  for sha root B
proof
  fix w w' u v :: "'a world_scheme" and p q m cs b
  assume "img_inv sha root B w"
  then have safe: "safe_store sha root B (hfs w)" and inv: "img_inv sha root B w" by (simp_all add: img_inv_def)
  then have ok: "store_ok sha root (hfs w)" by (simp add: safe_store_def)
  show "\<exists>w'. PutFile sha root p w = (Inr (hashOf sha (fread cs), int (length cs)), w') \<and>
      grows sha root B w w' \<and> has_blob sha root w' (fread cs)"
    if f: "fmlookup (hfs w) p = Some (File m cs)" and B: "fread cs \<in> B"
  proof -
    from safe_Put_grows [OF inv B] obtain w' where "Put sha root (fread cs) w = (Inr (hashOf sha (fread cs)), w')"
      "grows sha root B w w'" "blobs root (hfs w') (hashOf sha (fread cs)) = Some (fread cs)" by metis
    with PutFile_effect [OF ok ReadFile_present [OF store_okD(2) [OF ok] f]] show ?thesis
      by (simp add: has_blob_def)
  qed
  show "grows sha root B w w' \<Longrightarrow> img_inv sha root B w'" by (rule grows_inv [OF inv])
qed (auto intro: grows_trans grows_outside grows_blob simp: has_blob_def)

subsection \<open>A snapshot is a well-formed tree\<close>

lemma below_names:
  assumes "fs_ok f" and "(r, i) \<in> set (below f q)"
  shows "r \<noteq> []" and "\<forall>n \<in> set r. ok_name n"
proof -
  from assms(2) have l: "fmlookup f (q @ r) = Some i" and "r \<noteq> []" by (simp_all add: set_below)
  then show "r \<noteq> []" by simp
  from fs_okD(2,3) [OF assms(1) l] fs_ok_names [OF assms(1) fs_okD(3) [OF assms(1) l]] \<open>r \<noteq> []\<close>
  show "\<forall>n \<in> set r. ok_name n" by (cases r rule: rev_cases) (auto simp: butlast_append)
qed

lemma entry_of_path: "e \<in> set (entry_of hash (r, i)) \<Longrightarrow> e_path e = rel_text r \<and> (e_dir e \<longleftrightarrow> is_dir i)"
  by (cases i) (auto simp: no_entry_def)

lemma entry_of_epath:
  "fs_ok f \<Longrightarrow> (r, i) \<in> set (below f q) \<Longrightarrow> e \<in> set (entry_of hash (r, i)) \<Longrightarrow> epath e = r"
  using below_names [of f r i q] entry_of_path [of e hash r i] by (intro epath_eq) auto

lemma rel_text_inj:
  "r \<noteq> [] \<Longrightarrow> s \<noteq> [] \<Longrightarrow> \<forall>n \<in> set r. ok_name n \<Longrightarrow> \<forall>n \<in> set s. ok_name n \<Longrightarrow> rel_text r = rel_text s \<Longrightarrow> r = s"
  unfolding rel_text_def by (metis split_on_join_with ok_nameD)

lemma entries_distinct:
  assumes "fs_ok f" and "set l \<subseteq> set (below f q)" and "distinct (map fst l)"
  shows "distinct (map e_path (concat (map (entry_of hash) l)))"
  using assms(2,3)
proof (induction l)
  case (Cons x l)
  obtain r i where x: "x = (r, i)" by fastforce
  have "distinct (map e_path (entry_of hash x))" by (cases i) (auto simp: x)
  moreover have "e_path e \<noteq> e_path e'" if "e \<in> set (entry_of hash x)" "y \<in> set l" "e' \<in> set (entry_of hash y)" for e e' y
  proof -
    obtain s j where y: "y = (s, j)" by fastforce
    with that x Cons.prems have m: "(r, i) \<in> set (below f q)" "(s, j) \<in> set (below f q)" by auto
    have "s \<in> fst ` set l" using that(2) y by force
    with Cons.prems(2) x have "r \<noteq> s" by auto
    note m = m this
    with that x y entry_of_epath [OF assms(1)] have "epath e = r" "epath e' = s" by blast+
    with m(3) show ?thesis by (auto simp: epath_def)
  qed
  ultimately show ?case using Cons by fastforce
qed simp

lemma visible_subset: "set (visible ign l) \<subseteq> set l"
  by (auto simp: visible_def)

lemma visible_parent:
  assumes "fs_ok f" and "(r, i) \<in> set (visible ign (below f q))" and "strict_prefix d r" and "d \<noteq> []"
  shows "\<exists>m. (d, Dir m) \<in> set (visible ign (below f q))"
proof -
  from assms(2) have l: "fmlookup f (q @ r) = Some i" and h: "\<not> hidden_by ign (below f q) r"
    by (auto simp: visible_def set_below)
  from assms(3) have "strict_prefix (q @ d) (q @ r)" by (simp add: strict_prefix_def)
  from fs_ok_above [OF assms(1) l this] assms(4) obtain m where "fmlookup f (q @ d) = Some (Dir m)"
    by (auto simp: inode_at_lookup elim!: is_dir_atE)
  with assms(4) have m: "(d, Dir m) \<in> set (below f q)" by (simp add: set_below)
  have up: "hidden_by ign (below f q) r" if "x \<in> set (below f q)" "is_dir (snd x)" "ignored ign x" "prefix (fst x) d" for x
    using that assms(3) prefix_order.le_less_trans [of "fst x" d r] by (auto simp: hidden_by_def)
  from up [OF m] h have "\<not> ignored ign (d, Dir m)" by auto
  moreover have "\<not> hidden_by ign (below f q) d"
    using up h by (auto simp: hidden_by_def strict_prefix_def)
  ultimately show ?thesis using m by (auto simp: visible_def)
qed

definition snapshot_tree :: "(bytes \<Rightarrow> string) \<Rightarrow> ignore option \<Rightarrow> fs \<Rightarrow> path \<Rightarrow> tree" where
  "snapshot_tree hash ign f q = sort_key e_path (concat (map (entry_of hash) (visible ign (below f q))))"

lemma set_snapshot_tree:
  "set (snapshot_tree hash ign f q) = (\<Union>x \<in> set (visible ign (below f q)). set (entry_of hash x))"
  by (simp add: snapshot_tree_def)

lemma tree_wf_snapshot:
  assumes "fs_ok f"
  shows "tree_wf (snapshot_tree hash ign f q)"
proof -
  let ?t = "snapshot_tree hash ign f q" and ?V = "visible ign (below f q)"
  have "distinct (map e_path (concat (map (entry_of hash) ?V)))"
    using visible_subset [of ign "below f q"] distinct_below [of f q]
    by (intro entries_distinct [OF assms]) (auto simp: visible_def distinct_map inj_on_def)
  then have "distinct (map e_path ?t)" by (simp add: snapshot_tree_def distinct_map)
  moreover have "(\<forall>n \<in> set (epath e). ok_name n) \<and>
      (\<forall>d. d \<noteq> [] \<longrightarrow> strict_prefix d (epath e) \<longrightarrow> (\<exists>e' \<in> set ?t. epath e' = d \<and> e_dir e'))" if "e \<in> set ?t" for e
  proof -
    from that obtain r i where v: "(r, i) \<in> set ?V" "e \<in> set (entry_of hash (r, i))"
      by (force simp: set_snapshot_tree)
    with visible_subset have b: "(r, i) \<in> set (below f q)" by blast
    from entry_of_epath [OF assms b v(2)] have r: "epath e = r" .
    have "\<exists>e' \<in> set ?t. epath e' = d \<and> e_dir e'" if d: "d \<noteq> []" "strict_prefix d r" for d
    proof -
      from visible_parent [OF assms v(1) d(2,1)] obtain m where m: "(d, Dir m) \<in> set ?V" by blast
      let ?e = "no_entry\<lparr>e_path := rel_text d, e_mode := perm m, e_dir := True\<rparr>"
      have e: "?e \<in> set (entry_of hash (d, Dir m))" by simp
      with m have "?e \<in> set ?t" by (force simp: set_snapshot_tree)
      moreover have "epath ?e = d" using entry_of_epath [OF assms _ e] m visible_subset by blast
      ultimately show ?thesis by force
    qed
    with r below_names [OF assms b] show ?thesis by simp
  qed
  ultimately show ?thesis by (simp add: tree_wf_def snapshot_tree_def [symmetric])
    (simp add: snapshot_tree_def)
qed

subsection \<open>What a snapshot into the store holds\<close>

lemma apart_kept:
  "\<not> prefix root q \<Longrightarrow> \<not> prefix q root \<Longrightarrow> \<not> strict_prefix root (q @ r)"
  by (metis prefix_same_cases prefixI strict_prefixE)

text \<open>Where the directory to be captured is: sound, apart from the store, its contents
  among the byte strings considered.\<close>

definition capturable :: "path \<Rightarrow> bytes set \<Rightarrow> path \<Rightarrow> fs \<Rightarrow> bool" where
  "capturable root B q f \<longleftrightarrow> is_dir_at f q \<and> \<not> prefix root q \<and> \<not> prefix q root \<and>
     (\<forall>r m cs. fmlookup f (q @ r) = Some (File m cs) \<longrightarrow> fread cs \<in> B) \<and>
     (\<forall>r t. fmlookup f (q @ r) = Some (Link t) \<longrightarrow> t \<noteq> [])"

lemma Snapshot_cas:
  assumes "img_inv sha root B w" and "capturable root B q (hfs w)"
  obtains w' where "Snapshot (PutFile sha root) q ign w = (Inr (snapshot_tree (hashOf sha) ign (hfs w) q), w')"
    and "grows sha root B w w'"
    and "\<And>r m cs. (r, File m cs) \<in> set (visible ign (below (hfs w) q)) \<Longrightarrow> has_blob sha root w' (fread cs)"
proof -
  have ok: "fs_ok (hfs w)" using assms(1) store_okD(2) by (auto simp: img_inv_def safe_store_def)
  have "cas_blober.ready root B q w x" if "x \<in> set (below (hfs w) q)" for x
  proof -
    obtain r i where x: "x = (r, i)" by fastforce
    with that have l: "fmlookup (hfs w) (q @ r) = Some i" by (simp add: set_below)
    moreover have "\<not> strict_prefix root (q @ r)" using assms(2) by (intro apart_kept) (auto simp: capturable_def)
    ultimately show ?thesis using assms(2) by (auto simp: cas_blober.ready_def x capturable_def split: inode.splits)
  qed
  moreover have "is_dir_at (hfs w) q" using assms(2) by (simp add: capturable_def)
  ultimately obtain w' where "Snapshot (PutFile sha root) q ign w =
      (Inr (snapshot_tree (hashOf sha) ign (hfs w) q), w')" "grows sha root B w w'"
      "cas_blober.all_stored sha root (visible ign (below (hfs w) q)) w'"
    using cas_blober.Snapshot_ok [OF assms(1) ok, of q ign] by (auto simp: snapshot_tree_def)
  with that [of w'] show ?thesis by (auto simp: cas_blober.all_stored_def)
qed

text \<open>What a copy of a file is, after a snapshot and a restore under the given umask.\<close>

fun copied :: "mode \<Rightarrow> inode \<Rightarrow> inode option" where
  "copied um (Dir m) = Some (Dir (perm m AND NOT um))"
| "copied um (File m cs) = Some (File (perm m AND NOT um) (fdata (fread cs)))"
| "copied um (Link t) = Some (Link t)"
| "copied um (Special m) = None"

lemma perm_perm [simp]: "perm (perm m) = perm m"
  by (simp add: perm_def and.assoc)

lemma file_mode_perm [simp]: "file_mode (perm m) = perm m" "dir_mode (perm m) = perm m"
proof -
  have "perm m = take_bit 9 m" by (simp add: perm_def take_bit_eq_mask mask_eq_exp_minus_1)
  then have b: "\<not> bit (perm m) n" if "8 < n" for n using that by (simp add: bit_take_bit_iff)
  show f: "file_mode (perm m) = perm m" using b [of 23] b [of 22] b [of 20] by (simp add: file_mode_def)
  show "dir_mode (perm m) = perm m" unfolding dir_mode_def f by (simp add: perm_def and.assoc)
qed

lemma OpenBlob_lookup:
  assumes "fs_ok g" and "hash_name h" and "fmlookup g (blob_path root h) = Some (File m cs)"
  shows "OpenBlob root g h = Inr (Inr (fread cs))"
  using stat_with_present [OF assms(1,3), of True] assms(2)
  by (simp add: OpenBlob_def Stat_def store_path_hash not_found_def)

definition fresh_dst :: "path \<Rightarrow> path \<Rightarrow> fs \<Rightarrow> bool" where
  "fresh_dst root dst f \<longleftrightarrow> dst \<noteq> [] \<and> is_dir_at f (butlast dst) \<and> ok_name (last dst) \<and>
     fmlookup f dst = None \<and> \<not> prefix root dst"

lemma fresh_below:
  assumes "fs_ok f" and "fmlookup f dst = None" and "dst \<noteq> []"
  shows "fmlookup f (dst @ r) = None"
proof (rule ccontr)
  assume n: "fmlookup f (dst @ r) \<noteq> None"
  with assms(2) have r: "r \<noteq> []" by auto
  from n obtain i where i: "fmlookup f (dst @ r) = Some i" by blast
  from r have "strict_prefix dst (dst @ r)" by (simp add: strict_prefix_def)
  from fs_ok_above [OF assms(1) i this] assms(2,3) show False by (simp add: is_dir_at_def inode_at_def)
qed

lemma fresh_apart:
  assumes "store_ok sha root f" and "fresh_dst root dst f" and "prefix root p"
  shows "\<not> prefix dst p"
proof
  assume "prefix dst p"
  with assms(3) have "prefix dst root \<or> prefix root dst" using prefix_same_cases by blast
  with assms(2) obtain z where "root = dst @ z" by (auto simp: fresh_dst_def prefix_def)
  with fresh_below [OF store_okD(2) [OF assms(1)], of dst z] assms store_okD(3) [OF assms(1)]
  show False by (auto simp: fresh_dst_def is_dir_at_def inode_at_def)
qed

lemma snapshot_restorable:
  assumes inv: "img_inv sha root B w'" and ok: "fs_ok (hfs w)" and cap: "capturable root B q (hfs w)"
    and st: "\<And>r m cs. (r, File m cs) \<in> set (visible ign (below (hfs w) q)) \<Longrightarrow> has_blob sha root w' (fread cs)"
    and fr: "fresh_dst root dst (hfs w')"
  shows "restorable um (\<lambda>h. the (blobs root (hfs w') h)) (OpenBlob root) (hfs w') dst
    (snapshot_tree (hashOf sha) ign (hfs w) q)"
proof -
  let ?t = "snapshot_tree (hashOf sha) ign (hfs w) q" and ?f = "hfs w'"
  from inv have sok: "store_ok sha root ?f" by (simp add: img_inv_def safe_store_def)
  have "compat (fmlookup ?f (dst @ epath e)) i" for e i
    using fresh_below [OF store_okD(2) [OF sok], of dst "epath e"] fr by (simp add: fresh_dst_def)
  moreover have "OpenBlob root g (e_hash e) = Inr (Inr (the (blobs root ?f (e_hash e))))"
    if e: "e \<in> set ?t" "\<not> e_dir e" "e_link e = []" and gok: "fs_ok g"
      and same: "\<forall>q. \<not> prefix dst q \<longrightarrow> fmlookup g q = fmlookup ?f q" for e g
  proof -
    from e(1) obtain r i where v: "(r, i) \<in> set (visible ign (below (hfs w) q))" "e \<in> set (entry_of (hashOf sha) (r, i))"
      by (force simp: set_snapshot_tree)
    have "fmlookup (hfs w) (q @ r) = Some i" using v(1) visible_subset by (fastforce simp: set_below)
    with v(2) e(2,3) cap obtain m cs where i: "i = File m cs" by (cases i) (auto simp: capturable_def)
    with v(2) have h: "e_hash e = hashOf sha (fread cs)" by simp
    have "blobs root ?f (e_hash e) = Some (fread cs)" using st v(1) unfolding i h by (simp add: has_blob_def)
    then obtain m' cs' where b: "hash_name (e_hash e)" "fmlookup ?f (blob_path root (e_hash e)) = Some (File m' cs')"
      "the (blobs root ?f (e_hash e)) = fread cs'" by (auto elim: blobs_SomeE)
    with same fresh_apart [OF sok fr, of "blob_path root (e_hash e)"] have "fmlookup g (blob_path root (e_hash e)) = Some (File m' cs')" by simp
    from OpenBlob_lookup [OF gok b(1) this] b(3) show ?thesis by simp
  qed
  ultimately show ?thesis using tree_wf_snapshot [OF ok] by (auto simp: restorable_def)
qed

lemma inode_of_entry:
  assumes "e \<in> set (entry_of (hashOf sha) (r, i))" and "\<And>t. i = Link t \<Longrightarrow> t \<noteq> []"
    and "\<And>m cs. i = File m cs \<Longrightarrow> contents (hashOf sha (fread cs)) = fread cs"
  shows "Some (inode_of um contents e) = copied um i"
  using assms by (cases i) (auto simp: inode_of_def no_entry_def)

text \<open>What lies below \<open>dst\<close> in \<open>g\<close> is a copy of what lies below \<open>q\<close> in \<open>f\<close>, less what is ignored.\<close>

definition copy_at :: "ignore option \<Rightarrow> mode \<Rightarrow> fs \<Rightarrow> path \<Rightarrow> fs \<Rightarrow> path \<Rightarrow> bool" where
  "copy_at ign um f q g dst \<longleftrightarrow> (\<forall>r. r \<noteq> [] \<longrightarrow> fmlookup g (dst @ r) =
     (case fmlookup f (q @ r) of None \<Rightarrow> None
      | Some i \<Rightarrow> if (r, i) \<in> set (visible ign (below f q)) then copied um i else None))"

lemma fresh_dst_grows:
  assumes "fresh_dst root dst (hfs w)" and "grows sha root B w w1"
  shows "fresh_dst root dst (hfs w1)"
proof -
  have np: "\<not> strict_prefix root p" if "prefix p dst" for p
    using that assms(1) prefix_order.trans by (fastforce simp: fresh_dst_def strict_prefix_def)
  have "fmlookup (hfs w1) p = fmlookup (hfs w) p" if "prefix p dst" for p
    using grows_outside [OF assms(2) np [OF that]] .
  with assms(1) prefixeq_butlast [of dst] is_dir_at_cong [of "hfs w1" "butlast dst" "hfs w"] show ?thesis
    by (simp add: fresh_dst_def)
qed

text \<open>A filesystem whose paths below \<open>dst\<close> are the entries of a snapshot.\<close>

lemma entries_copy:
  fixes f :: fs and q :: path and sha :: hasher and ign :: "ignore option"
  defines "t \<equiv> snapshot_tree (hashOf sha) ign f q" and "V \<equiv> visible ign (below f q)"
  assumes ok: "fs_ok f" and cap: "capturable root B q f"
    and c: "\<And>r m cs. (r, File m cs) \<in> set V \<Longrightarrow> c (hashOf sha (fread cs)) = fread cs"
    and there: "\<And>e. e \<in> set t \<Longrightarrow> fmlookup g (dst @ epath e) = Some (inode_of um c e)"
    and gone: "\<And>r. r \<noteq> [] \<Longrightarrow> r \<notin> epath ` set t \<Longrightarrow> fmlookup g (dst @ r) = None"
  shows "copy_at ign um f q g dst"
  unfolding copy_at_def V_def [symmetric]
proof (intro allI impI)
  fix r :: path assume r: "r \<noteq> []"
  show "fmlookup g (dst @ r) =
    (case fmlookup f (q @ r) of None \<Rightarrow> None | Some i \<Rightarrow> if (r, i) \<in> set V then copied um i else None)"
  proof (cases "\<exists>i. (r, i) \<in> set V \<and> copied um i \<noteq> None")
    case True
    then obtain i where i: "(r, i) \<in> set V" "copied um i \<noteq> None" by blast
    have b: "(r, i) \<in> set (below f q)" using i(1) visible_subset unfolding V_def by blast
    then have l: "fmlookup f (q @ r) = Some i" by (simp add: set_below)
    from i(2) obtain e where e: "e \<in> set (entry_of (hashOf sha) (r, i))" by (cases i) auto
    have "e \<in> set t" using i(1) e unfolding t_def V_def by (force simp: set_snapshot_tree)
    moreover have "epath e = r" by (rule entry_of_epath [OF ok b e])
    moreover have "Some (inode_of um c e) = copied um i"
    proof (rule inode_of_entry [OF e])
      show "t \<noteq> []" if "i = Link t" for t using cap l that by (auto simp: capturable_def)
      show "c (hashOf sha (fread cs)) = fread cs" if "i = File m cs" for m cs using c i(1) that by blast
    qed
    ultimately show ?thesis using there [of e] i(1) l by simp
  next
    case False
    have "r \<notin> epath ` set t"
    proof
      assume "r \<in> epath ` set t"
      then obtain e s i where e: "r = epath e" "(s, i) \<in> set V" "e \<in> set (entry_of (hashOf sha) (s, i))"
        unfolding t_def V_def by (force simp: set_snapshot_tree)
      with entry_of_epath [OF ok _ e(3)] visible_subset have "s = r" unfolding V_def by blast
      moreover have "copied um i \<noteq> None" using e(3) by (cases i) auto
      ultimately show False using e(2) False by blast
    qed
    with gone [OF r] False show ?thesis by (cases "fmlookup f (q @ r)") auto
  qed
qed

lemma snapshot_copy:
  assumes "img_inv sha root B w" and "capturable root B q (hfs w)" and "fresh_dst root dst (hfs w)"
  obtains w1 w2 where "Snapshot (PutFile sha root) q ign w = (Inr (snapshot_tree (hashOf sha) ign (hfs w) q), w1)"
    and "Restore (snapshot_tree (hashOf sha) ign (hfs w) q) (OpenBlob root) dst w1 = (Inr (), w2)"
    and "img_inv sha root B w2" and "umask w2 = umask w" and "is_dir_at (hfs w2) dst"
    and "\<And>q. \<not> prefix dst q \<Longrightarrow> fmlookup (hfs w2) q = fmlookup (hfs w1) q" and "grows sha root B w w1"
    and "copy_at ign (umask w) (hfs w) q (hfs w2) dst"
proof -
  let ?t = "snapshot_tree (hashOf sha) ign (hfs w) q" and ?V = "visible ign (below (hfs w) q)"
  have ok: "fs_ok (hfs w)" using assms(1) store_okD(2) by (auto simp: img_inv_def safe_store_def)
  from Snapshot_cas [OF assms(1,2)] obtain w1 where s: "Snapshot (PutFile sha root) q ign w = (Inr ?t, w1)"
    "grows sha root B w w1" and st: "\<And>r m cs. (r, File m cs) \<in> set ?V \<Longrightarrow> has_blob sha root w1 (fread cs)"
    by metis
  have inv: "img_inv sha root B w1" by (rule grows_inv [OF assms(1) s(2)])
  then have ok1: "fs_ok (hfs w1)" using store_okD(2) by (auto simp: img_inv_def safe_store_def)
  note fr = fresh_dst_grows [OF assms(3) s(2)]
  let ?c = "\<lambda>h. the (blobs root (hfs w1) h)"
  have um: "umask w1 = umask w" using s(2) by (simp add: grows_def)
  have d: "dst_ok dst (hfs w1)" using fr by (auto simp: dst_ok_def fresh_dst_def)
  have re: "restorable (umask w1) ?c (OpenBlob root) (hfs w1) dst ?t"
    using snapshot_restorable [OF inv ok assms(2) st fr] .
  obtain g where g: "Restore ?t (OpenBlob root) dst w1 = (Inr (), w1\<lparr>hfs := g\<rparr>)"
    "\<And>e. e \<in> set ?t \<Longrightarrow> fmlookup g (dst @ epath e) =
       Some (settle (fmlookup (hfs w1) (dst @ epath e)) (inode_of (umask w1) ?c e))"
    "\<And>r. r \<noteq> [] \<Longrightarrow> r \<notin> epath ` set ?t \<Longrightarrow> fmlookup g (dst @ r) = None"
    and gok: "fs_ok g" "is_dir_at g dst" and out: "\<And>q. \<not> prefix dst q \<Longrightarrow> fmlookup g q = fmlookup (hfs w1) q"
    using Restore_ok [OF ok1 d re] by metis
  have abs: "fmlookup (hfs w1) (dst @ r) = None" for r
    using fresh_below [OF ok1] fr by (simp add: fresh_dst_def)
  have "copy_at ign (umask w) (hfs w) q g dst"
  proof (rule entries_copy [OF ok assms(2)])
    show "?c (hashOf sha (fread cs)) = fread cs" if "(r, File m cs) \<in> set ?V" for r m cs
      using st [OF that] by (auto simp: has_blob_def)
  qed (use g(2,3) abs um in auto)
  moreover have "img_inv sha root B (w1\<lparr>hfs := g\<rparr>)"
  proof -
    have "\<not> prefix dst p" if "prefix root p" for p
      using fresh_apart [OF _ fr] inv that by (auto simp: img_inv_def safe_store_def)
    with inv gok(1) out safe_agree [of sha root B "hfs w1" g] show ?thesis by (auto simp: img_inv_def memo_ok_def)
  qed
  ultimately show ?thesis using that [of w1 "w1\<lparr>hfs := g\<rparr>"] s g(1) gok(2) out um by simp
qed

text \<open>
  Property C13. Restoring a snapshot copies the directory: after \<open>Snapshot\<close> of a directory into
  the store and \<open>Restore\<close> of that tree to a new place, what lies below the new place is, path
  by path, a copy of what lay below the directory: the visible entries, files with their
  bytes, links with their targets, permission bits less the umask, and nothing else. Both
  steps succeed.
\<close>

theorem Restore_Snapshot:
  assumes "img_inv sha root B w" and "capturable root B q (hfs w)" and "fresh_dst root dst (hfs w)"
  shows "\<exists>t w1 w2. Snapshot (PutFile sha root) q ign w = (Inr t, w1) \<and>
    Restore t (OpenBlob root) dst w1 = (Inr (), w2) \<and>
    (\<forall>r. r \<noteq> [] \<longrightarrow> fmlookup (hfs w2) (dst @ r) =
      (case fmlookup (hfs w) (q @ r) of None \<Rightarrow> None
       | Some i \<Rightarrow> if (r, i) \<in> set (visible ign (below (hfs w) q)) then copied (umask w) i else None))"
proof -
  obtain w1 w2 where
    "Snapshot (PutFile sha root) q ign w = (Inr (snapshot_tree (hashOf sha) ign (hfs w) q), w1)"
    "Restore (snapshot_tree (hashOf sha) ign (hfs w) q) (OpenBlob root) dst w1 = (Inr (), w2)"
    "copy_at ign (umask w) (hfs w) q (hfs w2) dst"
    by (rule snapshot_copy [OF assms])
  then show ?thesis unfolding copy_at_def by (intro exI conjI)
qed

subsection \<open>A concrete directory\<close>

definition dir_fs_demo :: fs where
  "dir_fs_demo = fmupd [''d'', ''l''] (Link ''f'') (fmupd [''d'', ''f''] (File mode_0644 (fdata ''abc''))
     (fmupd [''d''] (Dir mode_0755) (fmupd [''r''] (Dir mode_0755) fmempty)))"

definition dir_world :: world where
  "dir_world = \<lparr>hfs = dir_fs_demo, umask = 0, lseek_ok = True, zeroHashes = Map.empty\<rparr>"

lemma dir_demo_ok: "fs_ok dir_fs_demo"
  by (auto simp: fs_ok_def dir_fs_demo_def slot_def ok_name_def is_dir_at_def inode_at_def)

lemma dir_demo_inv: "img_inv demo_sha [''r''] (set demo_blobs) dir_world"
proof -
  have "store_ok demo_sha [''r''] dir_fs_demo"
    using dir_demo_ok ok_tag_sha [of demo_blobs]
    by (auto simp: store_ok_def demo_sha_def dir_fs_demo_def is_dir_at_def inode_at_def strict_prefix_def prefix_def)
  moreover have "blobs [''r''] dir_fs_demo = Map.empty" by (auto simp: blobs_def dir_fs_demo_def fun_eq_iff)
  ultimately show ?thesis using demo_safe by (simp add: img_inv_def dir_world_def memo_ok_def safe_store_def)
qed

lemma dir_demo_capturable: "capturable [''r''] (set demo_blobs) [''d''] (hfs dir_world)"
  by (auto simp: capturable_def dir_world_def dir_fs_demo_def is_dir_at_def inode_at_def demo_blobs_def split: if_splits)

lemma dir_demo_fresh: "fresh_dst [''r''] [''e''] (hfs dir_world)"
  by (simp add: fresh_dst_def dir_world_def dir_fs_demo_def ok_name_def)

theorem Restore_Snapshot_witness:
  "\<exists>t w1 w2. Snapshot (PutFile demo_sha [''r'']) [''d''] None dir_world = (Inr t, w1) \<and>
    Restore t (OpenBlob [''r'']) [''e''] w1 = (Inr (), w2) \<and>
    fmlookup (hfs w2) [''e'', ''f''] = Some (File (perm mode_0644 AND NOT 0) (fdata ''abc'')) \<and>
    fmlookup (hfs w2) [''e'', ''l''] = Some (Link ''f'')"
proof -
  have v: "visible None l = l" for l by (simp add: visible_def ignored_def hidden_by_def)
  obtain t w1 w2 where s: "Snapshot (PutFile demo_sha [''r'']) [''d''] None dir_world = (Inr t, w1)"
    "Restore t (OpenBlob [''r'']) [''e''] w1 = (Inr (), w2)"
    and r: "\<forall>r. r \<noteq> [] \<longrightarrow> fmlookup (hfs w2) ([''e''] @ r) =
      (case fmlookup (hfs dir_world) ([''d''] @ r) of None \<Rightarrow> None
       | Some i \<Rightarrow> if (r, i) \<in> set (visible None (below (hfs dir_world) [''d''])) then copied (umask dir_world) i else None)"
    using Restore_Snapshot [OF dir_demo_inv dir_demo_capturable dir_demo_fresh, of None] by blast
  have "fmlookup (hfs dir_world) [''d'', ''f''] = Some (File mode_0644 (fdata ''abc''))"
    "fmlookup (hfs dir_world) [''d'', ''l''] = Some (Link ''f'')" "umask dir_world = 0"
    by (simp_all add: dir_world_def dir_fs_demo_def)
  with spec [OF r, of "[''f'']"] spec [OF r, of "[''l'']"] s show ?thesis by (simp add: v set_below)
qed

subsection \<open>The same tree again\<close>

lemma sorted_tree_eq:
  assumes "tree_wf s" and "tree_wf t" and "set s = set t"
  shows "s = t"
  using assms by (intro map_sorted_distinct_set_unique [of e_path]) (auto simp: tree_wf_def distinct_map)

lemma copy_below:
  assumes "copy_at ign 0 f q g dst"
  shows "(r, j) \<in> set (below g dst) \<longleftrightarrow> (\<exists>i. (r, i) \<in> set (visible ign (below f q)) \<and> copied 0 i = Some j)"
proof (cases "r = []")
  case True
  then show ?thesis using visible_subset [of ign "below f q"] by (auto simp: set_below)
next
  case False
  have V: "fmlookup f (q @ r) = Some i" if "(r, i) \<in> set (visible ign (below f q))" for i
    using that visible_subset [of ign "below f q"] by (auto simp: set_below)
  note r = assms [unfolded copy_at_def, rule_format, OF False]
  show ?thesis
  proof (cases "fmlookup f (q @ r)")
    case None
    with V r False show ?thesis by (auto simp: set_below)
  next
    case (Some i)
    have "(\<exists>i. (r, i) \<in> set (visible ign (below f q)) \<and> copied 0 i = Some j) \<longleftrightarrow>
        (r, i) \<in> set (visible ign (below f q)) \<and> copied 0 i = Some j"
      using V Some by auto
    with Some r False show ?thesis by (simp add: set_below)
  qed
qed

lemma copy_capturable:
  assumes "copy_at ign 0 f q g dst" and "capturable root B q f" and "is_dir_at g dst" and "dst \<noteq> []"
    and "\<not> prefix root dst" and "\<not> prefix dst root"
  shows "capturable root B dst g"
proof -
  have *: "\<exists>i. fmlookup f (q @ r) = Some i \<and> copied 0 i = Some j" if "fmlookup g (dst @ r) = Some j" "\<not> is_dir j" for r j
  proof -
    have "r \<noteq> []" using that assms(3,4) by (auto simp: is_dir_at_def inode_at_def)
    with that(1) have "(r, j) \<in> set (below g dst)" by (simp add: set_below)
    then obtain i where "(r, i) \<in> set (visible ign (below f q))" "copied 0 i = Some j" by (auto simp: copy_below [OF assms(1)])
    with visible_subset [of ign "below f q"] show ?thesis by (auto simp: set_below)
  qed
  have "fread cs \<in> B" if l: "fmlookup g (dst @ r) = Some (File m cs)" for r m cs
  proof -
    from * [OF l] obtain i where i: "fmlookup f (q @ r) = Some i" "copied 0 i = Some (File m cs)" by auto
    then obtain m' cs' where "i = File m' cs'" "fread cs = fread cs'" by (cases i) auto
    with i(1) assms(2) show ?thesis by (auto simp: capturable_def)
  qed
  moreover have "t \<noteq> []" if l: "fmlookup g (dst @ r) = Some (Link t)" for r t
  proof -
    from * [OF l] obtain i where i: "fmlookup f (q @ r) = Some i" "copied 0 i = Some (Link t)" by auto
    then have "i = Link t" by (cases i) auto
    with i(1) assms(2) show ?thesis by (auto simp: capturable_def)
  qed
  ultimately show ?thesis using assms(3,5,6) by (auto simp: capturable_def)
qed

lemma copy_same_tree:
  assumes "copy_at ign 0 f q g dst" and "fs_ok f" and "fs_ok g"
  shows "snapshot_tree hash None g dst = snapshot_tree hash ign f q"
proof (rule sorted_tree_eq [OF tree_wf_snapshot [OF assms(3)] tree_wf_snapshot [OF assms(2)]])
  note bel = copy_below [OF assms(1)]
  let ?V = "visible ign (below f q)"
  have v: "visible None l = l" for l by (simp add: visible_def ignored_def hidden_by_def)
  have c: "entry_of hash (r, j) = entry_of hash (r, i)" if "copied 0 i = Some j" for r i j
    using that by (cases i) auto
  have n: "copied 0 i \<noteq> None" if "e \<in> set (entry_of hash (r, i))" for e r i
    using that by (cases i) auto
  show "set (snapshot_tree hash None g dst) = set (snapshot_tree hash ign f q)"
    unfolding set_snapshot_tree v
  proof (intro equalityI subsetI)
    fix e assume "e \<in> (\<Union>x \<in> set (below g dst). set (entry_of hash x))"
    then obtain r j where "(r, j) \<in> set (below g dst)" "e \<in> set (entry_of hash (r, j))" by force
    with bel c show "e \<in> (\<Union>x \<in> set ?V. set (entry_of hash x))" by (metis UN_I)
  next
    fix e assume "e \<in> (\<Union>x \<in> set ?V. set (entry_of hash x))"
    then obtain r i where "(r, i) \<in> set ?V" "e \<in> set (entry_of hash (r, i))" by force
    with n bel c show "e \<in> (\<Union>x \<in> set (below g dst). set (entry_of hash x))" by (metis UN_I not_None_eq)
  qed
qed

text \<open>
  Property C14. A restored snapshot is the same snapshot: where the umask takes no permission
  bit away, \<open>Snapshot\<close> of a directory that \<open>Restore\<close> made from a snapshot returns the tree it
  was made from.
\<close>

theorem Snapshot_of_Restore:
  assumes "img_inv sha root B w" and "capturable root B q (hfs w)" and "fresh_dst root dst (hfs w)"
    and "umask w = 0"
  shows "\<exists>t w1 w2 w3. Snapshot (PutFile sha root) q ign w = (Inr t, w1) \<and>
    Restore t (OpenBlob root) dst w1 = (Inr (), w2) \<and> Snapshot (PutFile sha root) dst None w2 = (Inr t, w3)"
proof -
  let ?t = "snapshot_tree (hashOf sha) ign (hfs w) q"
  have ok: "fs_ok (hfs u)" if "img_inv sha root B u" for u :: "'a world_scheme"
    using that store_okD(2) by (auto simp: img_inv_def safe_store_def)
  obtain w1 w2 where s: "Snapshot (PutFile sha root) q ign w = (Inr ?t, w1)"
    "Restore ?t (OpenBlob root) dst w1 = (Inr (), w2)" and inv: "img_inv sha root B w2"
    and d: "is_dir_at (hfs w2) dst" and "copy_at ign (umask w) (hfs w) q (hfs w2) dst"
    by (rule snapshot_copy [OF assms(1-3), of ign])
  then have copy: "copy_at ign 0 (hfs w) q (hfs w2) dst" using assms(4) by simp
  have "dst \<noteq> []" "\<not> prefix root dst" "\<not> prefix dst root"
    using assms(1,3) fresh_apart [of sha root "hfs w" dst root] by (auto simp: fresh_dst_def img_inv_def safe_store_def)
  from copy_capturable [OF copy assms(2) d this] Snapshot_cas [OF inv] obtain w3 where
    "Snapshot (PutFile sha root) dst None w2 = (Inr (snapshot_tree (hashOf sha) None (hfs w2) dst), w3)" by metis
  with s copy_same_tree [OF copy ok [OF assms(1)] ok [OF inv]] show ?thesis by auto
qed

theorem Snapshot_of_Restore_witness:
  "\<exists>t w1 w2 w3. Snapshot (PutFile demo_sha [''r'']) [''d''] None dir_world = (Inr t, w1) \<and>
    Restore t (OpenBlob [''r'']) [''e''] w1 = (Inr (), w2) \<and>
    Snapshot (PutFile demo_sha [''r'']) [''e''] None w2 = (Inr t, w3)"
  by (rule Snapshot_of_Restore [OF dir_demo_inv dir_demo_capturable dir_demo_fresh]) (simp add: dir_world_def)

subsection \<open>Restoring over an existing directory\<close>

text \<open>
  Property C15. \<open>Restore\<close> into a directory that exists, or is new, where nothing of another kind
  is in the way: it succeeds, every path the tree does not name is gone, every entry is there
  with its contents, and nothing outside the directory changes. A file or directory that was
  there keeps the mode it had; a new one gets the entry's mode less the umask.
\<close>

theorem Restore_exact:
  assumes "fs_ok (hfs w)" and "dst_ok dst (hfs w)"
    and "restorable (umask w) contents open_blob (hfs w) dst t"
  shows "\<exists>g. Restore t open_blob dst w = (Inr (), w\<lparr>hfs := g\<rparr>) \<and>
    (\<forall>e \<in> set t. fmlookup g (dst @ epath e) =
      Some (settle (fmlookup (hfs w) (dst @ epath e)) (inode_of (umask w) contents e))) \<and>
    (\<forall>r. r \<noteq> [] \<and> r \<notin> epath ` set t \<longrightarrow> fmlookup g (dst @ r) = None) \<and>
    (\<forall>q. \<not> prefix dst q \<longrightarrow> fmlookup g q = fmlookup (hfs w) q)"
  by (rule Restore_ok [OF assms]) auto

definition one_entry :: entry where
  "one_entry = \<lparr>e_path = ''f'', e_mode = mode_0755, e_size = 0, e_hash = [], e_link = [], e_dir = True\<rparr>"

definition mode_fs :: fs where
  "mode_fs = fmupd [''d'', ''f''] (Dir mode_0700) (fmupd [''d''] (Dir mode_0755) fmempty)"

definition mode_world :: world where
  "mode_world = \<lparr>hfs = mode_fs, umask = 0, lseek_ok = True, zeroHashes = Map.empty\<rparr>"

theorem Restore_exact_witness:
  "\<exists>g. Restore [one_entry] (OpenBlob [''r'']) [''d''] mode_world = (Inr (), mode_world\<lparr>hfs := g\<rparr>) \<and>
    fmlookup g [''d'', ''f''] = Some (Dir mode_0700)"
proof -
  have e: "epath one_entry = [''f'']" by (simp add: epath_def one_entry_def)
  have ok: "fs_ok (hfs mode_world)"
    by (auto simp: mode_world_def mode_fs_def fs_ok_def slot_def ok_name_def is_dir_at_def inode_at_def)
  have d: "dst_ok [''d''] (hfs mode_world)"
    by (simp add: dst_ok_def mode_world_def mode_fs_def is_dir_at_def inode_at_def)
  have l: "fmlookup (hfs mode_world) [''d'', ''f''] = Some (Dir mode_0700)" by (simp add: mode_world_def mode_fs_def)
  have wf: "tree_wf [one_entry]"
    unfolding tree_wf_def by (auto simp: e ok_name_def strict_prefix_def prefix_Cons)
  have "perm mode_0755 = mode_0755" by (simp add: perm_def)
  then have "dir_mode mode_0755 = perm mode_0755" using file_mode_perm(2) [of mode_0755] by simp
  then have i: "inode_of (umask mode_world) contents one_entry = Dir (perm mode_0755 AND NOT 0)" for contents
    by (simp add: inode_of_def one_entry_def mode_world_def)
  have r: "restorable (umask mode_world) (\<lambda>h. []) (OpenBlob [''r'']) (hfs mode_world) [''d''] [one_entry]"
    unfolding restorable_def using wf by (simp add: e l i) (simp add: one_entry_def)
  show ?thesis
    using Restore_exact [OF ok d r] by (auto simp: e l i)
qed

subsection \<open>A link in the way\<close>

text \<open>
  Where a link lies at a path the tree has as a file, \<open>Restore\<close> neither removes nor replaces it: the
  contents are written through it, into a file outside the directory that is restored.
\<close>

definition linked_dst :: world where
  "linked_dst = \<lparr>hfs = fmap_of_list [([''d''], Dir mode_0755), ([''d'', ''f''], Link ''/x''), ([''x''], File mode_0644 (fdata ''old''))],
     umask = 0, lseek_ok = True, zeroHashes = Map.empty\<rparr>"

definition restored_through :: "(err + unit) \<times> world" where
  "restored_through = Restore [no_entry\<lparr>e_path := ''f'', e_mode := mode_0644, e_hash := ''h''\<rparr>] (\<lambda>f h. Inr (Inr ''new'')) [''d''] linked_dst"

theorem Restore_writes_through_link:
  "ReadFile (hfs linked_dst) [''x''] = Inr ''old'' \<and> fst restored_through = Inr () \<and>
   ReadFile (hfs (snd restored_through)) [''x''] = Inr ''new'' \<and> fmlookup (hfs (snd restored_through)) [''d'', ''f''] = Some (Link ''/x'')"
  by code_simp

subsection \<open>Trees as JSON\<close>

text \<open>
  Property C16. \<open>Unmarshal\<close> inverts \<open>Marshal\<close> on every tree whose strings are UTF-8 and whose
  sizes are 64-bit: no field is lost to the \<open>omitempty\<close> tags, not even of a tree with no
  entries.
\<close>

theorem Unmarshal_Marshal:
  assumes "\<forall>e \<in> set t. valid_utf8 (e_path e) \<and> valid_utf8 (e_hash e) \<and> valid_utf8 (e_link e) \<and> int64 (e_size e) = e_size e"
  shows "Unmarshal (Marshal t) = Some t"
  using assms by (intro Unmarshal_Marshal_ok) (simp add: entry_ok_def)

theorem Unmarshal_Marshal_witness: "Unmarshal (Marshal [one_entry]) = Some [one_entry]"
  by (rule Unmarshal_Marshal) (auto simp: one_entry_def int64_id intro!: valid_utf8_ascii)

subsection \<open>Differences\<close>

lemma distinct_map_sort_key: "distinct (map f (sort_key g xs)) \<longleftrightarrow> distinct (map f xs)"
  by (simp add: distinct_map)

text \<open>
  Property C17. \<open>Diff\<close> reports exactly the paths that differ, once each and sorted: a path is
  \<open>added\<close> when only the new tree has it, \<open>deleted\<close> when only the old one has it, \<open>modified\<close> when
  both have it and the entries are not the same. A missing old tree has no paths.
\<close>

theorem Diff_correct:
  assumes "distinct (map e_path new)" and "case old of None \<Rightarrow> True | Some t \<Rightarrow> distinct (map e_path t)"
  shows "(\<forall>p k. (p, k) \<in> set (Diff old new) \<longleftrightarrow>
      (case (old_map old p, by_path new p) of
         (None, None) \<Rightarrow> False
       | (None, Some e) \<Rightarrow> k = added
       | (Some e, None) \<Rightarrow> k = deleted
       | (Some e, Some e') \<Rightarrow> \<not> sameEntry e e' \<and> k = modified)) \<and>
    sorted (map fst (Diff old new)) \<and> distinct (map fst (Diff old new))"
proof (intro conjI allI)
  fix p k
  show "(p, k) \<in> set (Diff old new) \<longleftrightarrow>
      (case (old_map old p, by_path new p) of
         (None, None) \<Rightarrow> False
       | (None, Some e) \<Rightarrow> k = added
       | (Some e, None) \<Rightarrow> k = deleted
       | (Some e, Some e') \<Rightarrow> \<not> sameEntry e e' \<and> k = modified)"
    unfolding set_Diff [OF assms] diff_at_def by (cases "old_map old p"; cases "by_path new p") auto
next
  show "sorted (map fst (Diff old new))" by (simp add: Diff_def Let_def)
  let ?n = "\<lambda>e. case old_map old (e_path e) of None \<Rightarrow> [(e_path e, added)]
      | Some prev \<Rightarrow> if sameEntry prev e then [] else [(e_path e, modified)]"
  let ?g = "\<lambda>e. case by_path new (e_path e) of None \<Rightarrow> [(e_path e, deleted)] | Some _ \<Rightarrow> []"
  have n: "distinct (map fst (concat (map ?n new))) \<and> fst ` set (concat (map ?n new)) \<subseteq> e_path ` set new"
    by (rule concat_paths [OF _ assms(1)]) (auto split: option.splits)
  have "distinct (map fst (concat (map ?n new) @ (case old of None \<Rightarrow> [] | Some t \<Rightarrow> concat (map ?g t))))"
  proof (cases old)
    case (Some t)
    have "distinct (map fst (concat (map ?g t)))"
      using concat_paths [of t ?g] assms(2) Some by (auto split: option.splits)
    moreover have "p \<notin> e_path ` set new" if "p \<in> fst ` set (concat (map ?g t))" for p
    proof -
      from that obtain e where "e \<in> set t" "p \<in> fst ` set (?g e)" by auto
      then have "by_path new p = None" by (cases "by_path new (e_path e)") auto
      then show ?thesis by (simp add: by_path_None)
    qed
    moreover from this n have "fst ` set (concat (map ?n new)) \<inter> fst ` set (concat (map ?g t)) = {}" by blast
    ultimately show ?thesis using n unfolding Some option.case map_append distinct_append set_map by blast
  qed (use n in simp)
  then show "distinct (map fst (Diff old new))"
    unfolding Diff_def Let_def distinct_map_sort_key old_map_def [symmetric] .
qed

theorem Diff_correct_witness:
  "(''f'', added) \<in> set (Diff (Some []) [one_entry])"
  using Diff_correct [of "[one_entry]" "Some []"] by (simp add: old_map_def by_path_def one_entry_def)

end
