(* ===== verification/EngineProps.thy ===== *)
theory EngineProps
  imports Engine RepoInv SnapProps
begin

section \<open>Checkpoints of a working directory\<close>

text \<open>
  The engine over a backend that keeps its files in the working directory, as the process
  backend does. A checkpoint captures the directory as it is, counts what changed and extends the
  sandbox's history; checking it out brings the directory back; forking copies it.
\<close>

subsection \<open>Ids, the clock, and the fields that calls on files leave alone\<close>

definition clock_ok :: "'z eworld_scheme \<Rightarrow> bool" where
  "clock_ok w \<longleftrightarrow> (\<forall>n. time_ok (clock w n))"

definition next_id :: "string \<Rightarrow> 'z eworld_scheme \<Rightarrow> string" where
  "next_id p w = p @ hex_encode (map (rand_bytes w) [rand_pos w..<rand_pos w + 6])"

lemma newID_effect: "newID p w = (Inr (next_id p w), w\<lparr>rand_pos := rand_pos w + 6\<rparr>)"
  by (simp add: newID_def next_id_def io)

lemma time_now_effect: "time_now w = (Inr (clock w (clock_pos w)), w\<lparr>clock_pos := Suc (clock_pos w)\<rparr>)"
  by (simp add: time_now_def io)

lemma more_same:
  assumes "world.more w' = world.more (w :: 'z eworld_scheme)"
  shows "next_id p w' = next_id p w" and "clock w' = clock w" and "clock_pos w' = clock_pos w"
    and "rand_pos w' = rand_pos w" and "rand_bytes w' = rand_bytes w" and "environ w' = environ w"
  using assms by (cases w; cases w'; simp add: next_id_def)+

definition plain :: "char \<Rightarrow> bool" where
  "plain c \<longleftrightarrow> byte c < 128 \<and> c \<noteq> CHR ''/'' \<and> c \<noteq> CHR ''.''"

lemma plain_hex: "c \<in> set (hex_encode b) \<Longrightarrow> plain c"
proof -
  assume "c \<in> set (hex_encode b)"
  then obtain d :: char where "c = hex_digit (byte d div 16) \<or> c = hex_digit (byte d mod 16)"
    unfolding hex_encode_def by force
  moreover have "byte d div 16 < 16" "byte d mod 16 < 16" using nat_of_char_less_256 [of d] by linarith+
  moreover have "byte (hex_digit n) < 128" if "n < 16" for n using that by (auto simp: hex_digit_def)
  ultimately show ?thesis by (elim disjE) (simp_all add: hex_digit_plain plain_def)
qed

lemma plain_text:
  assumes "\<And>c. c \<in> set s \<Longrightarrow> plain c"
  shows "id_ok s" and "valid_utf8 s" and "s \<noteq> [] \<Longrightarrow> ok_name s"
proof -
  have "CHR ''/'' \<notin> set s" "CHR ''.'' \<notin> set s" using assms by (auto simp: plain_def)
  then show "id_ok s" "s \<noteq> [] \<Longrightarrow> ok_name s" by (auto simp: id_ok_def ok_name_def)
  show "valid_utf8 s" by (rule valid_utf8_ascii) (use assms in \<open>simp add: plain_def\<close>)
qed

lemma plain_next_id: "\<forall>c \<in> set p. plain c \<Longrightarrow> c \<in> set (next_id p w) \<Longrightarrow> plain c"
  by (auto simp: next_id_def dest: plain_hex)

lemma ck_id_ok: "id_ok (next_id ''ck-'' w)" "valid_utf8 (next_id ''ck-'' w)" "next_id ''ck-'' w \<noteq> []"
proof -
  have "\<forall>c \<in> set ''ck-''. plain c" by (simp add: plain_def)
  from plain_text [OF plain_next_id [OF this, of _ w]] show "id_ok (next_id ''ck-'' w)" "valid_utf8 (next_id ''ck-'' w)" by blast+
qed (simp add: next_id_def)

lemma sbx_id_ok:
  "id_ok (next_id ''sbx-'' w)" "valid_utf8 (next_id ''sbx-'' w)" "next_id ''sbx-'' w \<noteq> []" "ok_name (next_id ''sbx-'' w)"
proof -
  show n: "next_id ''sbx-'' w \<noteq> []" by (simp add: next_id_def)
  have "\<forall>c \<in> set ''sbx-''. plain c" by (simp add: plain_def)
  from plain_text [OF plain_next_id [OF this, of _ w]] n
  show "id_ok (next_id ''sbx-'' w)" "valid_utf8 (next_id ''sbx-'' w)" "ok_name (next_id ''sbx-'' w)" by blast+
qed

lemma repo_ok_cong: "hfs w' = hfs w \<Longrightarrow> zeroHashes w' = zeroHashes w \<Longrightarrow> repo_ok sha root B w' \<longleftrightarrow> repo_ok sha root B w"
  by (simp add: repo_ok_def img_inv_def memo_ok_def)

subsection \<open>A checkpoint\<close>

abbreviation work_dir :: "path \<Rightarrow> sandbox \<Rightarrow> path" where
  "work_dir root s \<equiv> root @ [''work'', s_id s]"

definition files_only :: "'s engine \<Rightarrow> bool" where
  "files_only e \<longleftrightarrow> b_mem (e_backend e) = None \<and> b_guest (e_backend e) = None"

text \<open>The tree a checkpoint of the working directory records.\<close>

definition work_tree :: "hasher \<Rightarrow> path \<Rightarrow> sandbox \<Rightarrow> fs \<Rightarrow> tree" where
  "work_tree sha root s f = snapshot_tree (hashOf sha) (Some defaultIgnore) f (work_dir root s)"

text \<open>
  What a sandbox and its working directory have to be like: well-formed records and names, the
  directory there with contents among the byte strings considered.
\<close>

definition can_checkpoint :: "hasher \<Rightarrow> path \<Rightarrow> bytes set \<Rightarrow> sandbox \<Rightarrow> fs \<Rightarrow> bool" where
  "can_checkpoint sha root B s f \<longleftrightarrow> sandbox_ok s \<and> ok_name (s_id s) \<and>
     capturable (root @ [''blobs'']) B (work_dir root s) f \<and>
     (\<forall>x \<in> set (work_tree sha root s f). int64 (e_size x) = e_size x) \<and> Marshal (work_tree sha root s f) \<in> B"

lemma WorkDir_path: "ok_name i \<Longrightarrow> WorkDir root i = root @ [''work'', i]"
  using ok_nameD [of i] by (simp add: WorkDir_def split_on_no_sep)

text \<open>
  The frame of an operation: what lies in the store or in the records of checkpoints and
  sandboxes may change, the rest of the filesystem stays.
\<close>

definition records_path :: "path \<Rightarrow> path \<Rightarrow> bool" where
  "records_path root q \<longleftrightarrow> prefix (root @ [''blobs'']) q \<or> prefix (root @ [''checkpoints'']) q \<or> prefix (root @ [''sandboxes'']) q"

definition elsewhere_same :: "path \<Rightarrow> 'z world_scheme \<Rightarrow> 'z world_scheme \<Rightarrow> bool" where
  "elsewhere_same root w w' \<longleftrightarrow> (\<forall>q. \<not> records_path root q \<longrightarrow> fmlookup (hfs w') q = fmlookup (hfs w) q) \<and>
     umask w' = umask w \<and> lseek_ok w' = lseek_ok w"

lemma elsewhere_trans: "elsewhere_same root u v \<Longrightarrow> elsewhere_same root v w \<Longrightarrow> elsewhere_same root u w"
  by (simp add: elsewhere_same_def)

lemma elsewhere_grows: "grows sha (root @ [''blobs'']) B w w' \<Longrightarrow> elsewhere_same root w w'"
  by (auto simp: elsewhere_same_def grows_def records_path_def strict_prefix_def)

lemma elsewhere_record:
  "d \<in> {''checkpoints'', ''sandboxes''} \<Longrightarrow> elsewhere_same root w (w\<lparr>hfs := fmupd (root @ [d, n]) i (hfs w)\<rparr>)"
  by (auto simp: elsewhere_same_def records_path_def)

text \<open>The record a checkpoint makes.\<close>

definition ckpt_of :: "hasher \<Rightarrow> path \<Rightarrow> sandbox \<Rightarrow> string list option \<Rightarrow> int \<Rightarrow> string \<Rightarrow> tree option \<Rightarrow> string \<Rightarrow> time \<Rightarrow> tree \<Rightarrow> ckpt" where
  "ckpt_of sha root s command code note old i now t =
     \<lparr>c_id = i, c_sandbox = s_id s, c_seq = s_steps s, c_parent = s_head s, c_tree_hash = hashOf sha (Marshal t),
      c_command = (case command of None \<Rightarrow> [] | Some cmd \<Rightarrow> cmd), c_exit_code = code, c_created = now,
      c_added = count_kind added (Diff old t), c_modified = count_kind modified (Diff old t),
      c_deleted = count_kind deleted (Diff old t), c_note = note, c_mem_hash = [], c_state_hash = [],
      c_disk_hash = [], c_base_hash = []\<rparr>"

lemma int64_int64 [simp]: "int64 (int64 x) = int64 x"
  by (simp add: int64_def)

lemma ckpt_of_ok:
  assumes "sandbox_ok s" and "list_all valid_utf8 (case command of None \<Rightarrow> [] | Some cmd \<Rightarrow> cmd)" and "int64 code = code"
    and "valid_utf8 note" and "valid_utf8 i" and "time_ok now"
  shows "ckpt_ok (ckpt_of sha root s command code note old i now t)"
  using assms by (simp add: ckpt_ok_def ckpt_of_def sandbox_ok_def valid_utf8_hashOf count_kind_def valid_utf8_ascii)

lemma take_tree_files:
  assumes "files_only e" and "repo_ok sha (e_repo e) B w" and "can_checkpoint sha (e_repo e) B s (hfs w)"
  obtains w1 where "take_tree sha e s w = (Inr (work_tree sha (e_repo e) s (hfs w)), w1)"
    and "grows sha (e_repo e @ [''blobs'']) B w w1"
    and "\<And>h. h \<in> set (map e_hash (work_tree sha (e_repo e) s (hfs w))) \<Longrightarrow> h \<noteq> [] \<Longrightarrow> blobs (e_repo e @ [''blobs'']) (hfs w1) h \<noteq> None"
proof -
  let ?r = "e_repo e @ [''blobs'']" and ?q = "work_dir (e_repo e) s"
  from assms(3) have c: "capturable ?r B ?q (hfs w)" "ok_name (s_id s)" by (auto simp: can_checkpoint_def)
  from Snapshot_cas [OF repo_okD(1) [OF assms(2)] c(1), of "Some defaultIgnore"] obtain w1 where
    w1: "Snapshot (PutFile sha ?r) ?q (Some defaultIgnore) w = (Inr (work_tree sha (e_repo e) s (hfs w)), w1)"
    "grows sha ?r B w w1"
    "\<And>r m cs. (r, File m cs) \<in> set (visible (Some defaultIgnore) (below (hfs w) ?q)) \<Longrightarrow> has_blob sha ?r w1 (fread cs)"
    unfolding work_tree_def by metis
  have "take_tree sha e s w = (Inr (work_tree sha (e_repo e) s (hfs w)), w1)"
    using assms(1) w1(1) WorkDir_path [OF c(2)] by (simp add: take_tree_def files_only_def io)
  moreover have "blobs ?r (hfs w1) h \<noteq> None" if h: "h \<in> set (map e_hash (work_tree sha (e_repo e) s (hfs w)))" "h \<noteq> []" for h
  proof -
    from h(1) obtain ent r i where x: "h = e_hash ent" "(r, i) \<in> set (visible (Some defaultIgnore) (below (hfs w) ?q))"
      "ent \<in> set (entry_of (hashOf sha) (r, i))" by (force simp: work_tree_def set_snapshot_tree)
    with h(2) obtain m cs where "i = File m cs" by (cases i) (auto simp: no_entry_def)
    with x w1(3) show ?thesis by (auto simp: has_blob_def)
  qed
  ultimately show ?thesis using that w1(2) by blast
qed

subsection \<open>What a checkpoint leaves behind\<close>

text \<open>
  The checkpoint \<open>c\<close> with the tree \<open>t\<close> was added: it is found, its tree loads and the contents of
  the tree's files are stored; every other checkpoint is found as before, no blob is lost, and
  nothing but records and blobs changed.
\<close>

definition recorded :: "hasher \<Rightarrow> path \<Rightarrow> bytes set \<Rightarrow> ckpt \<Rightarrow> tree \<Rightarrow> 'z eworld_scheme \<Rightarrow> 'z eworld_scheme \<Rightarrow> bool" where
  "recorded sha root B c t w w' \<longleftrightarrow> repo_ok sha root B w' \<and>
     Checkpoint root (hfs w') (c_id c) = Inr c \<and> hash_name (c_tree_hash c) \<and> loadTree root (hfs w') (c_tree_hash c) = Inr t \<and>
     (\<forall>e \<in> set t. e_hash e \<noteq> [] \<longrightarrow> blobs (root @ [''blobs'']) (hfs w') (e_hash e) \<noteq> None) \<and>
     (\<forall>k. id_ok k \<longrightarrow> k \<noteq> c_id c \<longrightarrow> Checkpoint root (hfs w') k = Checkpoint root (hfs w) k) \<and>
     blobs (root @ [''blobs'']) (hfs w) \<subseteq>\<^sub>m blobs (root @ [''blobs'']) (hfs w') \<and>
     elsewhere_same root w w' \<and> clock w' = clock w"

lemma loadTree_blob:
  assumes "safe_store sha (root @ [''blobs'']) B f" and "blobs (root @ [''blobs'']) f h = Some b" and "Unmarshal b = Some t"
  shows "loadTree root f h = Inr t"
  using safe_Get [OF assms(1,2)] assms(3) by (simp add: loadTree_def)

lemma loadTree_keep:
  assumes "store_ok sha (root @ [''blobs'']) f" and "safe_store sha (root @ [''blobs'']) B g"
    and "blobs (root @ [''blobs'']) f \<subseteq>\<^sub>m blobs (root @ [''blobs'']) g" and "hash_name h" and "loadTree root f h = Inr t"
  shows "loadTree root g h = Inr t"
proof -
  from assms(5) obtain b where b: "Get (root @ [''blobs'']) f h = Inr b" "Unmarshal b = Some t"
    by (auto simp: loadTree_def split: sum.splits option.splits)
  with Get_blobs [OF assms(1,4)] have "blobs (root @ [''blobs'']) f h = Some b" by (auto split: option.splits)
  with assms(3) have "blobs (root @ [''blobs'']) g h = Some b" by (force simp: map_le_def dom_def)
  with assms(2) b(2) show ?thesis by (intro loadTree_blob)
qed

text \<open>The head names no checkpoint, or one that loads; ids are without slashes and dots.\<close>

definition head_ok :: "path \<Rightarrow> fs \<Rightarrow> string \<Rightarrow> bool" where
  "head_ok root f h \<longleftrightarrow> h = [] \<or> (id_ok h \<and> (\<exists>c t. Checkpoint root f h = Inr c \<and> hash_name (c_tree_hash c) \<and>
     loadTree root f (c_tree_hash c) = Inr t))"

lemma parent_tree_keep:
  assumes "head_ok root f h" and "\<And>k. id_ok k \<Longrightarrow> Checkpoint root g k = Checkpoint root f k"
    and "\<And>k t. hash_name k \<Longrightarrow> loadTree root f k = Inr t \<Longrightarrow> loadTree root g k = Inr t"
  shows "parent_tree root g h = parent_tree root f h" and "head_ok root g h"
  using assms by (fastforce simp: parent_tree_def head_ok_def)+

lemma work_tree_hashes: "x \<in> set (work_tree sha root s f) \<Longrightarrow> valid_utf8 (e_hash x)"
  unfolding work_tree_def set_snapshot_tree
proof (elim UN_E)
  fix y assume "x \<in> set (entry_of (hashOf sha) y)"
  then show "valid_utf8 (e_hash x)"
    by (cases "(hashOf sha, y)" rule: entry_of.cases) (auto simp: no_entry_def valid_utf8_hashOf valid_utf8_ascii)
qed

text \<open>
  What a checkpoint of a working directory leaves, whatever the names in it: the tree it stores
  reads back with U+FFFD for bytes of names and link targets that are not UTF-8.
\<close>

lemma checkpoint_files:
  assumes "files_only e" and "repo_ok sha (e_repo e) B w" and "can_checkpoint sha (e_repo e) B s (hfs w)"
    and "clock_ok w" and "head_ok (e_repo e) (hfs w) (s_head s)"
    and "list_all valid_utf8 (case command of None \<Rightarrow> [] | Some cmd \<Rightarrow> cmd)" and "int64 code = code" and "valid_utf8 note"
  defines "t \<equiv> work_tree sha (e_repo e) s (hfs w)"
  defines "c \<equiv> ckpt_of sha (e_repo e) s command code note (parent_tree (e_repo e) (hfs w) (s_head s))
     (next_id ''ck-'' w) (clock w (clock_pos w)) t"
  obtains w' where "checkpoint sha e s command code note w = (Inr c, w')" and "recorded sha (e_repo e) B c (map entry_fix t) w w'"
proof -
  let ?root = "e_repo e" and ?r = "e_repo e @ [''blobs'']"
  from take_tree_files [OF assms(1-3)] obtain w1 where w1: "take_tree sha e s w = (Inr t, w1)" "grows sha ?r B w w1"
    "\<And>h. h \<in> set (map e_hash t) \<Longrightarrow> h \<noteq> [] \<Longrightarrow> blobs ?r (hfs w1) h \<noteq> None" unfolding t_def by metis
  have B: "Marshal t \<in> B" and te: "\<forall>x \<in> set t. int64 (e_size x) = e_size x" using assms(3) by (auto simp: can_checkpoint_def t_def)
  from safe_Put_grows [OF grows_inv [OF repo_okD(1) [OF assms(2)] w1(2)] B] obtain w2 where
    w2: "Put sha ?r (Marshal t) w1 = (Inr (hashOf sha (Marshal t)), w2)" "grows sha ?r B w1 w2"
    "blobs ?r (hfs w2) (hashOf sha (Marshal t)) = Some (Marshal t)" by metis
  have g: "grows sha ?r B w w2" using w1(2) w2(2) by (rule grows_trans)
  note r2 = repo_ok_grows [OF assms(2) g] and m2 = more_same [of w2 w]
  have more: "world.more w2 = world.more w" using g by (simp add: grows_def)
  have sub: "blobs ?r (hfs w) \<subseteq>\<^sub>m blobs ?r (hfs w2)" using g by (simp add: grows_def)
  have pt: "parent_tree ?root (hfs w2) (s_head s) = parent_tree ?root (hfs w) (s_head s)"
    using parent_tree_keep(1) [OF assms(5)] r2(2) loadTree_keep [OF repo_okD(3) [OF assms(2)] repo_okD(2) [OF r2(1)] sub] by blast
  let ?w3 = "w2\<lparr>rand_pos := rand_pos w2 + 6, clock_pos := Suc (clock_pos w2)\<rparr>"
  have r3: "repo_ok sha ?root B ?w3" using r2(1) repo_ok_cong [of ?w3 w2] by simp
  have id: "c_id c = next_id ''ck-'' w" by (simp add: c_def ckpt_of_def)
  have ck: "ckpt_ok c" unfolding c_def using assms(3,4,6-8) ck_id_ok(2)
    by (intro ckpt_of_ok) (auto simp: can_checkpoint_def clock_ok_def)
  have ido: "id_ok (c_id c)" using ck_id_ok(1) id by simp
  obtain f m cs where
    f: "SaveCheckpoint ?root c ?w3 = (Inr (), ?w3\<lparr>hfs := f\<rparr>)" "repo_ok sha ?root B (?w3\<lparr>hfs := f\<rparr>)"
    "f = fmupd (?root @ [''checkpoints'', c_id c @ ''.json'']) (File m cs) (hfs ?w3)"
    "blobs ?r f = blobs ?r (hfs ?w3)" "Checkpoint ?root f (c_id c) = Inr c"
    "\<And>k. id_ok k \<Longrightarrow> k \<noteq> c_id c \<Longrightarrow> Checkpoint ?root f k = Checkpoint ?root (hfs ?w3) k"
    by (rule SaveCheckpoint_repo [OF r3 ck ido]) (rule that)
  let ?w' = "?w3\<lparr>hfs := f\<rparr>"
  have "checkpoint sha e s command code note w = (Inr c, ?w')"
    using f(1) w1(1) w2(1) assms(1) pt m2(1-4) [OF more]
    by (auto simp: checkpoint_def newID_effect time_now_effect c_def ckpt_of_def io Let_def files_only_def captureMachine_def)
  moreover have "recorded sha ?root B c (map entry_fix t) w ?w'"
  proof -
    have "loadTree ?root f (c_tree_hash c) = Inr (map entry_fix t)"
      using loadTree_blob [OF repo_okD(2) [OF f(2)]] f(4) w2(3) Unmarshal_Marshal_fix [OF te] by (simp add: c_def ckpt_of_def)
    moreover have "elsewhere_same ?root w ?w'"
      using elsewhere_grows [OF g] elsewhere_record [of "''checkpoints''" ?root ?w3] f(3) by (auto simp: elsewhere_same_def)
    moreover have "blobs ?r f (e_hash x) \<noteq> None" if x: "x \<in> set (map entry_fix t)" "e_hash x \<noteq> []" for x
    proof -
      from x(1) obtain y where y: "y \<in> set t" "x = entry_fix y" by auto
      moreover from y(1) have "valid_utf8 (e_hash y)" unfolding t_def by (rule work_tree_hashes)
      ultimately have e: "e_hash x = e_hash y" by (simp add: entry_fix_def utf8_fix_valid)
      with y(1) x(2) w1(3) [of "e_hash x"] grows_blob [OF w2(2), of "e_hash x"] f(4) show ?thesis by auto
    qed
    ultimately show ?thesis
      using f(2,4-6) sub r2(2) m2(2) [OF more] hash_name_hashOf [OF repo_okD(5) [OF assms(2)]]
      by (auto simp: recorded_def c_def ckpt_of_def)
  qed
  ultimately show ?thesis by (rule that)
qed

subsection \<open>Moving the head\<close>

lemma set_head_ok:
  assumes "recorded sha (e_repo e) B c t w w'" and "sandbox_ok s" and "id_ok (s_id s)" and "valid_utf8 (c_id c)" and "id_ok (c_id c)"
  obtains w'' where "set_head e s c w' = (Inr (s\<lparr>s_head := c_id c\<rparr>), w'')" and "recorded sha (e_repo e) B c t w w''"
    and "Sandbox (e_repo e) (hfs w'') (s_id s) = Inr (s\<lparr>s_head := c_id c\<rparr>)"
proof -
  let ?s = "s\<lparr>s_head := c_id c\<rparr>" and ?root = "e_repo e" and ?r = "e_repo e @ [''blobs'']"
  from assms(1) have r: "repo_ok sha ?root B w'" by (simp add: recorded_def)
  have so: "sandbox_ok ?s" and io: "id_ok (s_id ?s)" using assms(2-4) by (simp_all add: sandbox_ok_def)
  obtain f m cs where f: "SaveSandbox ?root ?s w' = (Inr (), w'\<lparr>hfs := f\<rparr>)" "repo_ok sha ?root B (w'\<lparr>hfs := f\<rparr>)"
    "f = fmupd (?root @ [''sandboxes'', s_id ?s @ ''.json'']) (File m cs) (hfs w')"
    "blobs ?r f = blobs ?r (hfs w')" "getJSON ?root ''sandboxes'' (s_id ?s) dec_sandbox f = Inr ?s"
    "\<And>k. id_ok k \<Longrightarrow> Checkpoint ?root f k = Checkpoint ?root (hfs w') k"
    by (rule SaveSandbox_repo [OF r so io]) (rule that)
  have "loadTree ?root f (c_tree_hash c) = Inr t"
    using loadTree_keep [OF repo_okD(3) [OF r] repo_okD(2) [OF f(2)]] f(4) assms(1) by (auto simp: recorded_def)
  moreover have "elsewhere_same ?root w (w'\<lparr>hfs := f\<rparr>)"
    using assms(1) elsewhere_record [of "''sandboxes''" ?root w'] f(3) by (auto simp: recorded_def intro: elsewhere_trans)
  ultimately have "recorded sha ?root B c t w (w'\<lparr>hfs := f\<rparr>)" using f(2,4,6) assms(1,5) by (simp add: recorded_def)
  moreover have "set_head e s c w' = (Inr ?s, w'\<lparr>hfs := f\<rparr>)" using f(1) by (simp add: set_head_def Let_def)
  ultimately show ?thesis using that Sandbox_found [OF f(5)] by simp
qed


subsection \<open>Running a command\<close>

text \<open>How a command ended, as the code the process backend returns.\<close>

definition ended_with :: "cmd_end \<Rightarrow> int \<Rightarrow> bool" where
  "ended_with fin code \<longleftrightarrow> fin = CmdOk \<and> code = 0 \<or> fin = CmdExit code"

abbreviation process_engine :: "path \<Rightarrow> 's runner \<Rightarrow> 's engine" where
  "process_engine root run \<equiv> \<lparr>e_repo = root, e_backend = ProcessBackend run\<rparr>"

lemma files_only_process [simp]: "files_only (process_engine root run)"
  by (simp add: files_only_def ProcessBackend_def)

lemma can_checkpoint_steps:
  "int64 n = n \<Longrightarrow> can_checkpoint sha root B s f \<Longrightarrow> can_checkpoint sha root B (s\<lparr>s_steps := n\<rparr>) f"
  "work_tree sha root (s\<lparr>s_steps := n\<rparr>) f = work_tree sha root s f"
  by (auto simp: can_checkpoint_def sandbox_ok_def work_tree_def)

lemma Run_process:
  fixes w :: "'z eworld_scheme" and run :: "'z eworld_scheme runner"
  assumes "run (work_dir root s) command (environ w) w = (fin, w1)" and "ended_with fin code" and "command \<noteq> []"
    and "repo_ok sha root B w1" and "can_checkpoint sha root B s (hfs w1)" and "clock_ok w1"
    and "head_ok root (hfs w1) (s_head s)" and "list_all valid_utf8 command" and "int64 code = code"
  defines "t \<equiv> work_tree sha root s (hfs w1)"
  defines "s1 \<equiv> s\<lparr>s_steps := int64 (s_steps s + 1)\<rparr>"
  defines "c \<equiv> ckpt_of sha root s1 (Some command) code [] (parent_tree root (hfs w1) (s_head s))
     (next_id ''ck-'' w1) (clock w1 (clock_pos w1)) t"
  obtains w' where "Run sha (process_engine root run) s command w = (Inr (c, s1\<lparr>s_head := c_id c\<rparr>), w')"
    and "recorded sha root B c (map entry_fix t) w1 w'" and "Sandbox root (hfs w') (s_id s) = Inr (s1\<lparr>s_head := c_id c\<rparr>)"
proof -
  let ?e = "process_engine root run"
  have s1: "can_checkpoint sha root B s1 (hfs w1)" "work_tree sha root s1 (hfs w1) = t" "s_head s1 = s_head s" "s_id s1 = s_id s"
    using assms(5) by (simp_all add: s1_def t_def can_checkpoint_steps)
  then have so: "sandbox_ok s1" "ok_name (s_id s)" "id_ok (s_id s1)" by (auto simp: can_checkpoint_def ok_name_def id_ok_def)
  have p: "repo_ok sha (e_repo ?e) B w1" "can_checkpoint sha (e_repo ?e) B s1 (hfs w1)" "head_ok (e_repo ?e) (hfs w1) (s_head s1)"
    "list_all valid_utf8 (case Some command of None \<Rightarrow> [] | Some cmd \<Rightarrow> cmd)" "valid_utf8 []"
    using assms(4,7,8) s1 by (simp_all add: valid_utf8_ascii)
  obtain w2 where w2: "checkpoint sha ?e s1 (Some command) code [] w1 = (Inr c, w2)" "recorded sha root B c (map entry_fix t) w1 w2"
    by (rule checkpoint_files [OF files_only_process p(1,2) assms(6) p(3,4) assms(9) p(5)])
      (use s1(2,3) that in \<open>simp add: c_def\<close>)
  have ci: "valid_utf8 (c_id c)" "id_ok (c_id c)" using ck_id_ok(1,2) by (simp_all add: c_def ckpt_of_def)
  obtain w' where w': "set_head ?e s1 c w2 = (Inr (s1\<lparr>s_head := c_id c\<rparr>), w')" "recorded sha root B c (map entry_fix t) w1 w'"
    "Sandbox root (hfs w') (s_id s) = Inr (s1\<lparr>s_head := c_id c\<rparr>)"
    using set_head_ok [of sha ?e B c "map entry_fix t" w1 w2 s1] w2(2) so(1,3) ci s1(4) by auto
  have x: "b_Exec (ProcessBackend run) (s_id s) (work_dir root s) command (environ w) w = (Inr code, w1)"
    using assms(1-3) by (auto simp: ProcessBackend_def ProcessExec_def run_cmd_def ended_with_def)
  have "Run sha ?e s command w = (Inr (c, s1\<lparr>s_head := c_id c\<rparr>), w')"
    using x w2(1) w'(1) WorkDir_path [OF so(2)]
    by (simp add: Run_def ensureMachine_def ProcessBackend_def os_Environ_def io Let_def s1_def)
  with that w' show ?thesis by blast
qed

subsection \<open>Changes outside the store and the records\<close>

text \<open>
  What a command, or a restore into the working directory, may change: anything but the store and
  the records.
\<close>

definition leaves_records :: "path \<Rightarrow> 'z eworld_scheme \<Rightarrow> 'z eworld_scheme \<Rightarrow> bool" where
  "leaves_records root w w' \<longleftrightarrow> fs_ok (hfs w') \<and> zeroHashes w' = zeroHashes w \<and> clock w' = clock w \<and>
     (\<forall>q. records_path root q \<longrightarrow> fmlookup (hfs w') q = fmlookup (hfs w) q)"

lemma leaves_recordsD:
  assumes "repo_ok sha root B w" and "leaves_records root w w'"
  shows "repo_ok sha root B w'" and "blobs (root @ [''blobs'']) (hfs w') = blobs (root @ [''blobs'']) (hfs w)"
    and "\<And>i. id_ok i \<Longrightarrow> Checkpoint root (hfs w') i = Checkpoint root (hfs w) i"
    and "\<And>h t. hash_name h \<Longrightarrow> loadTree root (hfs w') h = Inr t \<longleftrightarrow> loadTree root (hfs w) h = Inr t"
proof -
  note r = repo_okD [OF assms(1)]
  have ok: "fs_ok (hfs w')" and z: "zeroHashes w' = zeroHashes w" using assms(2) by (auto simp: leaves_records_def)
  have e: "fmlookup (hfs w') q = fmlookup (hfs w) q" if "prefix (root @ [''blobs'']) q" for q
    using assms(2) that by (simp add: leaves_records_def records_path_def)
  have d: "fmlookup (hfs w') (root @ d # q) = fmlookup (hfs w) (root @ d # q)" if "d \<in> {''checkpoints'', ''sandboxes''}" for d q
  proof -
    have "prefix (root @ [d]) (root @ d # q)" by simp
    with that assms(2) show ?thesis unfolding leaves_records_def records_path_def by blast
  qed
  have c: "records_ok root ''checkpoints'' (hfs w')" "records_ok root ''sandboxes'' (hfs w')"
    using records_agree [OF r(6) ok d] records_agree [OF r(7) ok d] by simp_all
  have "img_inv sha (root @ [''blobs'']) B w'"
    using safe_agree [OF r(2) ok e] r(1) z by (simp add: img_inv_def memo_ok_def)
  with c show r': "repo_ok sha root B w'" by (simp add: repo_ok_def)
  show b: "blobs (root @ [''blobs'']) (hfs w') = blobs (root @ [''blobs'']) (hfs w)" by (rule store_agree(2) [OF r(3) ok e])
  show "Checkpoint root (hfs w') i = Checkpoint root (hfs w) i" if "id_ok i" for i
    using Checkpoint_agree [OF r(6) c(1) that] d by simp
  show "loadTree root (hfs w') h = Inr t \<longleftrightarrow> loadTree root (hfs w) h = Inr t" if "hash_name h" for h t
    using Get_blobs [OF r(3) that] Get_blobs [OF repo_okD(3) [OF r'] that] b by (simp add: loadTree_def)
qed

lemma leaves_head:
  assumes "repo_ok sha root B w" and "leaves_records root w w'" and "head_ok root (hfs w) h"
  shows "head_ok root (hfs w') h" and "parent_tree root (hfs w') h = parent_tree root (hfs w) h"
  using leaves_recordsD(3,4) [OF assms(1,2)] parent_tree_keep [OF assms(3), of "hfs w'"] by blast+

lemma lineage_ids:
  assumes "lineage root f i cs" and "\<forall>c \<in> set cs. id_ok (c_parent c)" and "Checkpoint root f j = Inl err" and "j \<noteq> []"
  shows "\<forall>c \<in> set cs. id_ok (c_parent c) \<and> c_parent c \<noteq> j"
  using assms by (induction rule: lineage.induct) (auto elim: lineage.cases)

lemma lineage_leaves:
  assumes "lineage root f i cs" and "\<And>k. id_ok k \<Longrightarrow> Checkpoint root g k = Checkpoint root f k"
    and "id_ok i" and "\<forall>c \<in> set cs. id_ok (c_parent c)"
  shows "lineage root g i cs"
  using assms by (induction rule: lineage.induct) (auto intro: lineage.intros)

lemma History_head:
  "Sandbox root f i = Inr s \<Longrightarrow> lineage root f (s_head s) cs \<Longrightarrow> History root f i = Some (Inr cs)"
  by (simp add: History_def lineage_history)

lemma recorded_lineage:
  assumes "recorded sha root B c t w w'" and "lineage root (hfs w) (c_parent c) cs" and "id_ok (c_parent c)"
    and "\<forall>d \<in> set cs. id_ok (c_parent d)" and "Checkpoint root (hfs w) (c_id c) = Inl err" and "c_id c \<noteq> []"
  shows "lineage root (hfs w') (c_id c) (c # cs)"
proof -
  have p: "c_parent c \<noteq> c_id c" using assms(2,5,6) by (auto elim: lineage.cases)
  have "lineage root (hfs w') (c_parent c) cs"
    by (rule lineage_keep [OF assms(2) _ assms(3) p lineage_ids [OF assms(2,4,5,6)]])
      (use assms(1) in \<open>simp add: recorded_def\<close>)
  with assms(1,6) show ?thesis by (auto simp: recorded_def intro: lineage.step)
qed

end
