(* ===== verification/Sync.thy ===== *)
theory Sync
  imports Engine
begin

section \<open>Push and pull (internal/engine/sync.go, internal/remote/store.go, internal/remote/dir.go)\<close>

text \<open>
  An object store maps keys to bytes; the interface is a record of operations over the state.
  \<open>Push\<close> uploads a sandbox's history with every blob it needs, \<open>Pull\<close> downloads a checkpoint with
  everything it needs and checks each blob against its hash. \<open>DirStore\<close> keeps the objects as files
  of a directory. \<open>Push\<close> returns nothing (\<open>None\<close>) where the history never ends, and so does a listing whose
  pages never end.
\<close>

subsection \<open>Object stores\<close>

record 's object_store =
  o_Put :: "string \<Rightarrow> bytes \<Rightarrow> ('s, unit) io"
  o_Get :: "string \<Rightarrow> ('s, bytes) io"
  o_Has :: "string \<Rightarrow> ('s, bool) io"
  o_List :: "string \<Rightarrow> 's \<Rightarrow> ((err + string list) \<times> 's) option"

subsection \<open>Keys\<close>

definition blobKey :: "string \<Rightarrow> string" where
  "blobKey sha = ''blobs/'' @ sha"

definition checkpointKey :: "string \<Rightarrow> string" where
  "checkpointKey i = ''checkpoints/'' @ i @ ''.json''"

definition sandboxKey :: "string \<Rightarrow> string" where
  "sandboxKey i = ''sandboxes/'' @ i @ ''.json''"

subsection \<open>Push\<close>

record push_stats =
  ps_Checkpoints :: int
  ps_Blobs :: int
  ps_BlobsSkipped :: int

text \<open>\<open>json.Marshal\<close> with its error ignored: nothing for a year it refuses.\<close>

definition marshal_ckpt :: "ckpt \<Rightarrow> bytes" where
  "marshal_ckpt c = (if time_marshals (c_created c) then emit None (ckpt_json c) else [])"

definition marshal_sandbox :: "sandbox \<Rightarrow> bytes" where
  "marshal_sandbox s = (if time_marshals (s_created s) then emit None (sandbox_json s) else [])"

definition pushBlob ::
  "path \<Rightarrow> 'z world_scheme object_store \<Rightarrow> string \<Rightarrow> push_stats \<Rightarrow> ('z world_scheme, push_stats) io" where
  "pushBlob root store sha st =
     bindE (o_Has store (blobKey sha)) (\<lambda>has.
       if has then ret (st\<lparr>ps_BlobsSkipped := ps_BlobsSkipped st + 1\<rparr>)
       else
         bindE (gets hfs) (\<lambda>f.
           case Get (CAS root) f sha of
             Inl e \<Rightarrow> fail (Errorf ''reading blob %s: %w'' [sha] (Some e))
           | Inr data \<Rightarrow>
               bindE (o_Put store (blobKey sha) data) (\<lambda>_. ret (st\<lparr>ps_Blobs := ps_Blobs st + 1\<rparr>))))"

fun push_blobs ::
  "path \<Rightarrow> 'z world_scheme object_store \<Rightarrow> string list \<Rightarrow> push_stats \<Rightarrow> ('z world_scheme, push_stats) io" where
  "push_blobs root store [] st = ret st"
| "push_blobs root store (sha # shas) st = bindE (pushBlob root store sha st) (push_blobs root store shas)"

text \<open>The manifests among a checkpoint's hashes, and their chunks.\<close>

fun image_shas :: "path \<Rightarrow> fs \<Rightarrow> string list \<Rightarrow> err + string list" where
  "image_shas root f [] = Inr []"
| "image_shas root f (h # hs) =
     (if h = [] then image_shas root f hs
      else case ReadManifest (CAS root) f h of
        Inl e \<Rightarrow> Inl e
      | Inr m \<Rightarrow>
          (case image_shas root f hs of Inl e \<Rightarrow> Inl e | Inr rest \<Rightarrow> Inr (h # m_chunks m @ rest)))"

definition file_shas :: "tree \<Rightarrow> string list" where
  "file_shas t = filter (\<lambda>h. h \<noteq> []) (map e_hash t)"

definition needed_shas :: "path \<Rightarrow> fs \<Rightarrow> ckpt \<Rightarrow> err + string list" where
  "needed_shas root f c =
     (case loadTree root f (c_tree_hash c) of
        Inl e \<Rightarrow> Inl e
      | Inr t \<Rightarrow>
          (case image_shas root f [c_mem_hash c, c_disk_hash c, c_base_hash c] of
             Inl e \<Rightarrow> Inl e
           | Inr imgs \<Rightarrow>
               Inr (c_tree_hash c # file_shas t @ (if c_state_hash c = [] then [] else [c_state_hash c]) @ imgs)))"

definition pushCheckpoint ::
  "path \<Rightarrow> 'z world_scheme object_store \<Rightarrow> ckpt \<Rightarrow> push_stats \<Rightarrow> ('z world_scheme, push_stats) io" where
  "pushCheckpoint root store c st =
     bindE (gets hfs) (\<lambda>f.
     bindE (lift_res (needed_shas root f c)) (\<lambda>shas.
     bindE (push_blobs root store shas st) (\<lambda>st1.
     bindE (o_Put store (checkpointKey (c_id c)) (marshal_ckpt c)) (\<lambda>_.
     ret (st1\<lparr>ps_Checkpoints := ps_Checkpoints st1 + 1\<rparr>)))))"

fun push_history ::
  "path \<Rightarrow> 'z world_scheme object_store \<Rightarrow> ckpt list \<Rightarrow> push_stats \<Rightarrow> ('z world_scheme, push_stats) io" where
  "push_history root store [] st = ret st"
| "push_history root store (c # cs) st = bindE (pushCheckpoint root store c st) (push_history root store cs)"

definition no_stats :: push_stats where
  "no_stats = \<lparr>ps_Checkpoints = 0, ps_Blobs = 0, ps_BlobsSkipped = 0\<rparr>"

definition Push ::
  "path \<Rightarrow> string \<Rightarrow> 'z world_scheme object_store \<Rightarrow> 'z world_scheme \<Rightarrow> ((err + push_stats) \<times> 'z world_scheme) option" where
  "Push root sandboxID store w =
     (case Sandbox root (hfs w) sandboxID of
        Inl e \<Rightarrow> Some (Inl e, w)
      | Inr s \<Rightarrow>
          (case History root (hfs w) (s_id s) of
             None \<Rightarrow> None
           | Some (Inl e) \<Rightarrow> Some (Inl e, w)
           | Some (Inr hist) \<Rightarrow>
               Some (bindE (push_history root store hist no_stats) (\<lambda>st.
                 bindE (o_Put store (sandboxKey (s_id s)) (marshal_sandbox s)) (\<lambda>_. ret st)) w)))"

subsection \<open>Pull\<close>

definition pullBlob ::
  "hasher \<Rightarrow> path \<Rightarrow> 'z world_scheme object_store \<Rightarrow> string \<Rightarrow> ('z world_scheme, bytes) io" where
  "pullBlob sha root store h =
     bindE (gets hfs) (\<lambda>f.
       if Has (CAS root) f h then lift_res (Get (CAS root) f h)
       else
         bindE (attempt (o_Get store (blobKey h))) (\<lambda>r.
           case r of
             Inl e \<Rightarrow> fail (Errorf ''pulling blob %s: %w'' [h] (Some e))
           | Inr data \<Rightarrow>
               bindE (Put sha (CAS root) data) (\<lambda>got.
                 if got \<noteq> h then fail (Errorf ''blob %s in the store hashes to %s'' [h, got] None)
                 else ret data)))"

definition pull_ignoring ::
  "hasher \<Rightarrow> path \<Rightarrow> 'z world_scheme object_store \<Rightarrow> string \<Rightarrow> ('z world_scheme, unit) io" where
  "pull_ignoring sha root store h = bindE (pullBlob sha root store h) (\<lambda>_. ret ())"

definition pull_image ::
  "hasher \<Rightarrow> path \<Rightarrow> 'z world_scheme object_store \<Rightarrow> string \<Rightarrow> ('z world_scheme, unit) io" where
  "pull_image sha root store h =
     (if h = [] then ret ()
      else
        bindE (pull_ignoring sha root store h) (\<lambda>_.
        bindE (gets hfs) (\<lambda>f.
        bindE (lift_res (ReadManifest (CAS root) f h)) (\<lambda>m.
        for_each (m_chunks m) (pull_ignoring sha root store)))))"

definition Pull ::
  "hasher \<Rightarrow> path \<Rightarrow> 'z world_scheme object_store \<Rightarrow> string \<Rightarrow> ('z world_scheme, ckpt) io" where
  "Pull sha root store checkpointID =
     bindE (attempt (o_Get store (checkpointKey checkpointID))) (\<lambda>r.
       case r of
         Inl e \<Rightarrow>
           fail (if e = ErrObjectNotFound then Errorf ''no checkpoint %s in the store'' [checkpointID] None else e)
       | Inr cb \<Rightarrow>
           (case unmarshal_with dec_ckpt cb of
              None \<Rightarrow> fail (Errorf ''json'' [] None)
            | Some c \<Rightarrow>
                bindE (pullBlob sha root store (c_tree_hash c)) (\<lambda>tb.
                  case Unmarshal tb of
                    None \<Rightarrow> fail (Errorf ''json'' [] None)
                  | Some t \<Rightarrow>
                      bindE (for_each (file_shas t) (pull_ignoring sha root store)) (\<lambda>_.
                      bindE (for_each (filter (\<lambda>h. h \<noteq> []) [c_state_hash c]) (pull_ignoring sha root store)) (\<lambda>_.
                      bindE (for_each [c_mem_hash c, c_disk_hash c, c_base_hash c] (pull_image sha root store)) (\<lambda>_.
                      bindE (SaveCheckpoint root c) (\<lambda>_. ret c)))))))"

subsection \<open>Directory stores (dir.go)\<close>

definition NewDirStore :: "path \<Rightarrow> ('z world_scheme, path) io" where
  "NewDirStore d =
     bindE (gets umask) (\<lambda>um. bindE (on_fs (MkdirAll um d mode_0755)) (\<lambda>_. ret d))"

definition dir_path :: "path \<Rightarrow> string \<Rightarrow> path" where
  "dir_path d key = fp_join d key"

definition dir_Put :: "path \<Rightarrow> string \<Rightarrow> bytes \<Rightarrow> ('z world_scheme, unit) io" where
  "dir_Put d key data =
     (let p = dir_path d key; tmp = with_suffix p ''.tmp'' in
      bindE (gets umask) (\<lambda>um.
      bindE (on_fs (MkdirAll um (butlast p) mode_0755)) (\<lambda>_.
      bindE (on_fs (WriteFile um tmp data mode_0644)) (\<lambda>_.
      on_fs (Rename tmp p)))))"

definition dir_Get :: "path \<Rightarrow> string \<Rightarrow> ('z world_scheme, bytes) io" where
  "dir_Get d key =
     bindE (gets hfs) (\<lambda>f.
       case ReadFile f (dir_path d key) of
         Inl e \<Rightarrow> fail (if e = Errno ENOENT then ErrObjectNotFound else e)
       | Inr b \<Rightarrow> ret b)"

definition dir_Has :: "path \<Rightarrow> string \<Rightarrow> ('z world_scheme, bool) io" where
  "dir_Has d key =
     bindE (gets hfs) (\<lambda>f.
       case Stat f (dir_path d key) of
         Inr i \<Rightarrow> ret True
       | Inl e \<Rightarrow> if e = Errno ENOENT then ret False else fail e)"

definition dir_List :: "path \<Rightarrow> string \<Rightarrow> ('z world_scheme, string list) io" where
  "dir_List d p =
     bindE (gets hfs) (\<lambda>f.
       let base = path_text (fp_join d p);
           visited = (case Walk f d of Inl e \<Rightarrow> [] | Inr l \<Rightarrow> l)
       in ret (map (Rel \<circ> fst) (filter (\<lambda>(r, i).
            \<not> is_dir i \<and> \<not> HasSuffix (path_text (d @ r)) ''.tmp'' \<and> HasPrefix (path_text (d @ r)) base) visited)))"

definition DirStore :: "path \<Rightarrow> 'z world_scheme object_store" where
  "DirStore d = \<lparr>o_Put = dir_Put d, o_Get = dir_Get d, o_Has = dir_Has d, o_List = \<lambda>p w. Some (dir_List d p w)\<rparr>"

end
