(* ===== verification/SyncProps.thy ===== *)
theory SyncProps
  imports Sync RepoInv
begin

section \<open>What push and pull promise\<close>

text \<open>
  The locale \<open>object_map\<close> is what \<open>Push\<close> and \<open>Pull\<close> rely on: the object store is a map from keys
  to bytes that does not overlap the repository. In it, \<open>Push\<close> is shown to be one update of that
  map, and \<open>Pull\<close> to bring a checkpoint with everything it needs. The directory store interprets
  it.
\<close>

subsection \<open>What a checkpoint needs\<close>

text \<open>
  Over a map from hashes to bytes: the tree, the contents of its files, the machine's state, and
  the images with their chunks.
\<close>

definition image_in :: "(string \<rightharpoonup> bytes) \<Rightarrow> string \<Rightarrow> string list \<Rightarrow> bool" where
  "image_in get h chunks \<longleftrightarrow> (\<exists>b m. get h = Some b \<and> unmarshal_manifest b = Some m \<and> m_chunked m = 1 \<and> m_chunks m = chunks)"

definition images :: "ckpt \<Rightarrow> string list" where
  "images c = filter (\<lambda>h. h \<noteq> []) [c_mem_hash c, c_disk_hash c, c_base_hash c]"

definition complete :: "(string \<rightharpoonup> bytes) \<Rightarrow> ckpt \<Rightarrow> tree \<Rightarrow> (string \<Rightarrow> string list) \<Rightarrow> bool" where
  "complete get c t chunks \<longleftrightarrow>
     (\<exists>tb. get (c_tree_hash c) = Some tb \<and> Unmarshal tb = Some t) \<and>
     (\<forall>h \<in> set (file_shas t). get h \<noteq> None) \<and>
     (\<forall>h \<in> set (filter (\<lambda>h. h \<noteq> []) [c_state_hash c]). get h \<noteq> None) \<and>
     (\<forall>h \<in> set (images c). image_in get h (chunks h) \<and> (\<forall>k \<in> set (chunks h). get k \<noteq> None))"

text \<open>The hashes, in the order in which they are pushed.\<close>

definition shas_of :: "ckpt \<Rightarrow> tree \<Rightarrow> (string \<Rightarrow> string list) \<Rightarrow> string list" where
  "shas_of c t chunks = c_tree_hash c # file_shas t @ filter (\<lambda>h. h \<noteq> []) [c_state_hash c] @
     concat (map (\<lambda>h. h # chunks h) (images c))"

lemma complete_all: "complete get c t chunks \<Longrightarrow> h \<in> set (shas_of c t chunks) \<Longrightarrow> get h \<noteq> None"
  by (auto simp: complete_def shas_of_def image_in_def split: if_splits)

lemma complete_mono:
  assumes "complete get c t chunks" and "\<And>h. h \<in> set (shas_of c t chunks) \<Longrightarrow> get' h = get h"
  shows "complete get' c t chunks"
proof -
  have e: "get' (c_tree_hash c) = get (c_tree_hash c)" "\<And>h. h \<in> set (file_shas t) \<Longrightarrow> get' h = get h"
    "\<And>h. h \<in> set (filter (\<lambda>h. h \<noteq> []) [c_state_hash c]) \<Longrightarrow> get' h = get h"
    "\<And>h. h \<in> set (images c) \<Longrightarrow> get' h = get h" "\<And>h k. h \<in> set (images c) \<Longrightarrow> k \<in> set (chunks h) \<Longrightarrow> get' k = get k"
    by (intro assms(2); force simp: shas_of_def)+
  from assms(1) show ?thesis unfolding complete_def image_in_def using e by (metis (no_types, lifting))
qed

lemma image_shas_complete:
  assumes "safe_store sha (root @ [''blobs'']) B f" and "\<forall>h \<in> set hs. h \<noteq> [] \<longrightarrow> image_in (blobs (root @ [''blobs'']) f) h (chunks h)"
  shows "image_shas root f hs = Inr (concat (map (\<lambda>h. h # chunks h) (filter (\<lambda>h. h \<noteq> []) hs)))"
  using assms(2)
proof (induction hs)
  case (Cons h hs)
  show ?case
  proof (cases "h = []")
    case False
    with Cons.prems obtain b m where "blobs (root @ [''blobs'']) f h = Some b" "unmarshal_manifest b = Some m"
      "m_chunked m = 1" "m_chunks m = chunks h" by (auto simp: image_in_def)
    with safe_Get [OF assms(1)] have "ReadManifest (root @ [''blobs'']) f h = Inr m" by (simp add: ReadManifest_def)
    with \<open>m_chunks m = chunks h\<close> False Cons show ?thesis by simp
  qed (use Cons in simp)
qed simp

lemma needed_shas_complete:
  assumes "safe_store sha (root @ [''blobs'']) B f" and "complete (blobs (root @ [''blobs'']) f) c t chunks"
  shows "needed_shas root f c = Inr (shas_of c t chunks)"
proof -
  from assms(2) obtain tb where tb: "blobs (root @ [''blobs'']) f (c_tree_hash c) = Some tb" "Unmarshal tb = Some t"
    by (auto simp: complete_def)
  have "loadTree root f (c_tree_hash c) = Inr t" using safe_Get [OF assms(1) tb(1)] tb(2) by (simp add: loadTree_def)
  moreover have "image_shas root f [c_mem_hash c, c_disk_hash c, c_base_hash c] =
      Inr (concat (map (\<lambda>h. h # chunks h) (images c)))"
    using assms(2) unfolding images_def by (intro image_shas_complete [OF assms(1)]) (simp add: complete_def images_def)
  ultimately show ?thesis by (simp add: needed_shas_def shas_of_def)
qed

subsection \<open>Object stores as maps\<close>

text \<open>The bytes stored under the keys of blobs, as a map from hashes.\<close>

definition remote_blobs :: "(string \<rightharpoonup> bytes) \<Rightarrow> string \<rightharpoonup> bytes" where
  "remote_blobs m h = m (blobKey h)"

text \<open>Each blob in the object store is under its hash.\<close>

definition addressed :: "hasher \<Rightarrow> bytes set \<Rightarrow> (string \<rightharpoonup> bytes) \<Rightarrow> bool" where
  "addressed sha B m \<longleftrightarrow> (\<forall>h b. remote_blobs m h = Some b \<longrightarrow> h = hashOf sha b \<and> b \<in> B)"

text \<open>What pushing makes of the map: missing blobs are added, those there are kept.\<close>

definition with_blobs :: "(string \<rightharpoonup> bytes) \<Rightarrow> string list \<Rightarrow> (string \<rightharpoonup> bytes) \<Rightarrow> string \<rightharpoonup> bytes" where
  "with_blobs get shas m = fold (\<lambda>h m. if m (blobKey h) = None then m(blobKey h := get h) else m) shas m"

lemma keys_differ [simp]:
  "blobKey h = blobKey k \<longleftrightarrow> h = k" "checkpointKey i = checkpointKey j \<longleftrightarrow> i = j"
  "blobKey h \<noteq> checkpointKey i" "checkpointKey i \<noteq> blobKey h" "blobKey h \<noteq> sandboxKey i" "sandboxKey i \<noteq> blobKey h"
  "checkpointKey i \<noteq> sandboxKey j" "sandboxKey j \<noteq> checkpointKey i"
  by (simp_all add: blobKey_def checkpointKey_def sandboxKey_def)

lemma with_blobs_simps:
  "with_blobs get [] m = m"
  "with_blobs get (k # ks) m = with_blobs get ks (if m (blobKey k) = None then m(blobKey k := get k) else m)"
  by (simp_all add: with_blobs_def)

lemma with_blobs_blob:
  "with_blobs get shas m (blobKey h) = (if m (blobKey h) = None \<and> h \<in> set shas then get h else m (blobKey h))"
  by (induction shas arbitrary: m) (auto simp: with_blobs_simps)

lemma with_blobs_other: "(\<And>h. k \<noteq> blobKey h) \<Longrightarrow> with_blobs get shas m k = m k"
  by (induction shas arbitrary: m) (auto simp: with_blobs_simps)

text \<open>The keys that are used.\<close>

definition obj_keys :: "string set" where
  "obj_keys = blobKey ` {h. hash_name h} \<union> checkpointKey ` {i. id_ok i} \<union> sandboxKey ` {i. id_ok i}"

lemma obj_keysI [intro]:
  "hash_name h \<Longrightarrow> blobKey h \<in> obj_keys" "id_ok i \<Longrightarrow> checkpointKey i \<in> obj_keys" "id_ok i \<Longrightarrow> sandboxKey i \<in> obj_keys"
  by (auto simp: obj_keys_def)

text \<open>One checkpoint pushed: its blobs, then its record.\<close>

definition pushed ::
  "(string \<rightharpoonup> bytes) \<Rightarrow> ckpt \<times> tree \<times> (string \<Rightarrow> string list) \<Rightarrow> (string \<rightharpoonup> bytes) \<Rightarrow> string \<rightharpoonup> bytes" where
  "pushed get x m = (case x of (c, t, chunks) \<Rightarrow>
     (with_blobs get (shas_of c t chunks) m)(checkpointKey (c_id c) \<mapsto> marshal_ckpt c))"

text \<open>A history with what each of its checkpoints needs; and whether all of that is there already.\<close>

definition history_complete :: "(string \<rightharpoonup> bytes) \<Rightarrow> (ckpt \<times> tree \<times> (string \<Rightarrow> string list)) list \<Rightarrow> bool" where
  "history_complete get cs \<longleftrightarrow> (\<forall>(c, t, chunks) \<in> set cs. id_ok (c_id c) \<and> complete get c t chunks)"

definition all_present :: "(string \<rightharpoonup> bytes) \<Rightarrow> (ckpt \<times> tree \<times> (string \<Rightarrow> string list)) list \<Rightarrow> bool" where
  "all_present m cs \<longleftrightarrow> (\<forall>(c, t, chunks) \<in> set cs. \<forall>h \<in> set (shas_of c t chunks). m (blobKey h) \<noteq> None)"

lemma history_complete_Cons:
  "history_complete get ((c, t, chunks) # cs) \<longleftrightarrow> id_ok (c_id c) \<and> complete get c t chunks \<and> history_complete get cs"
  by (auto simp: history_complete_def)

lemma all_present_Cons:
  "all_present m ((c, t, chunks) # cs) \<longleftrightarrow> (\<forall>h \<in> set (shas_of c t chunks). m (blobKey h) \<noteq> None) \<and> all_present m cs"
  by (auto simp: all_present_def)

lemma all_present_mono: "all_present m cs \<Longrightarrow> (\<And>h. m (blobKey h) \<noteq> None \<Longrightarrow> m' (blobKey h) \<noteq> None) \<Longrightarrow> all_present m' cs"
  by (fastforce simp: all_present_def)

lemma pushed_blob:
  "fold (pushed get) cs m (blobKey h) =
     (if m (blobKey h) = None \<and> (\<exists>(c, t, chunks) \<in> set cs. h \<in> set (shas_of c t chunks)) then get h else m (blobKey h))"
proof (induction cs arbitrary: m)
  case (Cons x cs)
  obtain c t chunks where x: "x = (c, t, chunks)" by (cases x)
  have "pushed get x m (blobKey h) = (if m (blobKey h) = None \<and> h \<in> set (shas_of c t chunks) then get h else m (blobKey h))"
    by (simp add: x pushed_def with_blobs_blob)
  with Cons [of "pushed get x m"] show ?case by (auto simp: x)
qed simp

lemma pushed_ckpt:
  assumes "c \<in> fst ` set cs \<or> m (checkpointKey (c_id c)) = Some (marshal_ckpt c)"
    and "\<forall>c' \<in> fst ` set cs. c_id c' = c_id c \<longrightarrow> c' = c"
  shows "fold (pushed get) cs m (checkpointKey (c_id c)) = Some (marshal_ckpt c)"
  using assms
proof (induction cs arbitrary: m)
  case (Cons x cs)
  obtain d t chunks where x: "x = (d, t, chunks)" by (cases x)
  have "c \<in> fst ` set cs \<or> pushed get x m (checkpointKey (c_id c)) = Some (marshal_ckpt c)"
    using Cons.prems by (auto simp: x pushed_def with_blobs_other)
  with Cons show ?case by simp
qed auto

text \<open>
  The contract of an object store. Its operations may change the world (a request takes time), but neither the files of
  the repository nor, apart from \<open>Put\<close>, the objects. The keys it serves are a parameter: those of blobs are among them.
\<close>

locale object_map =
  fixes store :: "'z world_scheme object_store" and root :: path
    and objs :: "'z world_scheme \<Rightarrow> string \<rightharpoonup> bytes" and inv :: "'z world_scheme \<Rightarrow> bool" and keys :: "string set"
  assumes put_obj: "inv w \<Longrightarrow> k \<in> keys \<Longrightarrow>
      \<exists>w'. o_Put store k d w = (Inr (), w') \<and> inv w' \<and> objs w' = (objs w)(k \<mapsto> d) \<and> local_same root w w'"
    and get_obj: "inv w \<Longrightarrow> k \<in> keys \<Longrightarrow>
      \<exists>w'. o_Get store k w = ((case objs w k of None \<Rightarrow> Inl ErrObjectNotFound | Some d \<Rightarrow> Inr d), w') \<and>
        inv w' \<and> objs w' = objs w \<and> local_same root w w'"
    and has_obj: "inv w \<Longrightarrow> k \<in> keys \<Longrightarrow>
      \<exists>w'. o_Has store k w = (Inr (objs w k \<noteq> None), w') \<and> inv w' \<and> objs w' = objs w \<and> local_same root w w'"
    and blob_key: "hash_name (hex_encode b) \<Longrightarrow> blobKey (hex_encode b) \<in> keys"
    and other_change: "inv w \<Longrightarrow> fs_ok (hfs w') \<Longrightarrow> world.more w' = world.more w \<Longrightarrow>
      (\<And>q. \<not> prefix root q \<Longrightarrow> fmlookup (hfs w') q = fmlookup (hfs w) q) \<Longrightarrow> inv w' \<and> objs w' = objs w"
begin

lemma pushBlob_ok:
  assumes "repo_ok sha root B w" and "inv w" and "blobs (root @ [''blobs'']) (hfs w) h = Some b"
  shows "\<exists>w' st'. pushBlob root store h st w = (Inr st', w') \<and> inv w' \<and> local_same root w w' \<and>
    objs w' = (if objs w (blobKey h) = None then (objs w)(blobKey h := Some b) else objs w) \<and>
    ps_Checkpoints st' = ps_Checkpoints st \<and>
    ps_Blobs st' + ps_BlobsSkipped st' = ps_Blobs st + ps_BlobsSkipped st + 1 \<and>
    (objs w (blobKey h) \<noteq> None \<longrightarrow> ps_Blobs st' = ps_Blobs st)"
proof -
  have n: "blobKey h \<in> keys"
    using blob_key [of "sha b"] safe_addressed [OF repo_okD(2) [OF assms(1)] assms(3)] assms(3)
    by (auto simp: hashOf_def elim: blobs_SomeE)
  from has_obj [OF assms(2) n] obtain w0 where w0: "o_Has store (blobKey h) w = (Inr (objs w (blobKey h) \<noteq> None), w0)"
    "inv w0" "objs w0 = objs w" "local_same root w w0" by blast
  note l0 = repo_ok_local [OF assms(1) w0(4)]
  show ?thesis
  proof (cases "objs w (blobKey h)")
    case None
    from put_obj [OF w0(2) n, of b] obtain w1 where w1: "o_Put store (blobKey h) b w0 = (Inr (), w1)" "inv w1"
      "objs w1 = (objs w)(blobKey h \<mapsto> b)" "local_same root w0 w1" unfolding w0(3) by blast
    have "Get (root @ [''blobs'']) (hfs w0) h = Inr b" using safe_Get [OF repo_okD(2) [OF l0(1)]] assms(3) l0(2) by simp
    with None w1(1) w0(1)
    have "pushBlob root store h st w = (Inr (st\<lparr>ps_Blobs := ps_Blobs st + 1\<rparr>), w1)" by (simp add: pushBlob_def io)
    with None w1 local_same_trans [OF w0(4) w1(4)] show ?thesis by simp
  next
    case (Some d)
    with w0 show ?thesis by (simp add: pushBlob_def)
  qed
qed

lemma push_blobs_ok:
  assumes "repo_ok sha root B w" and "inv w" and "\<forall>h \<in> set shas. blobs (root @ [''blobs'']) (hfs w) h \<noteq> None"
  shows "\<exists>w' st'. push_blobs root store shas st w = (Inr st', w') \<and> inv w' \<and> local_same root w w' \<and>
    objs w' = with_blobs (blobs (root @ [''blobs'']) (hfs w)) shas (objs w) \<and>
    ps_Checkpoints st' = ps_Checkpoints st \<and>
    ps_Blobs st' + ps_BlobsSkipped st' = ps_Blobs st + ps_BlobsSkipped st + int (length shas) \<and>
    ((\<forall>h \<in> set shas. objs w (blobKey h) \<noteq> None) \<longrightarrow> ps_Blobs st' = ps_Blobs st)"
  using assms
proof (induction shas arbitrary: w st)
  case Nil
  with repo_okD(4) [OF Nil(1)] show ?case by (simp add: with_blobs_def local_same_refl)
next
  case (Cons h hs)
  from Cons.prems(3) obtain b where b: "blobs (root @ [''blobs'']) (hfs w) h = Some b" by auto
  from pushBlob_ok [OF Cons.prems(1,2) b, of st] obtain w1 st1 where
    w1: "pushBlob root store h st w = (Inr st1, w1)" "inv w1" "local_same root w w1"
      "objs w1 = (if objs w (blobKey h) = None then (objs w)(blobKey h := Some b) else objs w)"
      "ps_Checkpoints st1 = ps_Checkpoints st"
      "ps_Blobs st1 + ps_BlobsSkipped st1 = ps_Blobs st + ps_BlobsSkipped st + 1"
      "objs w (blobKey h) \<noteq> None \<longrightarrow> ps_Blobs st1 = ps_Blobs st" by blast
  note l = repo_ok_local [OF Cons.prems(1) w1(3)]
  from Cons.IH [OF l(1) w1(2), of st1] Cons.prems(3) l(2) obtain w2 st2 where
    w2: "push_blobs root store hs st1 w1 = (Inr st2, w2)" "inv w2" "local_same root w1 w2"
    "objs w2 = with_blobs (blobs (root @ [''blobs'']) (hfs w)) hs (objs w1)"
    "ps_Checkpoints st2 = ps_Checkpoints st1"
    "ps_Blobs st2 + ps_BlobsSkipped st2 = ps_Blobs st1 + ps_BlobsSkipped st1 + int (length hs)"
    "(\<forall>h \<in> set hs. objs w1 (blobKey h) \<noteq> None) \<longrightarrow> ps_Blobs st2 = ps_Blobs st1" by auto
  have "push_blobs root store (h # hs) st w = (Inr st2, w2)" using w1(1) w2(1) by simp
  moreover have "objs w2 = with_blobs (blobs (root @ [''blobs'']) (hfs w)) (h # hs) (objs w)"
    by (simp add: w2(4) w1(4) b with_blobs_def)
  moreover have "(\<forall>h \<in> set (h # hs). objs w (blobKey h) \<noteq> None) \<longrightarrow> ps_Blobs st2 = ps_Blobs st"
    using w2(7) w1(4,7) by simp
  ultimately show ?case using w2 w1 local_same_trans [OF w1(3) w2(3)] by simp
qed

lemma pushCheckpoint_ok:
  assumes "repo_ok sha root B w" and "inv w" and "checkpointKey (c_id c) \<in> keys"
    and "complete (blobs (root @ [''blobs'']) (hfs w)) c t chunks"
  shows "\<exists>w' st'. pushCheckpoint root store c st w = (Inr st', w') \<and> inv w' \<and> local_same root w w' \<and>
    objs w' = pushed (blobs (root @ [''blobs'']) (hfs w)) (c, t, chunks) (objs w) \<and>
    ps_Checkpoints st' = ps_Checkpoints st + 1 \<and>
    ps_Blobs st' + ps_BlobsSkipped st' = ps_Blobs st + ps_BlobsSkipped st + int (length (shas_of c t chunks)) \<and>
    ((\<forall>h \<in> set (shas_of c t chunks). objs w (blobKey h) \<noteq> None) \<longrightarrow> ps_Blobs st' = ps_Blobs st)"
proof -
  note n = needed_shas_complete [OF repo_okD(2) [OF assms(1)] assms(4)]
  from push_blobs_ok [OF assms(1,2), of "shas_of c t chunks" st] complete_all [OF assms(4)] obtain w1 st1 where
    w1: "push_blobs root store (shas_of c t chunks) st w = (Inr st1, w1)" "inv w1" "local_same root w w1"
    "objs w1 = with_blobs (blobs (root @ [''blobs'']) (hfs w)) (shas_of c t chunks) (objs w)"
    "ps_Checkpoints st1 = ps_Checkpoints st"
    "ps_Blobs st1 + ps_BlobsSkipped st1 = ps_Blobs st + ps_BlobsSkipped st + int (length (shas_of c t chunks))"
    "(\<forall>h \<in> set (shas_of c t chunks). objs w (blobKey h) \<noteq> None) \<longrightarrow> ps_Blobs st1 = ps_Blobs st" by blast
  from put_obj [OF w1(2), of "checkpointKey (c_id c)" "marshal_ckpt c"] assms(3) obtain w2 where
    w2: "o_Put store (checkpointKey (c_id c)) (marshal_ckpt c) w1 = (Inr (), w2)" "inv w2"
    "objs w2 = (objs w1)(checkpointKey (c_id c) \<mapsto> marshal_ckpt c)" "local_same root w1 w2" by auto
  have "pushCheckpoint root store c st w = (Inr (st1\<lparr>ps_Checkpoints := ps_Checkpoints st1 + 1\<rparr>), w2)"
    using n w1(1) w2(1) by (simp add: pushCheckpoint_def io)
  with w1 w2 local_same_trans [OF w1(3) w2(4)] show ?thesis by (simp add: pushed_def)
qed

lemma push_history_ok:
  assumes "repo_ok sha root B w" and "inv w"
    and "history_complete (blobs (root @ [''blobs'']) (hfs w)) cs" and "\<forall>c \<in> fst ` set cs. checkpointKey (c_id c) \<in> keys"
  shows "\<exists>w' st'. push_history root store (map fst cs) st w = (Inr st', w') \<and> inv w' \<and> local_same root w w' \<and>
    objs w' = fold (pushed (blobs (root @ [''blobs'']) (hfs w))) cs (objs w) \<and>
    ps_Checkpoints st' = ps_Checkpoints st + int (length cs) \<and>
    (all_present (objs w) cs \<longrightarrow> ps_Blobs st' = ps_Blobs st)"
  using assms
proof (induction cs arbitrary: w st)
  case Nil
  with repo_okD(4) [OF Nil(1)] show ?case by (simp add: local_same_refl)
next
  case (Cons x cs)
  obtain c t chunks where x: "x = (c, t, chunks)" by (cases x)
  with Cons.prems(3,4) have h: "checkpointKey (c_id c) \<in> keys" "complete (blobs (root @ [''blobs'']) (hfs w)) c t chunks"
    "history_complete (blobs (root @ [''blobs'']) (hfs w)) cs" "\<forall>c \<in> fst ` set cs. checkpointKey (c_id c) \<in> keys"
    by (auto simp: history_complete_Cons)
  from pushCheckpoint_ok [OF Cons.prems(1,2) h(1,2)] obtain w1 st1 where
    w1: "pushCheckpoint root store c st w = (Inr st1, w1)" "inv w1" "local_same root w w1"
    "objs w1 = pushed (blobs (root @ [''blobs'']) (hfs w)) x (objs w)" "ps_Checkpoints st1 = ps_Checkpoints st + 1"
    "(\<forall>h \<in> set (shas_of c t chunks). objs w (blobKey h) \<noteq> None) \<longrightarrow> ps_Blobs st1 = ps_Blobs st"
    unfolding x by metis
  note l = repo_ok_local [OF Cons.prems(1) w1(3)]
  from Cons.IH [OF l(1) w1(2) _ h(4), of st1] h(3) l(2) obtain w2 st2 where
    w2: "push_history root store (map fst cs) st1 w1 = (Inr st2, w2)" "inv w2" "local_same root w1 w2"
    "objs w2 = fold (pushed (blobs (root @ [''blobs'']) (hfs w))) cs (objs w1)"
    "ps_Checkpoints st2 = ps_Checkpoints st1 + int (length cs)"
    "all_present (objs w1) cs \<longrightarrow> ps_Blobs st2 = ps_Blobs st1"
    by metis
  have keep: "objs w1 (blobKey h) \<noteq> None" if "objs w (blobKey h) \<noteq> None" for h
    using that w1(4) x by (auto simp: pushed_def with_blobs_blob)
  have "push_history root store (map fst (x # cs)) st w = (Inr st2, w2)" using w1(1) w2(1) by (simp add: x)
  moreover have "all_present (objs w) (x # cs) \<longrightarrow>
      ps_Blobs st2 = ps_Blobs st"
    using w1(6) w2(6) all_present_mono [of "objs w" cs "objs w1"] keep by (auto simp: x all_present_Cons)
  ultimately show ?case using w1 w2 local_same_trans [OF w1(3) w2(3)] by simp
qed

lemma Push_ok:
  assumes "repo_ok sha root B w" and "inv w" and "Sandbox root (hfs w) sid = Inr s" and "sandboxKey (s_id s) \<in> keys"
    and "History root (hfs w) (s_id s) = Some (Inr (map fst cs))"
    and "history_complete (blobs (root @ [''blobs'']) (hfs w)) cs" and "\<forall>c \<in> fst ` set cs. checkpointKey (c_id c) \<in> keys"
  shows "\<exists>w' st. Push root sid store w = Some (Inr st, w') \<and> inv w' \<and> local_same root w w' \<and>
    objs w' = (fold (pushed (blobs (root @ [''blobs'']) (hfs w))) cs (objs w))(sandboxKey (s_id s) \<mapsto> marshal_sandbox s) \<and>
    ps_Checkpoints st = int (length cs) \<and>
    (all_present (objs w) cs \<longrightarrow> ps_Blobs st = 0)"
proof -
  from push_history_ok [OF assms(1,2,6,7), of no_stats] obtain w1 st1 where
    w1: "push_history root store (map fst cs) no_stats w = (Inr st1, w1)" "inv w1" "local_same root w w1"
    "objs w1 = fold (pushed (blobs (root @ [''blobs'']) (hfs w))) cs (objs w)"
    "ps_Checkpoints st1 = ps_Checkpoints no_stats + int (length cs)"
    "all_present (objs w) cs \<longrightarrow> ps_Blobs st1 = ps_Blobs no_stats" by metis
  from put_obj [OF w1(2), of "sandboxKey (s_id s)" "marshal_sandbox s"] assms(4) obtain w2 where
    w2: "o_Put store (sandboxKey (s_id s)) (marshal_sandbox s) w1 = (Inr (), w2)" "inv w2"
    "objs w2 = (objs w1)(sandboxKey (s_id s) \<mapsto> marshal_sandbox s)" "local_same root w1 w2" by auto
  have "Push root sid store w = Some (Inr st1, w2)" using assms(3,5) w1(1) w2(1) by (simp add: Push_def)
  with w1 w2 local_same_trans [OF w1(3) w2(4)] show ?thesis by (simp add: no_stats_def)
qed

text \<open>How pulling changes the world: the store grows, the objects stay.\<close>

definition pulls :: "hasher \<Rightarrow> bytes set \<Rightarrow> 'z world_scheme \<Rightarrow> 'z world_scheme \<Rightarrow> bool" where
  "pulls sha B w w' \<longleftrightarrow> blobs (root @ [''blobs'']) (hfs w) \<subseteq>\<^sub>m blobs (root @ [''blobs'']) (hfs w') \<and>
     (\<forall>k. id_ok k \<longrightarrow> Checkpoint root (hfs w') k = Checkpoint root (hfs w) k) \<and> repo_ok sha root B w' \<and> inv w' \<and> objs w' = objs w"

lemma pulls_trans: "pulls sha B u v \<Longrightarrow> pulls sha B v w \<Longrightarrow> pulls sha B u w"
  by (auto simp: pulls_def intro: map_le_trans)

lemma pulls_blob: "pulls sha B w w' \<Longrightarrow> blobs (root @ [''blobs'']) (hfs w) h = Some b \<Longrightarrow> blobs (root @ [''blobs'']) (hfs w') h = Some b"
  by (auto simp: pulls_def map_le_def dom_def)

lemma pullsI:
  assumes "repo_ok sha root B w" and "inv w" and "grows sha (root @ [''blobs'']) B w w'"
  shows "pulls sha B w w'"
  using repo_ok_grows [OF assms(1,3)] other_change [OF assms(2), of w'] repo_okD(4) [of sha root B w'] assms(3)
  by (auto simp: pulls_def grows_def)

lemma pulls_local:
  assumes "repo_ok sha root B w" and "inv w'" and "objs w' = objs w" and "local_same root w w'"
  shows "pulls sha B w w'"
  using repo_ok_local [OF assms(1,4)] assms(2,3) by (simp add: pulls_def map_le_refl)

lemma pullBlob_ok:
  assumes "repo_ok sha root B w" and "inv w" and "addressed sha B (objs w)" and "remote_blobs (objs w) h = Some b"
  shows "\<exists>w'. pullBlob sha root store h w = (Inr b, w') \<and> pulls sha B w w' \<and> blobs (root @ [''blobs'']) (hfs w') h = Some b"
proof -
  from assms(3,4) have b: "h = hashOf sha b" "b \<in> B" by (auto simp: addressed_def)
  note s = repo_okD(2) [OF assms(1)]
  show ?thesis
  proof (cases "blobs (root @ [''blobs'']) (hfs w) h = Some b")
    case True
    with safe_Get [OF s] safe_Has [OF s b(2)] b(1) have "pullBlob sha root store h w = (Inr b, w)"
      by (simp add: pullBlob_def io)
    with True pullsI [OF assms(1,2)] show ?thesis by auto
  next
    case False
    from hash_name_hashOf [OF repo_okD(5) [OF assms(1)]] b(1) blob_key [of "sha b"]
    have "blobKey h \<in> keys" by (simp add: hashOf_def)
    from get_obj [OF assms(2) this] assms(4) obtain w0 where g: "o_Get store (blobKey h) w = (Inr b, w0)" and w0: "inv w0" "objs w0 = objs w"
      "local_same root w w0" by (auto simp: remote_blobs_def)
    note l0 = repo_ok_local [OF assms(1) w0(3)]
    from safe_Put_grows [OF repo_okD(1) [OF l0(1)] b(2)] obtain w' where
      w': "Put sha (root @ [''blobs'']) b w0 = (Inr h, w')" "grows sha (root @ [''blobs'']) B w0 w'"
      "blobs (root @ [''blobs'']) (hfs w') h = Some b" using b(1) by metis
    have "pullBlob sha root store h w = (Inr b, w')"
      using False safe_Has [OF s b(2)] b(1) g w'(1) by (simp add: pullBlob_def io)
    moreover have "pulls sha B w w'" by (rule pulls_trans [OF pulls_local [OF assms(1) w0] pullsI [OF l0(1) w0(1) w'(2)]])
    ultimately show ?thesis using w'(3) by blast
  qed
qed

lemma pull_all_ok:
  assumes "repo_ok sha root B w" and "inv w" and "addressed sha B (objs w)"
    and "\<forall>h \<in> set hs. remote_blobs (objs w) h \<noteq> None"
  shows "\<exists>w'. for_each hs (pull_ignoring sha root store) w = (Inr (), w') \<and> pulls sha B w w' \<and>
    (\<forall>h \<in> set hs. blobs (root @ [''blobs'']) (hfs w') h = remote_blobs (objs w) h)"
  using assms
proof (induction hs arbitrary: w)
  case Nil
  then show ?case using pullsI [OF Nil(1,2)] by simp
next
  case (Cons h hs)
  then obtain b where b: "remote_blobs (objs w) h = Some b" by auto
  from pullBlob_ok [OF Cons.prems(1-3) b] obtain w1 where w1: "pullBlob sha root store h w = (Inr b, w1)" "pulls sha B w w1"
    "blobs (root @ [''blobs'']) (hfs w1) h = Some b" by blast
  then have p: "repo_ok sha root B w1" "inv w1" "objs w1 = objs w" by (auto simp: pulls_def)
  from Cons.IH [OF p(1,2)] Cons.prems(3,4) p(3) obtain w2 where w2: "for_each hs (pull_ignoring sha root store) w1 = (Inr (), w2)"
    "pulls sha B w1 w2" "\<forall>h \<in> set hs. blobs (root @ [''blobs'']) (hfs w2) h = remote_blobs (objs w) h" by auto
  have "for_each (h # hs) (pull_ignoring sha root store) w = (Inr (), w2)"
    using w1(1) w2(1) by (simp add: pull_ignoring_def)
  with w2 pulls_trans [OF w1(2) w2(2)] pulls_blob [OF w2(2) w1(3)] b show ?case by auto
qed

lemma pull_image_ok:
  assumes "repo_ok sha root B w" and "inv w" and "addressed sha B (objs w)"
    and "h \<noteq> [] \<longrightarrow> image_in (remote_blobs (objs w)) h ks \<and> (\<forall>k \<in> set ks. remote_blobs (objs w) k \<noteq> None)"
  shows "\<exists>w'. pull_image sha root store h w = (Inr (), w') \<and> pulls sha B w w' \<and>
    (h \<noteq> [] \<longrightarrow> (\<forall>k \<in> set (h # ks). blobs (root @ [''blobs'']) (hfs w') k = remote_blobs (objs w) k))"
proof (cases "h = []")
  case True
  then show ?thesis using pullsI [OF assms(1,2)] by (simp add: pull_image_def)
next
  case False
  with assms(4) obtain b m where b: "remote_blobs (objs w) h = Some b" "unmarshal_manifest b = Some m" "m_chunked m = 1"
    "m_chunks m = ks" and k: "\<forall>k \<in> set ks. remote_blobs (objs w) k \<noteq> None" by (auto simp: image_in_def)
  from pullBlob_ok [OF assms(1-3) b(1)] obtain w1 where w1: "pullBlob sha root store h w = (Inr b, w1)" "pulls sha B w w1"
    "blobs (root @ [''blobs'']) (hfs w1) h = Some b" by blast
  then have p: "repo_ok sha root B w1" "inv w1" "objs w1 = objs w" by (auto simp: pulls_def)
  have m: "ReadManifest (root @ [''blobs'']) (hfs w1) h = Inr m"
    using safe_Get [OF repo_okD(2) [OF p(1)] w1(3)] b(2,3) by (simp add: ReadManifest_def)
  from pull_all_ok [OF p(1,2), of ks] assms(3) k p(3) obtain w2 where
    w2: "for_each ks (pull_ignoring sha root store) w1 = (Inr (), w2)" "pulls sha B w1 w2"
    "\<forall>k \<in> set ks. blobs (root @ [''blobs'']) (hfs w2) k = remote_blobs (objs w) k" by auto
  have "pull_image sha root store h w = (Inr (), w2)"
    using False w1(1) w2(1) m b(4) by (simp add: pull_image_def pull_ignoring_def io)
  with w2 pulls_trans [OF w1(2) w2(2)] pulls_blob [OF w2(2) w1(3)] b(1) show ?thesis by auto
qed

lemma pull_images_ok:
  assumes "repo_ok sha root B w" and "inv w" and "addressed sha B (objs w)"
    and "\<forall>h \<in> set (filter (\<lambda>h. h \<noteq> []) hs). image_in (remote_blobs (objs w)) h (chunks h) \<and>
      (\<forall>k \<in> set (chunks h). remote_blobs (objs w) k \<noteq> None)"
  shows "\<exists>w'. for_each hs (pull_image sha root store) w = (Inr (), w') \<and> pulls sha B w w' \<and>
    (\<forall>k \<in> set (concat (map (\<lambda>h. h # chunks h) (filter (\<lambda>h. h \<noteq> []) hs))).
       blobs (root @ [''blobs'']) (hfs w') k = remote_blobs (objs w) k)"
  using assms
proof (induction hs arbitrary: w)
  case Nil
  then show ?case using pullsI [OF Nil(1,2)] by simp
next
  case (Cons h hs)
  from Cons.prems(4) have i: "h \<noteq> [] \<longrightarrow> image_in (remote_blobs (objs w)) h (chunks h) \<and>
      (\<forall>k \<in> set (chunks h). remote_blobs (objs w) k \<noteq> None)" by auto
  from pull_image_ok [OF Cons.prems(1-3) i] obtain w1 where w1: "pull_image sha root store h w = (Inr (), w1)" "pulls sha B w w1"
    "h \<noteq> [] \<longrightarrow> (\<forall>k \<in> set (h # chunks h). blobs (root @ [''blobs'']) (hfs w1) k = remote_blobs (objs w) k)" by blast
  then have p: "repo_ok sha root B w1" "inv w1" "objs w1 = objs w" by (auto simp: pulls_def)
  from Cons.IH [OF p(1,2)] Cons.prems(3,4) p(3) obtain w2 where w2: "for_each hs (pull_image sha root store) w1 = (Inr (), w2)"
    "pulls sha B w1 w2" "\<forall>k \<in> set (concat (map (\<lambda>h. h # chunks h) (filter (\<lambda>h. h \<noteq> []) hs))).
       blobs (root @ [''blobs'']) (hfs w2) k = remote_blobs (objs w) k" by (auto split: if_splits)
  have "blobs (root @ [''blobs'']) (hfs w2) k = remote_blobs (objs w) k" if "h \<noteq> []" "k \<in> set (h # chunks h)" for k
  proof -
    from i that obtain b where "remote_blobs (objs w) k = Some b" by (auto simp: image_in_def)
    with w1(3) that pulls_blob [OF w2(2)] show ?thesis by auto
  qed
  with w1(1) w2 pulls_trans [OF w1(2) w2(2)] show ?case by auto
qed

text \<open>The four stages of a pull: the tree, the files, the state, the images.\<close>

lemma pull_stages_ok:
  assumes "repo_ok sha root B w" and "inv w" and "addressed sha B (objs w)" and "complete (remote_blobs (objs w)) c t chunks"
  obtains tb w1 w2 w3 w4 where "pullBlob sha root store (c_tree_hash c) w = (Inr tb, w1)" and "Unmarshal tb = Some t"
    and "for_each (file_shas t) (pull_ignoring sha root store) w1 = (Inr (), w2)"
    and "for_each (filter (\<lambda>h. h \<noteq> []) [c_state_hash c]) (pull_ignoring sha root store) w2 = (Inr (), w3)"
    and "for_each [c_mem_hash c, c_disk_hash c, c_base_hash c] (pull_image sha root store) w3 = (Inr (), w4)"
    and "pulls sha B w w4"
    and "\<And>h. h \<in> set (shas_of c t chunks) \<Longrightarrow> blobs (root @ [''blobs'']) (hfs w4) h = remote_blobs (objs w) h"
proof -
  let ?st = "filter (\<lambda>h. h \<noteq> []) [c_state_hash c]" and ?hs = "[c_mem_hash c, c_disk_hash c, c_base_hash c]"
  let ?rb = "remote_blobs (objs w)" and ?bl = "\<lambda>w. blobs (root @ [''blobs'']) (hfs w)"
  note c = assms(4) [unfolded complete_def]
  from c obtain tb where tb: "?rb (c_tree_hash c) = Some tb" "Unmarshal tb = Some t" by blast
  have after: "repo_ok sha root B v" "inv v" "addressed sha B (objs v)" "objs v = objs w" if "pulls sha B w v" for v
    using that assms(3) by (simp_all add: pulls_def)
  from pullBlob_ok [OF assms(1-3) tb(1)] obtain w1 where w1: "pullBlob sha root store (c_tree_hash c) w = (Inr tb, w1)"
    "pulls sha B w w1" "?bl w1 (c_tree_hash c) = Some tb" by blast
  note p1 = after [OF w1(2)]
  from pull_all_ok [OF p1(1-3), of "file_shas t"] p1(4) c obtain w2 where
    w2: "for_each (file_shas t) (pull_ignoring sha root store) w1 = (Inr (), w2)" "pulls sha B w1 w2"
    "\<forall>h \<in> set (file_shas t). ?bl w2 h = ?rb h" by metis
  note s2 = pulls_trans [OF w1(2) w2(2)] and p2 = after [OF pulls_trans [OF w1(2) w2(2)]]
  have "\<forall>h \<in> set ?st. remote_blobs (objs w2) h \<noteq> None" using c p2(4) by simp
  from pull_all_ok [OF p2(1-3) this] p2(4) obtain w3 where
    w3: "for_each ?st (pull_ignoring sha root store) w2 = (Inr (), w3)" "pulls sha B w2 w3" "\<forall>h \<in> set ?st. ?bl w3 h = ?rb h" by metis
  note s3 = pulls_trans [OF s2 w3(2)] and p3 = after [OF pulls_trans [OF s2 w3(2)]]
  have "\<forall>h \<in> set (filter (\<lambda>h. h \<noteq> []) ?hs). image_in (remote_blobs (objs w3)) h (chunks h) \<and>
      (\<forall>k \<in> set (chunks h). remote_blobs (objs w3) k \<noteq> None)" using c p3(4) by (simp add: images_def)
  from pull_images_ok [OF p3(1-3) this] have "\<exists>w4. for_each ?hs (pull_image sha root store) w3 = (Inr (), w4) \<and>
      pulls sha B w3 w4 \<and> (\<forall>k \<in> set (concat (map (\<lambda>h. h # chunks h) (images c))). ?bl w4 k = ?rb k)"
    by (simp only: images_def p3(4))
  then obtain w4 where w4: "for_each ?hs (pull_image sha root store) w3 = (Inr (), w4)" "pulls sha B w3 w4"
    "\<forall>k \<in> set (concat (map (\<lambda>h. h # chunks h) (images c))). ?bl w4 k = ?rb k" by blast
  have keep: "?bl w4 h = ?rb h" if "?bl v h = ?rb h" "pulls sha B v w4" "h \<in> set (shas_of c t chunks)" for v h
    using complete_all [OF assms(4) that(3)] that(1) pulls_blob [OF that(2), of h] by force
  have "?bl w4 h = ?rb h" if h: "h \<in> set (shas_of c t chunks)" for h
  proof -
    from h consider "h = c_tree_hash c" | "h \<in> set (file_shas t)" | "h \<in> set ?st"
      | "h \<in> set (concat (map (\<lambda>h. h # chunks h) (images c)))" unfolding shas_of_def by auto
    then show ?thesis
    proof cases
      case 1
      with w1(3) tb(1) show ?thesis by (intro keep [OF _ pulls_trans [OF w2(2) pulls_trans [OF w3(2) w4(2)]] h]) simp
    next
      case 2
      with w2(3) show ?thesis by (intro keep [OF _ pulls_trans [OF w3(2) w4(2)] h]) simp
    next
      case 3
      show ?thesis by (rule keep [OF bspec [OF w3(3) 3] w4(2) h])
    next
      case 4
      with w4(3) show ?thesis by (rule bspec)
    qed
  qed
  with w1(1) tb(2) w2(1) w3(1) w4(1) pulls_trans [OF s3 w4(2)] show thesis by (rule that)
qed

lemma Pull_ok:
  assumes "repo_ok sha root B w" and "inv w" and "addressed sha B (objs w)"
    and "objs w (checkpointKey i) = Some (emit None (ckpt_json c))" and "checkpointKey i \<in> keys" and "ckpt_ok c" and "id_ok (c_id c)"
    and "complete (remote_blobs (objs w)) c t chunks"
  shows "\<exists>w'. Pull sha root store i w = (Inr c, w') \<and> repo_ok sha root B w' \<and> Checkpoint root (hfs w') (c_id c) = Inr c \<and>
    (\<forall>h \<in> set (shas_of c t chunks). blobs (root @ [''blobs'']) (hfs w') h = remote_blobs (objs w) h) \<and>
    blobs (root @ [''blobs'']) (hfs w) \<subseteq>\<^sub>m blobs (root @ [''blobs'']) (hfs w') \<and>
    (\<forall>k. id_ok k \<longrightarrow> k \<noteq> c_id c \<longrightarrow> Checkpoint root (hfs w') k = Checkpoint root (hfs w) k)"
proof -
  from get_obj [OF assms(2,5)] assms(4) obtain w0 where g: "o_Get store (checkpointKey i) w = (Inr (emit None (ckpt_json c)), w0)"
    and w0: "inv w0" "objs w0 = objs w" "local_same root w w0" by auto
  have z: "addressed sha B (objs w0)" "complete (remote_blobs (objs w0)) c t chunks" using assms(3,8) w0(2) by simp_all
  obtain tb w1 w2 w3 w4 where s: "pullBlob sha root store (c_tree_hash c) w0 = (Inr tb, w1)" "Unmarshal tb = Some t"
    "for_each (file_shas t) (pull_ignoring sha root store) w1 = (Inr (), w2)"
    "for_each (filter (\<lambda>h. h \<noteq> []) [c_state_hash c]) (pull_ignoring sha root store) w2 = (Inr (), w3)"
    "for_each [c_mem_hash c, c_disk_hash c, c_base_hash c] (pull_image sha root store) w3 = (Inr (), w4)"
    and p: "pulls sha B w0 w4"
    and all: "\<And>h. h \<in> set (shas_of c t chunks) \<Longrightarrow> blobs (root @ [''blobs'']) (hfs w4) h = remote_blobs (objs w0) h"
    by (rule pull_stages_ok [OF repo_ok_local(1) [OF assms(1) w0(3)] w0(1) z]) (rule that)
  note s04 = pulls_trans [OF pulls_local [OF assms(1) w0] p]
  then have p4: "repo_ok sha root B w4" by (simp add: pulls_def)
  from SaveCheckpoint_repo [OF p4 assms(6,7)] obtain f where f: "SaveCheckpoint root c w4 = (Inr (), w4\<lparr>hfs := f\<rparr>)"
    "repo_ok sha root B (w4\<lparr>hfs := f\<rparr>)" "blobs (root @ [''blobs'']) f = blobs (root @ [''blobs'']) (hfs w4)"
    "Checkpoint root f (c_id c) = Inr c" "\<And>k. id_ok k \<Longrightarrow> k \<noteq> c_id c \<Longrightarrow> Checkpoint root f k = Checkpoint root (hfs w4) k"
    by metis
  have rt: "unmarshal_with dec_ckpt (emit None (ckpt_json c)) = Some c" by (rule ckpt_roundtrip [OF assms(6)])
  have "Pull sha root store i w = (Inr c, w4\<lparr>hfs := f\<rparr>)"
    unfolding Pull_def using g rt s f(1) by (simp only: io split: sum.splits) simp
  moreover have "\<forall>h \<in> set (shas_of c t chunks). blobs (root @ [''blobs'']) f h = remote_blobs (objs w) h"
    using all f(3) w0(2) by simp
  moreover have "blobs (root @ [''blobs'']) (hfs w) \<subseteq>\<^sub>m blobs (root @ [''blobs'']) f" using s04 f(3) by (simp add: pulls_def)
  moreover have "Checkpoint root f k = Checkpoint root (hfs w) k" if "id_ok k" "k \<noteq> c_id c" for k
    using f(5) [OF that] s04 that(1) by (simp add: pulls_def)
  ultimately show ?thesis using f(2,4)
    by (intro exI [of _ "w4\<lparr>hfs := f\<rparr>"] conjI ballI allI impI) simp_all
qed

end

end
