(* ===== verification/DirStoreMap.thy ===== *)
theory DirStoreMap
  imports SyncProps
begin

section \<open>A directory store is a map\<close>

text \<open>
  \<open>DirStore\<close> keeps the object under a key \<open>kind/name\<close> as the file of that path. As long as the
  directories of the three kinds hold only files, it implements a map from keys to bytes: it
  interprets \<open>object_map\<close>. A temporary file a crashed \<open>Put\<close> left behind does not disturb it.
\<close>

definition kinds :: "string set" where
  "kinds = {''blobs'', ''checkpoints'', ''sandboxes''}"

definition dir_ok :: "path \<Rightarrow> path \<Rightarrow> fs \<Rightarrow> bool" where
  "dir_ok d root f \<longleftrightarrow> fs_ok f \<and> is_dir_at f d \<and> \<not> prefix d root \<and> \<not> prefix root d \<and>
     (\<forall>k \<in> kinds. (\<forall>i. fmlookup f (d @ [k]) = Some i \<longrightarrow> is_dir i) \<and>
        (\<forall>n i. fmlookup f (d @ [k, n]) = Some i \<longrightarrow> (\<exists>m cs. i = File m cs)))"

definition dir_objs :: "path \<Rightarrow> fs \<Rightarrow> string \<rightharpoonup> bytes" where
  "dir_objs d f key =
     (if key \<in> obj_keys then
        (case fmlookup f (dir_path d key) of Some (File m cs) \<Rightarrow> Some (fread cs) | _ \<Rightarrow> None)
      else None)"

lemma HasSuffixE: "HasSuffix s p \<Longrightarrow> \<exists>r. s = r @ p"
  unfolding HasSuffix_def by (metis append_take_drop_id)

lemma ok_name_kind: "k \<in> kinds \<Longrightarrow> ok_name k"
  by (auto simp: kinds_def ok_name_def)

lemma obj_keyE:
  assumes "key \<in> obj_keys"
  obtains k n where "k \<in> kinds" and "key = k @ CHR ''/'' # n" and "ok_name n" and "\<nexists>r. n = r @ ''.tmp''"
proof -
  have h: "ok_name h \<and> (\<nexists>r. h = r @ ''.tmp'')" if "hash_name h" for h
    using that by (auto simp: hash_name_def ok_name_def)
  have j: "ok_name (i @ ''.json'') \<and> (\<nexists>r. i @ ''.json'' = r @ ''.tmp'')" if "id_ok i" for i
    using ok_name_json [OF that] by (auto dest: arg_cong [of _ _ last])
  from assms show ?thesis
    by (auto simp: obj_keys_def kinds_def blobKey_def checkpointKey_def sandboxKey_def
        intro: that [of "''blobs''"] that [of "''checkpoints''"] that [of "''sandboxes''"] dest!: h j)
qed

lemma dir_path_key: "k \<in> kinds \<Longrightarrow> ok_name n \<Longrightarrow> dir_path d (k @ CHR ''/'' # n) = d @ [k, n]"
  using ok_nameD [of n] ok_nameD [OF ok_name_kind]
  by (simp add: dir_path_def fp_join_def split_on_append_sep split_on_no_sep)

lemma dir_path_inj: "k \<in> obj_keys \<Longrightarrow> l \<in> obj_keys \<Longrightarrow> dir_path d k = dir_path d l \<longleftrightarrow> k = l"
  by (auto elim!: obj_keyE simp: dir_path_key)

lemma ok_name_tmp: "ok_name n \<Longrightarrow> ok_name (n @ ''.tmp'')"
  by (auto simp: ok_name_def)

lemma dir_okD:
  assumes "dir_ok d root f"
  shows "fs_ok f" and "is_dir_at f d" and "\<not> prefix d root" and "\<not> prefix root d"
    and "k \<in> kinds \<Longrightarrow> fmlookup f (d @ [k]) = Some i \<Longrightarrow> is_dir i"
    and "k \<in> kinds \<Longrightarrow> fmlookup f (d @ [k, n]) = Some i \<Longrightarrow> \<exists>m cs. i = File m cs"
  using assms by (auto simp: dir_ok_def)

lemma Stat_obj:
  assumes "dir_ok d root f" and "key \<in> obj_keys"
  shows "Stat f (dir_path d key) =
    (case fmlookup f (dir_path d key) of None \<Rightarrow> Inl (Errno ENOENT) | Some i \<Rightarrow> Inr i)"
proof -
  from assms(2) obtain k n where k: "k \<in> kinds" "key = k @ CHR ''/'' # n" "ok_name n" by (rule obj_keyE)
  note d = dir_okD [OF assms(1)]
  show ?thesis
  proof (cases "fmlookup f (d @ [k])")
    case None
    have "fmlookup f (d @ [k, n]) = None"
      using fs_okD(3) [OF d(1), of "d @ [k, n]"] None by (cases "fmlookup f (d @ [k, n])") (auto simp: butlast_append is_dir_at_def inode_at_def)
    with namei_under_absent [OF d(1,2) ok_name_kind [OF k(1)] None] k show ?thesis
      by (simp add: dir_path_key Stat_def stat_with_def)
  next
    case (Some i)
    with d(5) k(1) have "is_dir_at f (d @ [k])" by (auto simp: is_dir_at_def)
    moreover have "\<not> is_link i" if "fmlookup f (d @ [k, n]) = Some i" for i using d(6) [OF k(1) that] by auto
    ultimately show ?thesis
      using stat_with_child [OF d(1), of "d @ [k]" n True] k by (simp add: dir_path_key Stat_def)
  qed
qed

lemma dir_Get_objs:
  assumes "dir_ok d root (hfs w)" and "key \<in> obj_keys"
  shows "dir_Get d key w = ((case dir_objs d (hfs w) key of None \<Rightarrow> Inl ErrObjectNotFound | Some b \<Rightarrow> Inr b), w)"
    and "dir_Has d key w = (Inr (dir_objs d (hfs w) key \<noteq> None), w)"
proof -
  from assms(2) obtain k n where k: "k \<in> kinds" "key = k @ CHR ''/'' # n" "ok_name n" by (rule obj_keyE)
  have f: "\<exists>m cs. i = File m cs" if "fmlookup (hfs w) (dir_path d key) = Some i" for i
    using dir_okD(6) [OF assms(1) k(1)] that k by (simp add: dir_path_key)
  show "dir_Get d key w = ((case dir_objs d (hfs w) key of None \<Rightarrow> Inl ErrObjectNotFound | Some b \<Rightarrow> Inr b), w)"
    "dir_Has d key w = (Inr (dir_objs d (hfs w) key \<noteq> None), w)"
    using Stat_obj [OF assms] assms(2) f
    by (cases "fmlookup (hfs w) (dir_path d key)";
        force simp: dir_Get_def dir_Has_def io ReadFile_def open_cells_def dir_objs_def)+
qed

text \<open>
  The filesystem after an object \<open>k/n\<close> was written: \<open>g\<close> is \<open>f\<close> with the directory of the kind, the file is there and its
  temporary is gone.
\<close>

lemma dir_objs_written:
  assumes "dir_ok d root f" and "k \<in> kinds" and "ok_name n" and "fs_ok h" and "is_dir_at g (d @ [k])"
    and g: "\<And>q. q \<noteq> d @ [k] \<Longrightarrow> fmlookup g q = fmlookup f q"
    and l: "\<And>q. fmlookup h q =
      (if q = d @ [k, n] then Some (File m (fdata b)) else if q = d @ [k, n @ ''.tmp''] then None else fmlookup g q)"
    and key: "k @ CHR ''/'' # n \<in> obj_keys"
  shows "dir_ok d root h" and "dir_objs d h = (dir_objs d f)(k @ CHR ''/'' # n \<mapsto> b)"
proof -
  let ?key = "k @ CHR ''/'' # n"
  note d = dir_okD [OF assms(1)]
  show "dir_ok d root h"
    unfolding dir_ok_def
  proof (intro conjI ballI allI impI)
    show "is_dir_at h d" using d(2) g [of d] by (auto simp: is_dir_at_def inode_at_def l)
    fix k' n' i assume k': "k' \<in> kinds"
    show "is_dir i" if "fmlookup h (d @ [k']) = Some i"
    proof (cases "k' = k")
      case True
      with that assms(5) show ?thesis by (auto simp: l is_dir_at_def)
    next
      case False
      with that d(5) [OF k'] g [of "d @ [k']"] show ?thesis by (simp add: l)
    qed
    show "\<exists>m cs. i = File m cs" if "fmlookup h (d @ [k', n']) = Some i"
      using that d(6) [OF k', of n'] g [of "d @ [k', n']"] by (auto simp: l split: if_splits)
  qed (use assms(4) d in auto)
  show "dir_objs d h = (dir_objs d f)(?key \<mapsto> b)"
  proof
    fix key'
    show "dir_objs d h key' = ((dir_objs d f)(?key \<mapsto> b)) key'"
    proof (cases "key' \<in> obj_keys \<and> key' \<noteq> ?key")
      case True
      then obtain k' n' where k': "k' \<in> kinds" "key' = k' @ CHR ''/'' # n'" "ok_name n'" "\<nexists>r. n' = r @ ''.tmp''"
        by (auto elim: obj_keyE)
      from True have "dir_path d key' \<noteq> d @ [k, n]"
        using dir_path_inj [OF _ key, of key' d] assms(2,3) by (simp add: dir_path_key)
      moreover from k' have "dir_path d key' \<noteq> d @ [k, n @ ''.tmp'']" by (auto simp: dir_path_key)
      ultimately have "fmlookup h (dir_path d key') = fmlookup f (dir_path d key')"
        using g [of "dir_path d key'"] k' by (auto simp: dir_path_key l)
      with True show ?thesis by (simp add: dir_objs_def)
    next
      case False
      have "dir_objs d h ?key = Some b" using key dir_path_key [OF assms(2,3), of d] by (simp add: dir_objs_def l)
      moreover have "dir_objs d x key' = None" if "key' \<notin> obj_keys" for x using that by (simp add: dir_objs_def)
      ultimately show ?thesis using False key by (cases "key' = ?key") auto
    qed
  qed
qed

lemma dir_Put_effect:
  assumes "dir_ok d root (hfs w)" and "key \<in> obj_keys"
  shows "\<exists>f m. dir_Put d key b w = (Inr (), w\<lparr>hfs := f\<rparr>) \<and> dir_ok d root f \<and>
    dir_objs d f = (dir_objs d (hfs w))(key \<mapsto> b) \<and> (\<forall>q. \<not> prefix d q \<longrightarrow> fmlookup f q = fmlookup (hfs w) q)"
proof -
  from assms(2) obtain k n where k: "k \<in> kinds" "key = k @ CHR ''/'' # n" "ok_name n" "\<nexists>r. n = r @ ''.tmp''"
    by (rule obj_keyE)
  note d = dir_okD [OF assms(1)] and kn = ok_name_kind [OF k(1)]
  let ?p = "d @ [k, n]" and ?t = "d @ [k, n @ ''.tmp'']" and ?um = "umask w"
  from MkdirAll_child [OF d(1,2) kn d(5) [OF k(1)], of ?um mode_0755] obtain g where
    g: "MkdirAll ?um (d @ [k]) mode_0755 (hfs w) = (Inr (), g)" "fs_ok g" "is_dir_at g (d @ [k])"
    "\<And>q. q \<noteq> d @ [k] \<Longrightarrow> fmlookup g q = fmlookup (hfs w) q" by metis
  have gf: "\<exists>m cs. i = File m cs" if "fmlookup g (d @ [k, n']) = Some i" for n' i
    using d(6) [OF k(1), of n'] that g(4) [of "d @ [k, n']"] by simp
  obtain m where t: "WriteCells ?um ?t (fdata b) mode_0644 g = (Inr (), fmupd ?t (File m (fdata b)) g)"
    using WriteCells_file [OF g(2,3) ok_name_tmp [OF k(3)]] gf by fastforce
  let ?h = "fmupd ?t (File m (fdata b)) g"
  have nd: "\<not> is_dir_at g (d @ [k, n'])" for n'
    using gf [of n'] by (fastforce simp: is_dir_at_def inode_at_def split: option.splits)
  have okh: "fs_ok ?h" using slotI [OF g(3) ok_name_tmp [OF k(3)]] g(2) nd by (intro fs_ok_fmupd) auto
  let ?f = "fmupd ?p (File m (fdata b)) (fmdrop ?t ?h)"
  have r: "Rename ?t ?p ?h = (Inr (), ?f)"
    by (rule Rename_over [OF okh]) (use k(3) g(3) nd in \<open>auto simp: butlast_append is_dir_at_fmupd\<close>)
  have l: "fmlookup ?f q = (if q = ?p then Some (File m (fdata b)) else if q = ?t then None else fmlookup g q)" for q
    by simp
  have okf: "fs_ok ?f" using keepsD [OF keeps_Rename okh r] k(3) dir_okD(1,2) [OF assms(1)]
      ok_nameD [OF kn] by (auto simp: slash_free_def dest!: fs_ok_names ok_nameD)
  have "dir_Put d key b w = (Inr (), w\<lparr>hfs := ?f\<rparr>)"
    using g(1) t r k by (simp add: dir_Put_def io Let_def dir_path_key with_suffix_def butlast_append on_fs_def WriteFile_def)
  moreover note dir_objs_written [OF assms(1) k(1,3) okf g(3,4) l assms(2) [unfolded k(2)], folded k(2)]
  moreover have "fmlookup ?f q = fmlookup (hfs w) q" if "\<not> prefix d q" for q
    using that g(4) [of q] by (cases "q = d @ [k]") (auto simp: l)
  ultimately show ?thesis by blast
qed

interpretation dir_store: object_map "DirStore d" root "\<lambda>w. dir_objs d (hfs w)" "\<lambda>w. dir_ok d root (hfs w)" obj_keys
  for d root
proof
  show "blobKey (hex_encode b) \<in> obj_keys" if "hash_name (hex_encode b)" for b using that by (rule obj_keysI)
next
  fix w w' :: "'a world_scheme" and k b
  assume ok: "dir_ok d root (hfs w)"
  show "\<exists>w'. o_Get (DirStore d) k w = ((case dir_objs d (hfs w) k of None \<Rightarrow> Inl ErrObjectNotFound | Some b \<Rightarrow> Inr b), w') \<and>
      dir_ok d root (hfs w') \<and> dir_objs d (hfs w') = dir_objs d (hfs w) \<and> local_same root w w'"
    "\<exists>w'. o_Has (DirStore d) k w = (Inr (dir_objs d (hfs w) k \<noteq> None), w') \<and>
      dir_ok d root (hfs w') \<and> dir_objs d (hfs w') = dir_objs d (hfs w) \<and> local_same root w w'" if "k \<in> obj_keys"
    using dir_Get_objs [OF ok that] ok local_same_refl [OF dir_okD(1) [OF ok]] by (simp_all add: DirStore_def)
  show "\<exists>w'. o_Put (DirStore d) k b w = (Inr (), w') \<and> dir_ok d root (hfs w') \<and>
      dir_objs d (hfs w') = (dir_objs d (hfs w))(k \<mapsto> b) \<and> local_same root w w'" if k: "k \<in> obj_keys"
  proof -
    from dir_Put_effect [OF ok k, of b] obtain f where f: "dir_Put d k b w = (Inr (), w\<lparr>hfs := f\<rparr>)" "dir_ok d root f"
      "dir_objs d f = (dir_objs d (hfs w))(k \<mapsto> b)" "\<And>q. \<not> prefix d q \<Longrightarrow> fmlookup f q = fmlookup (hfs w) q" by metis
    have "\<not> prefix d q" if "prefix root q" for q
      using that dir_okD(3,4) [OF ok] prefix_same_cases [of d q root] by auto
    with f(4) dir_okD(1) [OF f(2)] have "local_same root w (w\<lparr>hfs := f\<rparr>)" by (simp add: local_same_def)
    with f(1-3) show ?thesis by (simp add: DirStore_def)
  qed
  show "dir_ok d root (hfs w') \<and> dir_objs d (hfs w') = dir_objs d (hfs w)"
    if fs: "fs_ok (hfs w')" and q: "\<And>q. \<not> prefix root q \<Longrightarrow> fmlookup (hfs w') q = fmlookup (hfs w) q"
  proof -
    have e: "fmlookup (hfs w') (d @ q) = fmlookup (hfs w) (d @ q)" for q
      using dir_okD(3,4) [OF ok] q [of "d @ q"] prefix_same_cases [of root "d @ q" d] by auto
    have "dir_path d k = d @ drop (length d) (dir_path d k)" if "k \<in> obj_keys" for k
      using that by (auto elim!: obj_keyE simp: dir_path_key)
    then have "dir_objs d (hfs w') = dir_objs d (hfs w)" using e by (auto simp: dir_objs_def fun_eq_iff) metis+
    moreover have "is_dir_at (hfs w') d" using dir_okD(2) [OF ok] is_dir_at_cong [of "hfs w'" d "hfs w"] e [of "[]"] by simp
    ultimately show ?thesis using ok fs e by (simp add: dir_ok_def)
  qed
qed

lemma dir_Push_ok:
  assumes "repo_ok sha root B w" and "dir_ok d root (hfs w)" and "Sandbox root (hfs w) sid = Inr s" and "id_ok (s_id s)"
    and "History root (hfs w) (s_id s) = Some (Inr (map fst cs))"
    and "history_complete (blobs (root @ [''blobs'']) (hfs w)) cs"
  shows "\<exists>w' st. Push root sid (DirStore d) w = Some (Inr st, w') \<and> dir_ok d root (hfs w') \<and> local_same root w w' \<and>
    dir_objs d (hfs w') =
      (fold (pushed (blobs (root @ [''blobs'']) (hfs w))) cs (dir_objs d (hfs w)))(sandboxKey (s_id s) \<mapsto> marshal_sandbox s) \<and>
    ps_Checkpoints st = int (length cs) \<and> (all_present (dir_objs d (hfs w)) cs \<longrightarrow> ps_Blobs st = 0)"
proof -
  have "\<forall>c \<in> fst ` set cs. checkpointKey (c_id c) \<in> obj_keys" using assms(6) by (fastforce simp: history_complete_def)
  with assms show ?thesis by (intro dir_store.Push_ok) auto
qed

end
