(* ===== verification/DemoRepo.thy ===== *)
theory DemoRepo
  imports DirStoreMap CasProps
begin

section \<open>A repository with one checkpoint\<close>

text \<open>
  An example the witnesses share: a repository at \<open>/v\<close> whose only checkpoint \<open>a\<close> has one file \<open>f\<close>,
  made by the operations themselves from empty directories, and an empty directory store at
  \<open>/r\<close>.
\<close>

definition file_entry :: entry where
  "file_entry = \<lparr>e_path = ''f'', e_mode = mode_0644, e_size = 2, e_hash = hex_encode (replicate 32 (char_of (0 :: nat))),
     e_link = [], e_dir = False\<rparr>"

definition repo_blobs :: "bytes list" where
  "repo_blobs = [''hi'', Marshal [file_entry]]"

definition repo_sha :: hasher where
  "repo_sha = tag_sha repo_blobs"

definition repo_dirs :: fs where
  "repo_dirs = fmupd [''r''] (Dir mode_0755) (fmupd [''v'', ''blobs''] (Dir mode_0755) demo_dirs)"

definition root_ckpt :: ckpt where
  "root_ckpt = (demo_ckpt ''a'' [])\<lparr>c_tree_hash := hashOf repo_sha (Marshal [file_entry])\<rparr>"

lemma repo_hashes: "hashOf repo_sha ''hi'' = e_hash file_entry"
  by (simp add: hashOf_def repo_sha_def tag_sha_def find_index_def repo_blobs_def file_entry_def)

lemma file_entry_ok: "Unmarshal (Marshal [file_entry]) = Some [file_entry]"
  using valid_utf8_hashOf [of repo_sha "''hi''"] unfolding repo_hashes
  by (intro Unmarshal_Marshal_ok) (simp add: entry_ok_def file_entry_def int64_id valid_utf8_ascii)

lemma root_ckpt_ok: "ckpt_ok root_ckpt" "id_ok (c_id root_ckpt)" "c_id root_ckpt = ''a''" "c_parent root_ckpt = []"
proof -
  have "ckpt_ok (demo_ckpt ''a'' [])" by (rule demo_ckpt_ok) (simp_all add: valid_utf8_ascii)
  then show "ckpt_ok root_ckpt" by (simp add: root_ckpt_def ckpt_ok_def valid_utf8_hashOf)
qed (simp_all add: root_ckpt_def id_ok_def demo_ckpt_def)

lemma repo_dirs_ok: "repo_ok repo_sha [''v''] (set repo_blobs) (demo_host repo_dirs)" "dir_ok [''r''] [''v''] repo_dirs"
  "dir_objs [''r''] repo_dirs = Map.empty"
proof -
  have fs: "fs_ok repo_dirs"
    unfolding fs_ok_def by (auto simp: repo_dirs_def demo_dirs_def slot_def ok_name_def is_dir_at_def inode_at_def)
  have "records_ok [''v''] d repo_dirs" if "d \<in> {''checkpoints'', ''sandboxes''}" for d
    using records_agree [OF demo_dirs_records [OF that] fs] that by (auto simp: repo_dirs_def)
  moreover have "store_ok repo_sha [''v'', ''blobs''] repo_dirs"
    using fs ok_tag_sha [of repo_blobs]
    by (auto simp: store_ok_def repo_sha_def repo_dirs_def demo_dirs_def is_dir_at_def inode_at_def strict_prefix_def prefix_def)
  moreover have "blobs [''v'', ''blobs''] repo_dirs = Map.empty"
    by (auto simp: blobs_def repo_dirs_def demo_dirs_def fun_eq_iff)
  moreover have "inj_on (hashOf repo_sha) (set repo_blobs)"
    unfolding repo_sha_def by (rule tag_sha_inj) (simp add: repo_blobs_def)
  ultimately show "repo_ok repo_sha [''v''] (set repo_blobs) (demo_host repo_dirs)"
    by (simp add: repo_ok_def img_inv_def safe_store_def demo_host_def memo_ok_def)
  show "dir_ok [''r''] [''v''] repo_dirs"
    using fs by (auto simp: dir_ok_def repo_dirs_def demo_dirs_def is_dir_at_def inode_at_def kinds_def)
  show "dir_objs [''r''] repo_dirs = Map.empty"
    by (auto simp: dir_objs_def fun_eq_iff repo_dirs_def demo_dirs_def dir_path_key elim!: obj_keyE)
qed

text \<open>The file and the tree are stored, the checkpoint and a sandbox at it are saved.\<close>

lemma one_checkpoint:
  obtains w :: world where "repo_ok repo_sha [''v''] (set repo_blobs) w" and "dir_ok [''r''] [''v''] (hfs w)"
    and "dir_objs [''r''] (hfs w) = Map.empty" and "Checkpoint [''v''] (hfs w) ''a'' = Inr root_ckpt"
    and "getJSON [''v''] ''sandboxes'' ''t'' dec_sandbox (hfs w) = Inr (demo_sandbox ''t'' ''a'')"
    and "complete (blobs [''v'', ''blobs''] (hfs w)) root_ckpt [file_entry] (\<lambda>_. [])"
proof -
  let ?B = "set repo_blobs" and ?s = "demo_sandbox ''t'' ''a''" and ?r = "[''v'', ''blobs'']" and ?t = "Marshal [file_entry]"
  note w0 = repo_dirs_ok
  have B: "''hi'' \<in> ?B" "?t \<in> ?B" by (simp_all add: repo_blobs_def)
  from safe_Put_grows [OF repo_okD(1) [OF w0(1)] B(1)] obtain w1 where
    w1: "grows repo_sha ?r ?B (demo_host repo_dirs) w1" "blobs ?r (hfs w1) (e_hash file_entry) = Some ''hi''"
    unfolding repo_hashes by auto
  have r1: "repo_ok repo_sha [''v''] ?B w1" using repo_ok_grows(1) [OF w0(1)] w1(1) by simp
  from safe_Put_grows [OF repo_okD(1) [OF r1] B(2)] obtain w2 where
    w2: "grows repo_sha ?r ?B w1 w2" "blobs ?r (hfs w2) (c_tree_hash root_ckpt) = Some ?t"
    by (auto simp: root_ckpt_def)
  have r2: "repo_ok repo_sha [''v''] ?B w2" using repo_ok_grows(1) [OF r1] w2(1) by simp
  from SaveCheckpoint_repo [OF r2 root_ckpt_ok(1,2)] obtain f m cs where f: "repo_ok repo_sha [''v''] ?B (w2\<lparr>hfs := f\<rparr>)"
    "f = fmupd ([''v''] @ [''checkpoints'', c_id root_ckpt @ ''.json'']) (File m cs) (hfs w2)"
    "blobs ([''v''] @ [''blobs'']) f = blobs ([''v''] @ [''blobs'']) (hfs w2)" "Checkpoint [''v''] f (c_id root_ckpt) = Inr root_ckpt" by metis
  have s: "sandbox_ok ?s" by (rule demo_sandbox_ok) (simp_all add: valid_utf8_ascii)
  have i: "id_ok (s_id ?s)" "s_id ?s = ''t''" by (simp_all add: demo_sandbox_def id_ok_def)
  from SaveSandbox_repo [OF f(1) s i(1)] obtain g m' cs' where g: "repo_ok repo_sha [''v''] ?B (w2\<lparr>hfs := f\<rparr>\<lparr>hfs := g\<rparr>)"
    "g = fmupd ([''v''] @ [''sandboxes'', s_id ?s @ ''.json'']) (File m' cs') (hfs (w2\<lparr>hfs := f\<rparr>))"
    "blobs ([''v''] @ [''blobs'']) g = blobs ([''v''] @ [''blobs'']) (hfs (w2\<lparr>hfs := f\<rparr>))" "getJSON [''v''] ''sandboxes'' (s_id ?s) dec_sandbox g = Inr ?s"
    "\<And>k. id_ok k \<Longrightarrow> Checkpoint [''v''] g k = Checkpoint [''v''] (hfs (w2\<lparr>hfs := f\<rparr>)) k" by metis
  let ?w = "w2\<lparr>hfs := f\<rparr>\<lparr>hfs := g\<rparr>"
  have b: "blobs ?r (hfs ?w) = blobs ?r (hfs w2)" using g(3) f(3) by simp
  have "fmlookup (hfs ?w) q = fmlookup repo_dirs q" if "\<not> prefix [''v''] q" for q
    using that g(2) f(2) repo_ok_grows(3) [OF w0(1) _ that] repo_ok_grows(3) [OF r1 _ that] w1(1) w2(1)
    by (auto simp: demo_host_def)
  with dir_store.other_change [of "[''r'']" "[''v'']" "demo_host repo_dirs" ?w] w0(2,3) repo_okD(4) [OF g(1)]
  have d: "dir_ok [''r''] [''v''] (hfs ?w)" "dir_objs [''r''] (hfs ?w) = Map.empty" by (simp_all add: demo_host_def)
  have c: "complete (blobs ?r (hfs ?w)) root_ckpt [file_entry] (\<lambda>_. [])"
    unfolding b complete_def using w2(2) grows_blob [OF w2(1) w1(2)] file_entry_ok
    by (simp add: images_def file_shas_def) (simp add: root_ckpt_def demo_ckpt_def)
  show ?thesis
    by (rule that [of ?w]) (use g(1,4,5) f(4) d c i root_ckpt_ok in auto)
qed

end
