(* ===== verification/StepProps.thy ===== *)
theory StepProps
  imports EngineProps DemoRepo
begin

unbundle bit_operations_syntax

section \<open>Steps of a sandbox\<close>

text \<open>
  Running, checking out and forking over a backend that keeps its files in the working directory:
  each succeeds, extends or moves the history as it should, and leaves in the working directory
  what the checkpoint recorded. Commands may do anything but touch the store and the records.
\<close>

subsection \<open>A sandbox with one file\<close>

text \<open>The repository of \<open>DemoRepo\<close> with the working directory of a sandbox \<open>t\<close> that has one file.\<close>

definition work_fs :: fs where
  "work_fs = fmupd [''v'', ''work'', ''t'', ''f''] (File mode_0644 (fdata ''hi''))
     (fmupd [''v'', ''work'', ''t''] (Dir mode_0755) (fmupd [''v'', ''work''] (Dir mode_0755) repo_dirs))"

definition engine_host :: "fs \<Rightarrow> eworld" where
  "engine_host f = world.extend (demo_host f)
     (eworld.fields (\<lambda>_. CHR ''x'') 0 (\<lambda>_. zero_time) 0 (\<lambda>_ _. \<lparr>k_dev = 0, k_ino = 0, k_blocks = 0, k_mtime = 0\<rparr>) 0 [''tmp''] [])"

lemma engine_host_sel [simp]:
  "hfs (engine_host f) = f" "zeroHashes (engine_host f) = Map.empty" "umask (engine_host f) = 0"
  "clock (engine_host f) = (\<lambda>_. zero_time)" "environ (engine_host f) = []"
  by (simp_all add: engine_host_def world.defs eworld.defs demo_host_def)

lemma work_fs_ok: "fs_ok work_fs"
  unfolding fs_ok_def by (auto simp: work_fs_def repo_dirs_def demo_dirs_def slot_def ok_name_def is_dir_at_def inode_at_def)

lemma work_host_ok: "repo_ok repo_sha [''v''] (set repo_blobs) (engine_host work_fs)" "clock_ok (engine_host f)"
proof -
  have "repo_ok repo_sha [''v''] (set repo_blobs) (engine_host repo_dirs)"
    using repo_dirs_ok(1) by (simp add: repo_ok_def img_inv_def memo_ok_def demo_host_def)
  moreover have "leaves_records [''v''] (engine_host repo_dirs) (engine_host work_fs)"
    using work_fs_ok by (auto simp: leaves_records_def records_path_def work_fs_def prefix_Cons)
  ultimately show "repo_ok repo_sha [''v''] (set repo_blobs) (engine_host work_fs)" by (rule leaves_recordsD(1))
  show "clock_ok (engine_host f)" by (simp add: clock_ok_def zero_time_def time_ok_def time_read_def days_in_def)
qed

lemma singleton_list: "set xs = {x} \<Longrightarrow> distinct (map f xs) \<Longrightarrow> xs = [x]"
  by (cases xs) (auto simp: subset_singleton_iff)

lemma work_below: "below work_fs [''v'', ''work'', ''t''] = [([''f''], File mode_0644 (fdata ''hi''))]"
proof (rule singleton_list [OF _ distinct_below])
  have "(r, i) \<in> set (below work_fs [''v'', ''work'', ''t'']) \<longleftrightarrow> (r, i) = ([''f''], File mode_0644 (fdata ''hi''))" for r i
    unfolding set_below by (auto simp: work_fs_def repo_dirs_def demo_dirs_def split: if_splits)
  then show "set (below work_fs [''v'', ''work'', ''t'']) = {([''f''], File mode_0644 (fdata ''hi''))}" by auto
qed

lemma work_visible: "visible (Some defaultIgnore) [([''f''], File mode_0644 (fdata ''hi''))] = [([''f''], File mode_0644 (fdata ''hi''))]"
  by (simp add: visible_def ignored_def hidden_by_def defaultIgnore_def base_name_def rel_text_def strict_prefix_def)

lemma work_tree_demo: "work_tree repo_sha [''v''] (demo_sandbox ''t'' h) work_fs = [file_entry]"
proof -
  have "entry_of (hashOf repo_sha) ([''f''], File mode_0644 (fdata ''hi'')) = [file_entry]"
    using repo_hashes by (simp add: no_entry_def rel_text_def file_entry_def perm_def)
  then show ?thesis
    by (simp add: work_tree_def snapshot_tree_def demo_sandbox_def work_below work_visible)
qed

lemma file_entry_fix: "entry_ok file_entry" "entry_fix file_entry = file_entry"
proof -
  show "entry_ok file_entry"
    using valid_utf8_hashOf [of repo_sha "''hi''"] unfolding repo_hashes
    by (simp add: entry_ok_def file_entry_def int64_id valid_utf8_ascii)
  then show "entry_fix file_entry = file_entry" by (rule entry_fix_ok)
qed

lemma demo_can_checkpoint:
  assumes "valid_utf8 h"
  shows "can_checkpoint repo_sha [''v''] (set repo_blobs) (demo_sandbox ''t'' h) work_fs"
proof -
  have "\<forall>x \<in> set [file_entry]. int64 (e_size x) = e_size x" by (simp add: file_entry_def int64_id)
  moreover have "capturable [''v'', ''blobs''] (set repo_blobs) [''v'', ''work'', ''t''] work_fs"
    by (auto simp: capturable_def work_fs_def repo_dirs_def demo_dirs_def is_dir_at_def inode_at_def repo_blobs_def split: if_splits)
  ultimately show ?thesis
    using demo_sandbox_ok [of "''t''" h] assms unfolding can_checkpoint_def work_tree_demo
    by (simp add: ok_name_def repo_blobs_def demo_sandbox_def valid_utf8_ascii)
qed

subsection \<open>Running\<close>

lemma head_ok_id: "head_ok root f h \<Longrightarrow> id_ok h"
  by (auto simp: head_ok_def id_ok_def)

text \<open>
  Property C1. A command run in a sandbox of the process backend. The command is not empty, its words
  are UTF-8, it starts and ends with an exit code; it may do anything to the files but touch the store
  and the records or remove the working directory; the new id is fresh, and the blobs of the step do
  not collide with stored ones. Then \<open>Run\<close> returns a checkpoint of the working directory as the
  command left it, with the command, its exit code, the old head as parent and the numbers of paths
  that changed; the sandbox is saved with the checkpoint as its head and one more step, its history is
  the checkpoint followed by the old history, and the files are left alone. The tree of the checkpoint
  reads back as the directory was, except that in names and link targets that are not UTF-8 every
  byte that is not part of a rune reads as U+FFFD.
\<close>

theorem Run_extends_history:
  fixes w w1 :: "'z eworld_scheme"
  assumes "repo_ok sha root B w" and "clock_ok w" and "head_ok root (hfs w) (s_head s)"
    and "lineage root (hfs w) (s_head s) cs" and "\<forall>d \<in> set cs. id_ok (c_parent d)"
    and "command \<noteq> []" and "list_all valid_utf8 command" and "int64 code = code"
    and "run (work_dir root s) command (environ w) w = (fin, w1)" and "ended_with fin code" and "leaves_records root w w1"
    and "can_checkpoint sha root B s (hfs w1)" and "Checkpoint root (hfs w) (next_id ''ck-'' w1) = Inl err"
  shows "\<exists>c s' w'. Run sha (process_engine root run) s command w = (Inr (c, s'), w') \<and>
    s' = s\<lparr>s_steps := int64 (s_steps s + 1), s_head := c_id c\<rparr> \<and> Sandbox root (hfs w') (s_id s) = Inr s' \<and>
    History root (hfs w') (s_id s) = Some (Inr (c # cs)) \<and>
    c_parent c = s_head s \<and> c_command c = command \<and> c_exit_code c = code \<and>
    TreeAt root (hfs w') (c_id c) = Inr (map entry_fix (work_tree sha root s (hfs w1))) \<and>
    c_added c = count_kind added (Diff (parent_tree root (hfs w) (s_head s)) (work_tree sha root s (hfs w1))) \<and>
    c_modified c = count_kind modified (Diff (parent_tree root (hfs w) (s_head s)) (work_tree sha root s (hfs w1))) \<and>
    c_deleted c = count_kind deleted (Diff (parent_tree root (hfs w) (s_head s)) (work_tree sha root s (hfs w1))) \<and>
    (\<forall>q. \<not> records_path root q \<longrightarrow> fmlookup (hfs w') q = fmlookup (hfs w1) q)"
proof -
  note l = leaves_recordsD [OF assms(1,11)] and h = leaves_head [OF assms(1,11,3)]
  have ck: "clock_ok w1" using assms(2,11) by (simp add: clock_ok_def leaves_records_def)
  define s1 where "s1 = s\<lparr>s_steps := int64 (s_steps s + 1)\<rparr>"
  define c where "c = ckpt_of sha root s1 (Some command) code [] (parent_tree root (hfs w1) (s_head s))
     (next_id ''ck-'' w1) (clock w1 (clock_pos w1)) (work_tree sha root s (hfs w1))"
  obtain w' where w': "Run sha (process_engine root run) s command w = (Inr (c, s1\<lparr>s_head := c_id c\<rparr>), w')"
    "recorded sha root B c (map entry_fix (work_tree sha root s (hfs w1))) w1 w'" "Sandbox root (hfs w') (s_id s) = Inr (s1\<lparr>s_head := c_id c\<rparr>)"
    unfolding c_def s1_def by (rule Run_process [where run = run, OF assms(9,10,6) l(1) assms(12) ck h(1) assms(7,8)])
  have c: "c_id c = next_id ''ck-'' w1" "c_parent c = s_head s" "c_command c = command" "c_exit_code c = code"
    by (simp_all add: c_def ckpt_of_def s1_def)
  have "lineage root (hfs w1) (s_head s) cs"
    by (rule lineage_leaves [OF assms(4) l(3) head_ok_id [OF assms(3)] assms(5)])
  moreover have "Checkpoint root (hfs w1) (c_id c) = Inl err" using l(3) [OF ck_id_ok(1) [of w1]] assms(13) c(1) by simp
  ultimately have "lineage root (hfs w') (c_id c) (c # cs)"
    using recorded_lineage [OF w'(2)] c(1,2) head_ok_id [OF assms(3)] assms(5) ck_id_ok(3) [of w1] by simp
  then have "History root (hfs w') (s_id s) = Some (Inr (c # cs))" by (intro History_head [OF w'(3)]) simp
  moreover have "TreeAt root (hfs w') (c_id c) = Inr (map entry_fix (work_tree sha root s (hfs w1)))"
    using w'(2) by (simp add: TreeAt_def recorded_def)
  moreover have "\<forall>q. \<not> records_path root q \<longrightarrow> fmlookup (hfs w') q = fmlookup (hfs w1) q"
    using w'(2) by (simp add: recorded_def elsewhere_same_def)
  moreover have "c_added c = count_kind added (Diff (parent_tree root (hfs w) (s_head s)) (work_tree sha root s (hfs w1)))"
    "c_modified c = count_kind modified (Diff (parent_tree root (hfs w) (s_head s)) (work_tree sha root s (hfs w1)))"
    "c_deleted c = count_kind deleted (Diff (parent_tree root (hfs w) (s_head s)) (work_tree sha root s (hfs w1)))"
    unfolding h(2) [symmetric] by (simp_all add: c_def ckpt_of_def)
  ultimately show ?thesis using w'(1,3) c(2-4) by (intro exI [of _ c] exI [of _ "s1\<lparr>s_head := c_id c\<rparr>"] exI [of _ w']) (simp add: s1_def)
qed

definition empty_work :: fs where
  "empty_work = fmupd [''v'', ''work'', ''t''] (Dir mode_0755) (fmupd [''v'', ''work''] (Dir mode_0755) repo_dirs)"

text \<open>A command that writes the file and exits with 3.\<close>

definition touching :: "eworld runner" where
  "touching dir command env w = (CmdExit 3, w\<lparr>hfs := fmupd (dir @ [''f'']) (File mode_0644 (fdata ''hi'')) (hfs w)\<rparr>)"

lemma empty_work_ok: "repo_ok repo_sha [''v''] (set repo_blobs) (engine_host empty_work)"
  "leaves_records [''v''] (engine_host empty_work) (engine_host work_fs)"
proof -
  have f: "fs_ok empty_work"
    unfolding fs_ok_def by (auto simp: empty_work_def repo_dirs_def demo_dirs_def slot_def ok_name_def is_dir_at_def inode_at_def)
  have "leaves_records [''v''] (engine_host work_fs) (engine_host empty_work)"
    using f by (auto simp: leaves_records_def records_path_def work_fs_def empty_work_def prefix_Cons)
  then show "repo_ok repo_sha [''v''] (set repo_blobs) (engine_host empty_work)" by (rule leaves_recordsD(1) [OF work_host_ok(1)])
  show "leaves_records [''v''] (engine_host empty_work) (engine_host work_fs)"
    using work_fs_ok by (auto simp: leaves_records_def records_path_def work_fs_def empty_work_def prefix_Cons)
qed

lemma touching_work: "touching [''v'', ''work'', ''t''] command env (engine_host empty_work) = (CmdExit 3, engine_host work_fs)"
  by (simp add: touching_def engine_host_def world.defs demo_host_def work_fs_def empty_work_def)

lemma no_checkpoints:
  assumes "id_ok i" shows "Checkpoint [''v''] empty_work i = Inl (Errorf ''no checkpoint %q'' [i] None)"
proof -
  have "records_ok [''v''] ''checkpoints'' empty_work" using repo_okD(6) [OF empty_work_ok(1)] by simp
  from getJSON_lookup [OF this assms, of dec_ckpt] show ?thesis
    by (simp add: Checkpoint_def empty_work_def repo_dirs_def demo_dirs_def)
qed

theorem Run_extends_history_witness:
  "\<exists>c s' w'. Run repo_sha (process_engine [''v''] touching) (demo_sandbox ''t'' []) [''sh''] (engine_host empty_work) =
     (Inr (c, s'), w') \<and> History [''v''] (hfs w') ''t'' = Some (Inr [c]) \<and> c_exit_code c = 3 \<and> c_added c = 1 \<and>
     TreeAt [''v''] (hfs w') (s_head s') = Inr [file_entry]"
proof -
  let ?s = "demo_sandbox ''t'' []" and ?w = "engine_host empty_work" and ?w1 = "engine_host work_fs"
  have s: "s_id ?s = ''t''" "s_head ?s = []" by (simp_all add: demo_sandbox_def)
  have cc: "can_checkpoint repo_sha [''v''] (set repo_blobs) ?s (hfs ?w1)"
    using demo_can_checkpoint [of "[]"] by (simp add: valid_utf8_ascii)
  have n: "Checkpoint [''v''] (hfs ?w) (next_id ''ck-'' ?w1) = Inl (Errorf ''no checkpoint %q'' [next_id ''ck-'' ?w1] None)"
    using no_checkpoints [OF ck_id_ok(1)] by simp
  have d: "count_kind added (Diff None [file_entry]) = 1"
    by (simp add: Diff_def count_kind_def by_path_def int64_id)
  show ?thesis
    using Run_extends_history [OF empty_work_ok(1) work_host_ok(2), of ?s "[]" "[''sh'']" 3 touching "CmdExit 3" ?w1]
      empty_work_ok(2) cc n s d
    by (auto simp: head_ok_def lineage.stop touching_work ended_with_def int64_id valid_utf8_ascii work_tree_demo parent_tree_def file_entry_fix)
qed

subsection \<open>What later steps leave of the past\<close>

definition past_kept :: "hasher \<Rightarrow> path \<Rightarrow> bytes set \<Rightarrow> 'z eworld_scheme \<Rightarrow> 'z eworld_scheme \<Rightarrow> bool" where
  "past_kept sha root B w w' \<longleftrightarrow> repo_ok sha root B w' \<and> clock_ok w' \<and>
     (\<forall>k c. id_ok k \<longrightarrow> Checkpoint root (hfs w) k = Inr c \<longrightarrow> Checkpoint root (hfs w') k = Inr c) \<and>
     blobs (root @ [''blobs'']) (hfs w) \<subseteq>\<^sub>m blobs (root @ [''blobs'']) (hfs w')"

lemma past_kept_trans: "past_kept sha root B u v \<Longrightarrow> past_kept sha root B v w \<Longrightarrow> past_kept sha root B u w"
  by (auto simp: past_kept_def intro: map_le_trans)

lemma past_kept_leaves:
  assumes "repo_ok sha root B w" and "clock_ok w" and "leaves_records root w w'"
  shows "past_kept sha root B w w'"
  using leaves_recordsD [OF assms(1,3)] assms(2,3) by (simp add: past_kept_def clock_ok_def leaves_records_def)

lemma recorded_kept:
  assumes "recorded sha root B c t w w1" and "past_kept sha root B w1 w2" and "id_ok (c_id c)"
  shows "recorded sha root B c t w2 w2"
proof -
  from assms(1) have r: "repo_ok sha root B w1" "Checkpoint root (hfs w1) (c_id c) = Inr c" "hash_name (c_tree_hash c)"
    "loadTree root (hfs w1) (c_tree_hash c) = Inr t" "\<forall>x \<in> set t. e_hash x \<noteq> [] \<longrightarrow> blobs (root @ [''blobs'']) (hfs w1) (e_hash x) \<noteq> None"
    by (auto simp: recorded_def)
  from assms(2) have k: "repo_ok sha root B w2" "blobs (root @ [''blobs'']) (hfs w1) \<subseteq>\<^sub>m blobs (root @ [''blobs'']) (hfs w2)"
    by (auto simp: past_kept_def)
  have "loadTree root (hfs w2) (c_tree_hash c) = Inr t"
    by (rule loadTree_keep [OF repo_okD(3) [OF r(1)] repo_okD(2) [OF k(1)] k(2) r(3,4)])
  moreover have "blobs (root @ [''blobs'']) (hfs w2) (e_hash x) \<noteq> None" if "x \<in> set t" "e_hash x \<noteq> []" for x
    using r(5) that k(2) by (fastforce simp: map_le_def dom_def)
  ultimately show ?thesis using assms(2,3) r(2,3) k(1) by (auto simp: recorded_def past_kept_def elsewhere_same_def)
qed

subsection \<open>Checking out\<close>

text \<open>What a working directory holds after a tree with the stored contents was restored to it.\<close>

abbreviation stored :: "path \<Rightarrow> fs \<Rightarrow> string \<Rightarrow> bytes" where
  "stored root f h \<equiv> the (blobs (root @ [''blobs'']) f h)"

definition holds_tree :: "path \<Rightarrow> path \<Rightarrow> tree \<Rightarrow> 'z eworld_scheme \<Rightarrow> 'z eworld_scheme \<Rightarrow> bool" where
  "holds_tree root dst t w w' \<longleftrightarrow>
     (\<forall>e \<in> set t. fmlookup (hfs w') (dst @ epath e) =
        Some (settle (fmlookup (hfs w) (dst @ epath e)) (inode_of (umask w) (stored root (hfs w)) e))) \<and>
     (\<forall>r. r \<noteq> [] \<longrightarrow> r \<notin> epath ` set t \<longrightarrow> fmlookup (hfs w') (dst @ r) = None)"

text \<open>That a tree can be restored there: it is well formed, nothing of another kind is in the way.\<close>

definition can_restore :: "path \<Rightarrow> path \<Rightarrow> tree \<Rightarrow> 'z eworld_scheme \<Rightarrow> bool" where
  "can_restore root dst t w \<longleftrightarrow> tree_wf t \<and> dst_ok dst (hfs w) \<and>
     (\<forall>e \<in> set t. \<not> e_dir e \<and> e_link e = [] \<longrightarrow> hash_name (e_hash e)) \<and>
     (\<forall>e \<in> set t. compat (fmlookup (hfs w) (dst @ epath e)) (inode_of (umask w) (stored root (hfs w)) e))"

lemma work_apart: "prefix (work_dir root s) q \<Longrightarrow> \<not> records_path root q"
  by (auto simp: records_path_def prefix_def)

lemma Restore_work:
  assumes "repo_ok sha root B w" and "can_restore root (work_dir root s) t w"
    and "\<forall>e \<in> set t. e_hash e \<noteq> [] \<longrightarrow> blobs (root @ [''blobs'']) (hfs w) (e_hash e) \<noteq> None"
  obtains w' where "Restore t (OpenBlob (root @ [''blobs''])) (work_dir root s) w = (Inr (), w')"
    and "leaves_records root w w'" and "holds_tree root (work_dir root s) t w w'" and "umask w' = umask w"
    and "world.more w' = world.more w" and "\<And>q. \<not> prefix (work_dir root s) q \<Longrightarrow> fmlookup (hfs w') q = fmlookup (hfs w) q"
    and "is_dir_at (hfs w') (work_dir root s)"
proof -
  let ?r = "root @ [''blobs'']" and ?dst = "work_dir root s"
  note rk = repo_okD [OF assms(1)]
  have op: "OpenBlob ?r g (e_hash e) = Inr (Inr (stored root (hfs w) (e_hash e)))"
    if e: "e \<in> set t" "\<not> e_dir e" "e_link e = []" and gok: "fs_ok g"
      and same: "\<forall>q. \<not> prefix ?dst q \<longrightarrow> fmlookup g q = fmlookup (hfs w) q" for e g
  proof -
    have h: "hash_name (e_hash e)" "e_hash e \<noteq> []" using e assms(2) by (auto simp: can_restore_def hash_name_def)
    with assms(3) e(1) obtain b where bb: "blobs ?r (hfs w) (e_hash e) = Some b" by blast
    obtain m' cs' where b: "fmlookup (hfs w) (blob_path ?r (e_hash e)) = Some (File m' cs')"
      "stored root (hfs w) (e_hash e) = fread cs'" by (rule blobs_SomeE [OF bb]) (use bb in simp)
    have "\<not> prefix ?dst (blob_path ?r (e_hash e))" by auto
    with same b(1) have "fmlookup g (blob_path ?r (e_hash e)) = Some (File m' cs')" by metis
    from OpenBlob_lookup [OF gok h(1) this] b(2) show ?thesis by simp
  qed
  then have re: "restorable (umask w) (stored root (hfs w)) (OpenBlob ?r) (hfs w) ?dst t"
    using assms(2) unfolding restorable_def can_restore_def by blast
  have d: "dst_ok ?dst (hfs w)" using assms(2) by (simp add: can_restore_def)
  obtain g where g: "Restore t (OpenBlob ?r) ?dst w = (Inr (), w\<lparr>hfs := g\<rparr>)" "fs_ok g" "is_dir_at g ?dst"
    "\<And>e. e \<in> set t \<Longrightarrow> fmlookup g (?dst @ epath e) =
       Some (settle (fmlookup (hfs w) (?dst @ epath e)) (inode_of (umask w) (stored root (hfs w)) e))"
    "\<And>r. r \<noteq> [] \<Longrightarrow> r \<notin> epath ` set t \<Longrightarrow> fmlookup g (?dst @ r) = None"
    "\<And>q. \<not> prefix ?dst q \<Longrightarrow> fmlookup g q = fmlookup (hfs w) q"
    by (rule Restore_ok [OF rk(4) d re]) (rule that)
  have "leaves_records root w (w\<lparr>hfs := g\<rparr>)"
    using g(2) g(6) [OF contrapos_pn [OF _ work_apart]] by (simp add: leaves_records_def)
  with that [OF g(1)] g show ?thesis by (simp add: holds_tree_def)
qed

lemma recorded_leaves:
  assumes "recorded sha root B c t w0 w" and "leaves_records root w w'" and "id_ok (c_id c)"
  shows "recorded sha root B c t w' w'"
proof -
  from assms(1) have "repo_ok sha root B w" by (simp add: recorded_def)
  from leaves_recordsD [OF this assms(2)] assms(1,3) show ?thesis
    by (simp add: recorded_def elsewhere_same_def)
qed

lemma Checkout_files:
  assumes "files_only e" and "recorded sha (e_repo e) B c t w0 w" and "id_ok (c_id c)" and "valid_utf8 (c_id c)"
    and "sandbox_ok s" and "ok_name (s_id s)" and "c_sandbox c = s_id s" and "can_restore (e_repo e) (work_dir (e_repo e) s) t w"
  obtains w' where "Checkout sha e s (c_id c) w = (Inr (s\<lparr>s_head := c_id c\<rparr>), w')"
    and "holds_tree (e_repo e) (work_dir (e_repo e) s) t w w'" and "recorded sha (e_repo e) B c t w' w'"
    and "Sandbox (e_repo e) (hfs w') (s_id s) = Inr (s\<lparr>s_head := c_id c\<rparr>)"
    and "\<And>k. id_ok k \<Longrightarrow> Checkpoint (e_repo e) (hfs w') k = Checkpoint (e_repo e) (hfs w) k"
    and "\<And>q. \<not> records_path (e_repo e) q \<Longrightarrow> \<not> prefix (work_dir (e_repo e) s) q \<Longrightarrow> fmlookup (hfs w') q = fmlookup (hfs w) q"
    and "blobs (e_repo e @ [''blobs'']) (hfs w) \<subseteq>\<^sub>m blobs (e_repo e @ [''blobs'']) (hfs w')" and "clock w' = clock w"
proof -
  let ?root = "e_repo e" and ?dst = "work_dir (e_repo e) s"
  from assms(2) have r: "repo_ok sha ?root B w" "Checkpoint ?root (hfs w) (c_id c) = Inr c" "loadTree ?root (hfs w) (c_tree_hash c) = Inr t"
    "\<forall>x \<in> set t. e_hash x \<noteq> [] \<longrightarrow> blobs (?root @ [''blobs'']) (hfs w) (e_hash x) \<noteq> None" by (auto simp: recorded_def)
  obtain w1 where w1: "Restore t (OpenBlob (?root @ [''blobs''])) ?dst w = (Inr (), w1)" "leaves_records ?root w w1"
    "holds_tree ?root ?dst t w w1" "umask w1 = umask w"
    "\<And>q. \<not> prefix ?dst q \<Longrightarrow> fmlookup (hfs w1) q = fmlookup (hfs w) q"
    by (rule Restore_work [OF r(1) assms(8) r(4)]) (rule that)
  have rec: "recorded sha ?root B c t w1 w1" by (rule recorded_leaves [OF assms(2) w1(2) assms(3)])
  have io: "id_ok (s_id s)" using assms(6) by (simp add: ok_name_def id_ok_def)
  obtain w2 where w2: "set_head e s c w1 = (Inr (s\<lparr>s_head := c_id c\<rparr>), w2)" "recorded sha ?root B c t w1 w2"
    "Sandbox ?root (hfs w2) (s_id s) = Inr (s\<lparr>s_head := c_id c\<rparr>)"
    by (rule set_head_ok [OF rec assms(5) io assms(4,3)]) (rule that)
  from w2(2) have k: "elsewhere_same ?root w1 w2" by (simp add: recorded_def)
  have "Checkout sha e s (c_id c) w = (Inr (s\<lparr>s_head := c_id c\<rparr>), w2)"
    using r(2,3) w1(1) w2(1) assms(1,7) WorkDir_path [OF assms(6)]
    by (simp add: Checkout_def io bringUp_def files_only_def)
  moreover have "fmlookup (hfs w2) q = fmlookup (hfs w1) q" if "\<not> records_path ?root q" for q
    using k that by (simp add: elsewhere_same_def)
  then have "fmlookup (hfs w2) (?dst @ q) = fmlookup (hfs w1) (?dst @ q)" for q using work_apart [of ?root s "?dst @ q"] by simp
  then have "holds_tree ?root ?dst t w w2" using w1(3) by (simp add: holds_tree_def)
  moreover have "recorded sha ?root B c t w2 w2" using w2(2) by (simp add: recorded_def elsewhere_same_def)
  moreover have "Checkpoint ?root (hfs w2) k = Checkpoint ?root (hfs w) k" if "id_ok k" for k
    using w2(2) leaves_recordsD(3) [OF r(1) w1(2) that] that r(2) by (cases "k = c_id c") (simp_all add: recorded_def)
  moreover have "fmlookup (hfs w2) q = fmlookup (hfs w) q" if "\<not> records_path ?root q" "\<not> prefix ?dst q" for q
    using k w1(5) that by (simp add: elsewhere_same_def)
  moreover have "blobs (?root @ [''blobs'']) (hfs w) \<subseteq>\<^sub>m blobs (?root @ [''blobs'']) (hfs w2)" "clock w2 = clock w"
    using w2(2) w1(2) leaves_recordsD(2) [OF r(1) w1(2)] by (simp_all add: recorded_def leaves_records_def)
  ultimately show ?thesis using that w2(3) by blast
qed

text \<open>What the paths of a directory are after its snapshot was restored over what is there now.\<close>

definition brought_back :: "mode \<Rightarrow> ignore option \<Rightarrow> fs \<Rightarrow> fs \<Rightarrow> path \<Rightarrow> path \<Rightarrow> inode option" where
  "brought_back um ign was now q r =
     (case fmlookup was (q @ r) of
        None \<Rightarrow> None
      | Some i \<Rightarrow> if (r, i) \<in> set (visible ign (below was q))
                 then map_option (settle (fmlookup now (q @ r))) (copied um i) else None)"

lemma snapshot_holds:
  assumes ok: "fs_ok was" and cap: "capturable (root @ [''blobs'']) B q was"
    and h: "holds_tree root q (snapshot_tree (hashOf sha) ign was q) w w'"
    and st: "\<And>r m cs. (r, File m cs) \<in> set (visible ign (below was q)) \<Longrightarrow> stored root (hfs w) (hashOf sha (fread cs)) = fread cs"
    and r: "r \<noteq> []"
  shows "fmlookup (hfs w') (q @ r) = brought_back (umask w) ign was (hfs w) q r"
proof (cases "\<exists>i. (r, i) \<in> set (visible ign (below was q)) \<and> copied (umask w) i \<noteq> None")
  case True
  then obtain i where i: "(r, i) \<in> set (visible ign (below was q))" "copied (umask w) i \<noteq> None" by blast
  have b: "(r, i) \<in> set (below was q)" using i(1) visible_subset by blast
  then have l: "fmlookup was (q @ r) = Some i" by (simp add: set_below)
  from i(2) obtain x where x: "x \<in> set (entry_of (hashOf sha) (r, i))" by (cases i) auto
  have "x \<in> set (snapshot_tree (hashOf sha) ign was q)" using i(1) x by (force simp: set_snapshot_tree)
  moreover have "epath x = r" by (rule entry_of_epath [OF ok b x])
  moreover have "Some (inode_of (umask w) (stored root (hfs w)) x) = copied (umask w) i"
    by (rule inode_of_entry [OF x]) (use cap l st i(1) in \<open>auto simp: capturable_def\<close>)
  ultimately have "fmlookup (hfs w') (q @ r) = map_option (settle (fmlookup (hfs w) (q @ r))) (copied (umask w) i)"
    using bspec [OF conjunct1 [OF h [unfolded holds_tree_def]], of x] by (metis option.map(2))
  with l i(1) show ?thesis by (simp add: brought_back_def)
next
  case False
  have "r \<notin> epath ` set (snapshot_tree (hashOf sha) ign was q)"
  proof
    assume "r \<in> epath ` set (snapshot_tree (hashOf sha) ign was q)"
    then obtain x p i where x: "r = epath x" "(p, i) \<in> set (visible ign (below was q))" "x \<in> set (entry_of (hashOf sha) (p, i))"
      by (force simp: set_snapshot_tree)
    with entry_of_epath [OF ok _ x(3)] visible_subset have "p = r" by blast
    moreover have "copied (umask w) i \<noteq> None" using x(3) by (cases i) auto
    ultimately show False using x(2) False by blast
  qed
  with h r have "fmlookup (hfs w') (q @ r) = None" by (simp add: holds_tree_def)
  with False show ?thesis by (auto simp: brought_back_def split: option.splits)
qed

lemma snapshot_can_restore:
  assumes "fs_ok was" and "capturable (root @ [''blobs'']) B q was" and "ok_sha sha" and "dst_ok q (hfs w)"
    and "\<And>r m cs. (r, File m cs) \<in> set (visible ign (below was q)) \<Longrightarrow> stored root (hfs w) (hashOf sha (fread cs)) = fread cs"
    and "\<forall>(r, i) \<in> set (visible ign (below was q)). \<forall>j. copied (umask w) i = Some j \<longrightarrow> compat (fmlookup (hfs w) (q @ r)) j"
  shows "can_restore root q (snapshot_tree (hashOf sha) ign was q) w"
proof -
  have "(\<not> e_dir x \<and> e_link x = [] \<longrightarrow> hash_name (e_hash x)) \<and>
      compat (fmlookup (hfs w) (q @ epath x)) (inode_of (umask w) (stored root (hfs w)) x)"
    if "x \<in> set (snapshot_tree (hashOf sha) ign was q)" for x
  proof -
    from that obtain r i where v: "(r, i) \<in> set (visible ign (below was q))" "x \<in> set (entry_of (hashOf sha) (r, i))"
      by (force simp: set_snapshot_tree)
    have b: "(r, i) \<in> set (below was q)" using v(1) visible_subset by blast
    then have l: "fmlookup was (q @ r) = Some i" by (simp add: set_below)
    have "Some (inode_of (umask w) (stored root (hfs w)) x) = copied (umask w) i"
      by (rule inode_of_entry [OF v(2)]) (use assms(2,5) l v(1) in \<open>auto simp: capturable_def\<close>)
    then have "copied (umask w) i = Some (inode_of (umask w) (stored root (hfs w)) x)" by simp
    with bspec [OF assms(6) v(1)] entry_of_epath [OF assms(1) b v(2)]
    have "compat (fmlookup (hfs w) (q @ epath x)) (inode_of (umask w) (stored root (hfs w)) x)" by simp
    moreover have "hash_name (e_hash x)" if "\<not> e_dir x" "e_link x = []"
      using v(2) that assms(2) l hash_name_hashOf [OF assms(3)] by (cases i) (auto simp: capturable_def)
    ultimately show ?thesis by blast
  qed
  with tree_wf_snapshot [OF assms(1)] assms(4) show ?thesis by (simp add: can_restore_def)
qed

text \<open>
  Property C2. On a backend without machines, checking a checkpoint out brings the working directory
  back to what it was when the checkpoint was taken, its names and link targets being UTF-8. What
  happened since may be anything outside the store and the records, and any later steps that keep
  the past; the sandbox is given by any record with its id; nothing of another kind is in the way of
  a path of the checkpoint. Then every path the checkpoint saw has the contents, link target or
  directory it had, with its permission bits when it is made anew, and every other path of the
  working directory is gone, those the checkpoint ignored too, such as \<open>.git\<close>. The record is saved
  with the checkpoint as its head.
\<close>

theorem Checkout_brings_back:
  fixes w w1 w2 :: "'z eworld_scheme"
  assumes "files_only e" and "repo_ok sha (e_repo e) B w" and "can_checkpoint sha (e_repo e) B s (hfs w)"
    and "clock_ok w" and "head_ok (e_repo e) (hfs w) (s_head s)"
    and "list_all valid_utf8 (case command of None \<Rightarrow> [] | Some cmd \<Rightarrow> cmd)" and "int64 code = code" and "valid_utf8 note"
    and "checkpoint sha e s command code note w = (Inr c, w1)"
    and "past_kept sha (e_repo e) B w1 w2" and "dst_ok (work_dir (e_repo e) s) (hfs w2)"
    and "\<forall>(r, i) \<in> set (visible (Some defaultIgnore) (below (hfs w) (work_dir (e_repo e) s))).
      \<forall>j. copied (umask w2) i = Some j \<longrightarrow> compat (fmlookup (hfs w2) (work_dir (e_repo e) s @ r)) j"
    and "list_all entry_ok (work_tree sha (e_repo e) s (hfs w))" and "sandbox_ok s'" and "s_id s' = s_id s"
  shows "\<exists>w3. Checkout sha e s' (c_id c) w2 = (Inr (s'\<lparr>s_head := c_id c\<rparr>), w3) \<and>
    (\<forall>r. r \<noteq> [] \<longrightarrow> fmlookup (hfs w3) (work_dir (e_repo e) s @ r) =
      brought_back (umask w2) (Some defaultIgnore) (hfs w) (hfs w2) (work_dir (e_repo e) s) r) \<and>
    Sandbox (e_repo e) (hfs w3) (s_id s) = Inr (s'\<lparr>s_head := c_id c\<rparr>)"
proof -
  let ?root = "e_repo e" and ?q = "work_dir (e_repo e) s" and ?ign = "Some defaultIgnore"
  let ?t = "work_tree sha ?root s (hfs w)"
  have fx: "map entry_fix ?t = ?t" using assms(13) by (intro map_idI) (simp add: entry_fix_ok list_all_iff)
  have rec: "recorded sha ?root B c ?t w w1" and c: "c_id c = next_id ''ck-'' w" "c_sandbox c = s_id s"
    by (rule checkpoint_files [OF assms(1-8)], use assms(9) fx in \<open>simp add: ckpt_of_def\<close>)+
  have ci: "id_ok (c_id c)" "valid_utf8 (c_id c)" using ck_id_ok(1,2) [of w] c(1) by simp_all
  have rec2: "recorded sha ?root B c ?t w2 w2" by (rule recorded_kept [OF rec assms(10) ci(1)])
  then have r2: "repo_ok sha ?root B w2" by (simp add: recorded_def)
  have s: "sandbox_ok s" "ok_name (s_id s)" "capturable (?root @ [''blobs'']) B ?q (hfs w)" using assms(3) by (auto simp: can_checkpoint_def)
  note ok = repo_okD(4,5) [OF assms(2)]
  have st: "stored ?root (hfs w2) (hashOf sha (fread cs)) = fread cs"
    if "(r, File m cs) \<in> set (visible ?ign (below (hfs w) ?q))" for r m cs
  proof -
    have l: "fmlookup (hfs w) (?q @ r) = Some (File m cs)" using that visible_subset by (fastforce simp: set_below)
    then have B: "fread cs \<in> B" using s(3) by (auto simp: capturable_def)
    have "\<exists>x \<in> set ?t. e_hash x = hashOf sha (fread cs)"
      using that unfolding work_tree_def set_snapshot_tree by force
    moreover have "hashOf sha (fread cs) \<noteq> []" using hash_name_hashOf [OF ok(2), of "fread cs"] by (auto simp: hash_name_def)
    ultimately obtain b where b: "blobs (?root @ [''blobs'']) (hfs w2) (hashOf sha (fread cs)) = Some b"
      using rec2 by (auto simp: recorded_def)
    from safe_addressed [OF repo_okD(2) [OF r2] this] repo_okD(2) [OF r2] B have "b = fread cs"
      by (auto simp: safe_store_def dest: inj_onD)
    with b show ?thesis by simp
  qed
  have "can_restore ?root ?q ?t w2"
    unfolding work_tree_def by (rule snapshot_can_restore [OF ok(1) s(3) ok(2) assms(11) st assms(12)])
  then have cr: "can_restore ?root (work_dir ?root s') ?t w2" by (simp add: assms(15))
  have s': "ok_name (s_id s')" "c_sandbox c = s_id s'" using s(2) c(2) assms(15) by simp_all
  from Checkout_files [OF assms(1) rec2 ci assms(14) s' cr] obtain w3 where
    w3: "Checkout sha e s' (c_id c) w2 = (Inr (s'\<lparr>s_head := c_id c\<rparr>), w3)" "holds_tree ?root ?q ?t w2 w3"
    "Sandbox ?root (hfs w3) (s_id s) = Inr (s'\<lparr>s_head := c_id c\<rparr>)" using assms(15) by metis
  have "fmlookup (hfs w3) (?q @ r) = brought_back (umask w2) ?ign (hfs w) (hfs w2) ?q r" if "r \<noteq> []" for r
    by (rule snapshot_holds [OF ok(1) s(3) w3(2) [unfolded work_tree_def] st that])
  with w3(1,3) show ?thesis by blast
qed

definition scribbled :: "eworld \<Rightarrow> eworld" where
  "scribbled w = w\<lparr>hfs := fmupd [''v'', ''work'', ''t'', ''.git''] (File mode_0644 (fdata ''hi''))
     (fmupd [''v'', ''work'', ''t'', ''f''] (File mode_0600 (fdata ''bye'')) (hfs w))\<rparr>"

lemma scribbled_leaves:
  assumes "fs_ok (hfs w)" and "is_dir_at (hfs w) [''v'', ''work'', ''t'']" and "fmlookup (hfs w) [''v'', ''work'', ''t'', ''f''] = Some (File m cs)"
    and "fmlookup (hfs w) [''v'', ''work'', ''t'', ''.git''] = None"
  shows "leaves_records [''v''] w (scribbled w)"
proof -
  let ?f = "fmupd [''v'', ''work'', ''t'', ''f''] (File mode_0600 (fdata ''bye'')) (hfs w)"
  have f: "fs_ok ?f"
    using assms slotI [of "hfs w" "[''v'', ''work'', ''t'']" "''f''"] by (intro fs_ok_fmupd) (auto simp: ok_name_def is_dir_at_def inode_at_def)
  have d: "is_dir_at ?f [''v'', ''work'', ''t'']" using assms(2) by (simp add: is_dir_at_def inode_at_def)
  have "slot ?f [''v'', ''work'', ''t'', ''.git'']" using slotI [OF d, of "''.git''"] by (simp add: ok_name_def)
  then have "fs_ok (fmupd [''v'', ''work'', ''t'', ''.git''] (File mode_0644 (fdata ''hi'')) ?f)"
    by (rule fs_ok_fmupd [OF f]) (use assms(4) in \<open>simp_all add: is_dir_at_def inode_at_def\<close>)
  then show ?thesis by (auto simp: leaves_records_def scribbled_def records_path_def prefix_Cons)
qed

lemma demo_checkpointed:
  obtains c w1 where "checkpoint repo_sha (process_engine [''v''] touching) (demo_sandbox ''t'' []) None 0 ''x'' (engine_host work_fs) = (Inr c, w1)"
    and "recorded repo_sha [''v''] (set repo_blobs) c [file_entry] (engine_host work_fs) w1" and "umask w1 = 0"
    and "is_dir_at (hfs w1) [''v'', ''work'', ''t'']" and "leaves_records [''v''] w1 (scribbled w1)"
    and "c_id c = next_id ''ck-'' (engine_host work_fs)"
proof -
  let ?e = "process_engine [''v''] touching" and ?s = "demo_sandbox ''t'' []" and ?w = "engine_host work_fs" and ?q = "[''v'', ''work'', ''t'']"
  have q: "s_id ?s = ''t''" by (simp add: demo_sandbox_def)
  have p: "repo_ok repo_sha (e_repo ?e) (set repo_blobs) ?w" "can_checkpoint repo_sha (e_repo ?e) (set repo_blobs) ?s (hfs ?w)"
    "head_ok (e_repo ?e) (hfs ?w) (s_head ?s)" "list_all valid_utf8 (case None of None \<Rightarrow> [] | Some cmd \<Rightarrow> cmd)" "int64 0 = 0" "valid_utf8 ''x''"
    using work_host_ok(1) demo_can_checkpoint [of "[]"] by (simp_all add: head_ok_def valid_utf8_ascii int64_id)
  obtain c w1 where w1: "checkpoint repo_sha ?e ?s None 0 ''x'' ?w = (Inr c, w1)" "c_id c = next_id ''ck-'' ?w" "recorded repo_sha (e_repo ?e) (set repo_blobs) c (map entry_fix (work_tree repo_sha (e_repo ?e) ?s (hfs ?w))) ?w w1"
    by (rule checkpoint_files [OF files_only_process p(1,2) work_host_ok(2) p(3-6)]) (rule that, assumption, simp_all add: ckpt_of_def)
  have l: "fmlookup (hfs w1) (?q @ x) = fmlookup work_fs (?q @ x)" for x
    using w1(3) work_apart [of "[''v'']" ?s "?q @ x"] q by (simp add: recorded_def elsewhere_same_def)
  have um: "umask w1 = 0" using w1(3) by (simp add: recorded_def elsewhere_same_def)
  have fs: "fs_ok (hfs w1)" using w1(3) repo_okD(4) by (auto simp: recorded_def)
  have k: "fmlookup work_fs (?q @ [''f'']) = Some (File mode_0644 (fdata ''hi''))" "fmlookup work_fs (?q @ [''.git'']) = None" "fmlookup work_fs (?q @ []) = Some (Dir mode_0755)"
    by (simp_all add: work_fs_def repo_dirs_def demo_dirs_def)
  have d: "is_dir_at (hfs w1) ?q" using l [of "[]"] k(3) by (simp add: is_dir_at_def inode_at_def)
  have lv: "leaves_records (e_repo ?e) w1 (scribbled w1)"
    using scribbled_leaves [OF fs d] l [of "[''f'']", unfolded k(1)] l [of "[''.git'']", unfolded k(2)] by simp
  show ?thesis by (rule that [OF w1(1) _ um d _ w1(2)]) (use w1(3) lv in \<open>simp_all add: work_tree_demo file_entry_fix\<close>)
qed

theorem Checkout_brings_back_witness:
  "\<exists>c w1 w3. checkpoint repo_sha (process_engine [''v''] touching) (demo_sandbox ''t'' []) None 0 ''x'' (engine_host work_fs) = (Inr c, w1) \<and>
     Checkout repo_sha (process_engine [''v''] touching) (demo_sandbox ''t'' []) (c_id c) (scribbled w1) =
       (Inr (demo_sandbox ''t'' (c_id c)), w3) \<and>
     fmlookup (hfs w3) [''v'', ''work'', ''t'', ''f''] = Some (File mode_0600 (fdata ''hi'')) \<and>
     fmlookup (hfs w3) [''v'', ''work'', ''t'', ''.git''] = None"
proof -
  let ?e = "process_engine [''v''] touching" and ?s = "demo_sandbox ''t'' []" and ?w = "engine_host work_fs" and ?q = "[''v'', ''work'', ''t'']"
  have q: "s_id ?s = ''t''" by (simp add: demo_sandbox_def)
  have p: "repo_ok repo_sha (e_repo ?e) (set repo_blobs) ?w" "can_checkpoint repo_sha (e_repo ?e) (set repo_blobs) ?s (hfs ?w)"
    "head_ok (e_repo ?e) (hfs ?w) (s_head ?s)" "list_all valid_utf8 (case None of None \<Rightarrow> [] | Some cmd \<Rightarrow> cmd)" "int64 0 = 0" "valid_utf8 ''x''"
    using work_host_ok(1) demo_can_checkpoint [of "[]"] by (simp_all add: head_ok_def valid_utf8_ascii int64_id)
  obtain c w1 where w1: "checkpoint repo_sha ?e ?s None 0 ''x'' ?w = (Inr c, w1)"
    and w1r: "recorded repo_sha [''v''] (set repo_blobs) c [file_entry] ?w w1" and um: "umask w1 = 0"
    and d: "is_dir_at (hfs w1) ?q" and lv: "leaves_records [''v''] w1 (scribbled w1)" by (rule demo_checkpointed)
  have lv: "leaves_records (e_repo ?e) w1 (scribbled w1)" using lv by simp
  have k: "fmlookup work_fs (?q @ [''f'']) = Some (File mode_0644 (fdata ''hi''))" "fmlookup work_fs (?q @ [''.git'']) = None"
    by (simp_all add: work_fs_def repo_dirs_def demo_dirs_def)
  have dst: "dst_ok (work_dir (e_repo ?e) ?s) (hfs (scribbled w1))" using d by (simp add: q dst_ok_def scribbled_def is_dir_at_def inode_at_def)
  have v: "visible (Some defaultIgnore) (below (hfs ?w) (work_dir (e_repo ?e) ?s)) = [([''f''], File mode_0644 (fdata ''hi''))]"
    by (simp add: q work_below work_visible)
  have sc: "umask (scribbled w1) = 0" "fmlookup (hfs (scribbled w1)) (?q @ [''f'']) = Some (File mode_0600 (fdata ''bye''))"
    by (simp_all add: scribbled_def um)
  have cm: "\<forall>(r, i) \<in> set (visible (Some defaultIgnore) (below (hfs ?w) (work_dir (e_repo ?e) ?s))).
      \<forall>j. copied (umask (scribbled w1)) i = Some j \<longrightarrow> compat (fmlookup (hfs (scribbled w1)) (work_dir (e_repo ?e) ?s @ r)) j"
    unfolding v using sc by (simp add: q)
  have b: "brought_back (umask (scribbled w1)) (Some defaultIgnore) (hfs ?w) (hfs (scribbled w1)) (work_dir (e_repo ?e) ?s) [''f''] = Some (File mode_0600 (fdata ''hi''))"
    "brought_back (umask (scribbled w1)) (Some defaultIgnore) (hfs ?w) (hfs (scribbled w1)) (work_dir (e_repo ?e) ?s) [''.git''] = None"
    unfolding brought_back_def v using sc k by (simp_all add: q)
  have h: "?s\<lparr>s_head := c_id c\<rparr> = demo_sandbox ''t'' (c_id c)" by (simp add: demo_sandbox_def)
  have ro: "repo_ok repo_sha (e_repo ?e) (set repo_blobs) w1" "clock_ok w1"
    using w1r work_host_ok(2) [of work_fs] by (simp_all add: recorded_def clock_ok_def)
  have pk: "past_kept repo_sha (e_repo ?e) (set repo_blobs) w1 (scribbled w1)" by (rule past_kept_leaves [OF ro lv])
  have wt: "list_all entry_ok (work_tree repo_sha (e_repo ?e) ?s (hfs ?w))" by (simp add: work_tree_demo file_entry_fix)
  have so: "sandbox_ok ?s" using p(2) by (simp add: can_checkpoint_def)
  from Checkout_brings_back [OF files_only_process p(1,2) work_host_ok(2) p(3-6) w1 pk dst cm wt so refl] b w1
  show ?thesis unfolding h by (simp add: q) (metis append_Cons append_Nil not_Cons_self2)
qed
subsection \<open>Creating and forking\<close>

text \<open>The record of a new sandbox, and the world once its id and its time were taken.\<close>

definition fresh_sandbox :: "'z eworld_scheme engine \<Rightarrow> string \<Rightarrow> string \<Rightarrow> 'z eworld_scheme \<Rightarrow> sandbox" where
  "fresh_sandbox e name from w = \<lparr>s_id = next_id ''sbx-'' w, s_name = (if name = [] then next_id ''sbx-'' w else name),
     s_backend = b_Name (e_backend e), s_head = [], s_forked_from = from, s_created = clock w (clock_pos w), s_steps = 0\<rparr>"

definition after_id :: "'z eworld_scheme \<Rightarrow> 'z eworld_scheme" where
  "after_id w = w\<lparr>rand_pos := rand_pos w + 6, clock_pos := Suc (clock_pos w)\<rparr>"

lemma after_id_sel [simp]:
  "hfs (after_id w) = hfs w" "zeroHashes (after_id w) = zeroHashes w" "umask (after_id w) = umask w" "clock (after_id w) = clock w"
  by (simp_all add: after_id_def)

lemma after_id_ok [simp]:
  "repo_ok sha root B (after_id w) \<longleftrightarrow> repo_ok sha root B w" "clock_ok (after_id w) \<longleftrightarrow> clock_ok w"
  using repo_ok_cong [of "after_id w" w] by (simp_all add: clock_ok_def)

lemma valid_utf8_append: "\<forall>c \<in> set s. byte c < 128 \<Longrightarrow> valid_utf8 (s @ t) \<longleftrightarrow> valid_utf8 t"
  by (induction s) (simp_all add: valid_utf8.simps [of "_ # _"] rune_len_ascii)

lemma new_sandbox_effect: "new_sandbox e name from w = (Inr (fresh_sandbox e name from w), after_id w)"
  by (simp add: new_sandbox_def newID_effect time_now_effect io fresh_sandbox_def after_id_def)

lemma fresh_id: "s_id (fresh_sandbox e name from w) = next_id ''sbx-'' w"
  by (simp add: fresh_sandbox_def)

lemma fresh_sandbox_ok:
  assumes "valid_utf8 name" and "valid_utf8 from" and "valid_utf8 (b_Name (e_backend e))" and "clock_ok w"
  shows "sandbox_ok (fresh_sandbox e name from w)" and "ok_name (s_id (fresh_sandbox e name from w))"
    and "id_ok (s_id (fresh_sandbox e name from w))" and "s_head (fresh_sandbox e name from w) = []"
  using assms sbx_id_ok [of w] by (simp_all add: sandbox_ok_def fresh_sandbox_def clock_ok_def int64_id valid_utf8_ascii)

text \<open>There is a directory for working directories, and the new one is not there yet.\<close>

definition room_for :: "path \<Rightarrow> sandbox \<Rightarrow> fs \<Rightarrow> bool" where
  "room_for root s f \<longleftrightarrow> is_dir_at f (root @ [''work'']) \<and> fmlookup f (work_dir root s) = None"

lemma room_dst: "room_for root s f \<Longrightarrow> ok_name (s_id s) \<Longrightarrow> dst_ok (work_dir root s) f"
  by (simp add: room_for_def dst_ok_def butlast_append)

text \<open>The root checkpoint of a fork.\<close>

definition fork_ckpt :: "ckpt \<Rightarrow> 'z eworld_scheme \<Rightarrow> ckpt" where
  "fork_ckpt src w = \<lparr>c_id = next_id ''ck-'' (after_id w), c_sandbox = next_id ''sbx-'' w, c_seq = 0, c_parent = [], c_tree_hash = c_tree_hash src,
      c_command = [], c_exit_code = 0, c_created = clock w (Suc (clock_pos w)), c_added = 0, c_modified = 0, c_deleted = 0,
      c_note = ''forked from '' @ c_id src, c_mem_hash = c_mem_hash src, c_state_hash = c_state_hash src,
      c_disk_hash = c_disk_hash src, c_base_hash = []\<rparr>"

lemma fork_ckpt_ok:
  "id_ok (c_id (fork_ckpt src w))" "valid_utf8 (c_id (fork_ckpt src w))"
  "valid_utf8 (c_id src) \<Longrightarrow> clock_ok w \<Longrightarrow> ckpt_ok src \<Longrightarrow> ckpt_ok (fork_ckpt src w)"
proof -
  show i: "id_ok (c_id (fork_ckpt src w))" "valid_utf8 (c_id (fork_ckpt src w))"
    using ck_id_ok(1,2) [of "after_id w"] by (simp_all add: fork_ckpt_def)
  have "valid_utf8 (''forked from '' @ c_id src)" if "valid_utf8 (c_id src)"
    using valid_utf8_append [of "''forked from ''" "c_id src"] that by simp
  with i(2) show "valid_utf8 (c_id src) \<Longrightarrow> clock_ok w \<Longrightarrow> ckpt_ok src \<Longrightarrow> ckpt_ok (fork_ckpt src w)"
    using sbx_id_ok(2) [of w] by (simp add: fork_ckpt_def ckpt_ok_def clock_ok_def int64_id valid_utf8_ascii)
qed

lemma Fork_files:
  assumes "files_only e" and "recorded sha (e_repo e) B src t w0 w" and "id_ok (c_id src)" and "valid_utf8 (c_id src)"
    and "valid_utf8 name" and "valid_utf8 (b_Name (e_backend e))" and "clock_ok w" and "ckpt_ok src"
    and "room_for (e_repo e) (fresh_sandbox e name (c_id src) w) (hfs w)" and "tree_wf t"
    and "\<forall>x \<in> set t. \<not> e_dir x \<and> e_link x = [] \<longrightarrow> hash_name (e_hash x)"
    and "Checkpoint (e_repo e) (hfs w) (next_id ''ck-'' (after_id w)) = Inl err"
  obtains s c w' where "Fork sha e (c_id src) name w = (Inr s, w')" and "s = (fresh_sandbox e name (c_id src) w)\<lparr>s_head := c_id c\<rparr>"
    and "c = fork_ckpt src w"
    and "recorded sha (e_repo e) B c t w' w'" and "Sandbox (e_repo e) (hfs w') (s_id s) = Inr s"
    and "holds_tree (e_repo e) (work_dir (e_repo e) s) t w w'"
    and "\<And>k. id_ok k \<Longrightarrow> k \<noteq> c_id c \<Longrightarrow> Checkpoint (e_repo e) (hfs w') k = Checkpoint (e_repo e) (hfs w) k"
    and "blobs (e_repo e @ [''blobs'']) (hfs w) \<subseteq>\<^sub>m blobs (e_repo e @ [''blobs'']) (hfs w')" and "clock w' = clock w"
    and "\<And>q. \<not> records_path (e_repo e) q \<Longrightarrow> \<not> prefix (work_dir (e_repo e) s) q \<Longrightarrow> fmlookup (hfs w') q = fmlookup (hfs w) q"
proof -
  let ?root = "e_repo e" and ?s = "fresh_sandbox e name (c_id src) w" and ?r = "e_repo e @ [''blobs'']" and ?v = "after_id w"
  let ?q = "work_dir ?root ?s"
  note so = fresh_sandbox_ok [OF assms(5,4,6,7)]
  from assms(2) have r: "repo_ok sha ?root B w" "Checkpoint ?root (hfs w) (c_id src) = Inr src" "loadTree ?root (hfs w) (c_tree_hash src) = Inr t"
    "hash_name (c_tree_hash src)"
    "\<forall>x \<in> set t. e_hash x \<noteq> [] \<longrightarrow> blobs ?r (hfs w) (e_hash x) \<noteq> None" by (auto simp: recorded_def)
  have fr: "fmlookup (hfs w) (?q @ p) = None" for p
    using fresh_below [OF repo_okD(4) [OF r(1)], of ?q p] assms(9) by (simp add: room_for_def)
  have cr: "can_restore ?root ?q t ?v"
    using room_dst [OF assms(9) so(2)] assms(10,11) fr by (simp add: can_restore_def)
  have rv: "repo_ok sha ?root B ?v" "\<forall>x \<in> set t. e_hash x \<noteq> [] \<longrightarrow> blobs ?r (hfs ?v) (e_hash x) \<noteq> None" using r by simp_all
  obtain w1 where w1: "Restore t (OpenBlob ?r) ?q ?v = (Inr (), w1)" "leaves_records ?root ?v w1" "holds_tree ?root ?q t ?v w1"
    "world.more w1 = world.more ?v" "\<And>q. \<not> prefix ?q q \<Longrightarrow> fmlookup (hfs w1) q = fmlookup (hfs ?v) q"
    by (rule Restore_work [OF rv(1) cr rv(2)]) (rule that)
  note l1 = leaves_recordsD [OF rv(1) w1(2)] and m1 = more_same [OF w1(4)]
  let ?c = "fork_ckpt src w"
  note ci = fork_ckpt_ok(1,2) [of src w] and ck = fork_ckpt_ok(3) [OF assms(4,7,8)]
  let ?w2 = "after_id w1"
  have r2: "repo_ok sha ?root B ?w2" using l1(1) by simp
  obtain f m cs where f: "SaveCheckpoint ?root ?c ?w2 = (Inr (), ?w2\<lparr>hfs := f\<rparr>)" "repo_ok sha ?root B (?w2\<lparr>hfs := f\<rparr>)"
    "f = fmupd (?root @ [''checkpoints'', c_id ?c @ ''.json'']) (File m cs) (hfs ?w2)"
    "blobs ?r f = blobs ?r (hfs ?w2)" "Checkpoint ?root f (c_id ?c) = Inr ?c"
    "\<And>k. id_ok k \<Longrightarrow> k \<noteq> c_id ?c \<Longrightarrow> Checkpoint ?root f k = Checkpoint ?root (hfs ?w2) k"
    by (rule SaveCheckpoint_repo [OF r2 ck ci(1)]) (rule that)
  let ?w3 = "?w2\<lparr>hfs := f\<rparr>"
  have b3: "blobs ?r f = blobs ?r (hfs w)" using f(4) l1(2) by simp
  have "loadTree ?root f (c_tree_hash src) = Inr t"
    using loadTree_keep [OF repo_okD(3) [OF r(1)] repo_okD(2) [OF f(2)] _ r(4,3)] b3 by simp
  then have rec: "recorded sha ?root B ?c t ?w3 ?w3"
    using f(2,5) r(4,5) b3 by (simp add: recorded_def elsewhere_same_def) (simp add: fork_ckpt_def)
  obtain w' where w': "set_head e ?s ?c ?w3 = (Inr (?s\<lparr>s_head := c_id ?c\<rparr>), w')" "recorded sha ?root B ?c t ?w3 w'"
    "Sandbox ?root (hfs w') (s_id ?s) = Inr (?s\<lparr>s_head := c_id ?c\<rparr>)"
    by (rule set_head_ok [OF rec so(1,3) ci(2,1)]) (rule that)
  from w'(2) have k: "elsewhere_same ?root ?w3 w'" by (simp add: recorded_def)
  have q3: "fmlookup (hfs w') p = fmlookup (hfs w1) p" if "\<not> records_path ?root p" for p
    using k elsewhere_record [of "''checkpoints''" ?root ?w2] f(3) that by (simp add: elsewhere_same_def)
  show ?thesis
  proof (rule that [of "?s\<lparr>s_head := c_id ?c\<rparr>" w' ?c])
    show "Fork sha e (c_id src) name w = (Inr (?s\<lparr>s_head := c_id ?c\<rparr>), w')"
      using r(2,3) w1(1) f(1) w'(1) assms(1) WorkDir_path [OF so(2)] m1
      by (simp add: Fork_def io new_sandbox_effect bringUp_def files_only_def newID_effect time_now_effect fork_ckpt_def Let_def after_id_def fresh_id)
    show "recorded sha ?root B ?c t w' w'" using w'(2) by (simp add: recorded_def elsewhere_same_def)
    have "fmlookup (hfs w') (?q @ p) = fmlookup (hfs w1) (?q @ p)" for p using q3 work_apart [of ?root ?s "?q @ p"] by simp
    then show "holds_tree ?root (work_dir ?root (?s\<lparr>s_head := c_id ?c\<rparr>)) t w w'" using w1(3) by (simp add: holds_tree_def)
    show "Checkpoint ?root (hfs w') k = Checkpoint ?root (hfs w) k" if "id_ok k" "k \<noteq> c_id ?c" for k
      using w'(2) f(6) [OF that] l1(3) [OF that(1)] that by (simp add: recorded_def)
    show "blobs ?r (hfs w) \<subseteq>\<^sub>m blobs ?r (hfs w')" using w'(2) b3 by (simp add: recorded_def)
    show "clock w' = clock w" using w'(2) w1(2) by (simp add: recorded_def leaves_records_def)
    show "fmlookup (hfs w') p = fmlookup (hfs w) p" if "\<not> records_path ?root p" "\<not> prefix (work_dir ?root (?s\<lparr>s_head := c_id ?c\<rparr>)) p" for p
      using q3 [OF that(1)] w1(5) [of p] that(2) by simp
  qed (use w'(3) in \<open>simp_all\<close>)
qed

text \<open>
  Property C4. Forking an intact checkpoint on a backend without machines: the new sandbox names
  the checkpoint it came from, its working directory holds exactly the checkpoint's tree, and its
  history is one new checkpoint with the same tree and the same memory, state and disk images;
  but not with the base disk: that hash is dropped, whatever the source had. The source and every
  other checkpoint are found as before, and no other file is touched.
\<close>

theorem Fork_copies:
  fixes w :: "'z eworld_scheme"
  assumes "files_only e" and "recorded sha (e_repo e) B src t w w" and "id_ok (c_id src)" and "valid_utf8 (c_id src)"
    and "valid_utf8 name" and "valid_utf8 (b_Name (e_backend e))" and "clock_ok w" and "ckpt_ok src"
    and "room_for (e_repo e) (fresh_sandbox e name (c_id src) w) (hfs w)" and "tree_wf t"
    and "\<forall>x \<in> set t. \<not> e_dir x \<and> e_link x = [] \<longrightarrow> hash_name (e_hash x)"
    and "Checkpoint (e_repo e) (hfs w) (next_id ''ck-'' (after_id w)) = Inl err"
  shows "\<exists>s c w'. Fork sha e (c_id src) name w = (Inr s, w') \<and> s_forked_from s = c_id src \<and>
    Sandbox (e_repo e) (hfs w') (s_id s) = Inr s \<and> History (e_repo e) (hfs w') (s_id s) = Some (Inr [c]) \<and>
    TreeAt (e_repo e) (hfs w') (c_id c) = Inr t \<and> holds_tree (e_repo e) (work_dir (e_repo e) s) t w w' \<and>
    c_tree_hash c = c_tree_hash src \<and> c_mem_hash c = c_mem_hash src \<and> c_state_hash c = c_state_hash src \<and>
    c_disk_hash c = c_disk_hash src \<and> c_base_hash c = [] \<and>
    (\<forall>k. id_ok k \<longrightarrow> k \<noteq> c_id c \<longrightarrow> Checkpoint (e_repo e) (hfs w') k = Checkpoint (e_repo e) (hfs w) k) \<and>
    (\<forall>q. \<not> records_path (e_repo e) q \<longrightarrow> \<not> prefix (work_dir (e_repo e) s) q \<longrightarrow> fmlookup (hfs w') q = fmlookup (hfs w) q)"
proof -
  obtain s c w' where s: "Fork sha e (c_id src) name w = (Inr s, w')" "s = (fresh_sandbox e name (c_id src) w)\<lparr>s_head := c_id c\<rparr>"
    and c: "c = fork_ckpt src w"
    and w': "recorded sha (e_repo e) B c t w' w'" "Sandbox (e_repo e) (hfs w') (s_id s) = Inr s"
    "holds_tree (e_repo e) (work_dir (e_repo e) s) t w w'"
    "\<And>k. id_ok k \<Longrightarrow> k \<noteq> c_id c \<Longrightarrow> Checkpoint (e_repo e) (hfs w') k = Checkpoint (e_repo e) (hfs w) k"
    "\<And>q. \<not> records_path (e_repo e) q \<Longrightarrow> \<not> prefix (work_dir (e_repo e) s) q \<Longrightarrow> fmlookup (hfs w') q = fmlookup (hfs w) q"
    by (rule Fork_files [OF assms]) (rule that)
  have cid: "c_id c \<noteq> []" "c_parent c = []" using ck_id_ok(3) [of "after_id w"] by (simp_all add: c fork_ckpt_def)
  have "Checkpoint (e_repo e) (hfs w') (c_id c) = Inr c" using w'(1) by (simp add: recorded_def)
  then have "lineage (e_repo e) (hfs w') (c_id c) [c]" using cid by (intro lineage.step) (simp_all add: lineage.stop)
  then have "History (e_repo e) (hfs w') (s_id s) = Some (Inr [c])" by (intro History_head [OF w'(2)]) (simp add: s(2))
  moreover have "TreeAt (e_repo e) (hfs w') (c_id c) = Inr t" using w'(1) by (simp add: TreeAt_def recorded_def)
  moreover have "s_forked_from s = c_id src" by (simp add: s(2) fresh_sandbox_def)
  moreover have "c_tree_hash c = c_tree_hash src" "c_mem_hash c = c_mem_hash src" "c_state_hash c = c_state_hash src"
    "c_disk_hash c = c_disk_hash src" "c_base_hash c = []" by (simp_all add: c fork_ckpt_def)
  ultimately show ?thesis using s(1) w'(2-5) by (intro exI [of _ s] exI [of _ c] exI [of _ w']) blast
qed

text \<open>A repository whose checkpoint \<open>a\<close> can be forked.\<close>

definition fork_src :: ckpt where
  "fork_src = (demo_ckpt ''a'' [])\<lparr>c_tree_hash := hashOf repo_sha (Marshal [file_entry]), c_base_hash := ''b''\<rparr>"

lemma fork_src_sel: "c_id fork_src = ''a''" "id_ok (c_id fork_src)" "valid_utf8 (c_id fork_src)" "ckpt_ok fork_src"
proof -
  show "c_id fork_src = ''a''" "id_ok (c_id fork_src)" "valid_utf8 (c_id fork_src)"
    by (simp_all add: fork_src_def id_ok_def valid_utf8_ascii)
  show "ckpt_ok fork_src"
    using demo_ckpt_ok [of "''a''" "[]"] by (simp add: fork_src_def ckpt_ok_def valid_utf8_hashOf valid_utf8_ascii)
qed

lemma demo_forkable:
  obtains w where "recorded repo_sha [''v''] (set repo_blobs) fork_src [file_entry] w w" and "clock_ok w"
    and "room_for [''v''] (fresh_sandbox (process_engine [''v''] touching) [] ''a'' w) (hfs w)" and "tree_wf [file_entry]"
    and "\<forall>x \<in> set [file_entry]. \<not> e_dir x \<and> e_link x = [] \<longrightarrow> hash_name (e_hash x)"
    and "Checkpoint [''v''] (hfs w) (next_id ''ck-'' (after_id w)) = Inl (Errorf ''no checkpoint %q'' [next_id ''ck-'' (after_id w)] None)"
proof -
  let ?e = "process_engine [''v''] touching" and ?w = "engine_host work_fs" and ?r = "[''v'', ''blobs'']"
  let ?c = fork_src
  have B: "''hi'' \<in> set repo_blobs" "Marshal [file_entry] \<in> set repo_blobs" by (simp_all add: repo_blobs_def)
  obtain w1 where w1: "grows repo_sha ?r (set repo_blobs) ?w w1" "blobs ?r (hfs w1) (e_hash file_entry) = Some ''hi''"
    using safe_Put_grows [OF repo_okD(1) [OF work_host_ok(1)] B(1)] unfolding repo_hashes by auto
  have r1: "repo_ok repo_sha [''v''] (set repo_blobs) w1" using repo_ok_grows(1) [OF work_host_ok(1)] w1(1) by simp
  obtain w2 where w2: "grows repo_sha ?r (set repo_blobs) w1 w2" "blobs ?r (hfs w2) (hashOf repo_sha (Marshal [file_entry])) = Some (Marshal [file_entry])"
    using safe_Put_grows [OF repo_okD(1) [OF r1] B(2)] by auto
  have r2: "repo_ok repo_sha [''v''] (set repo_blobs) w2" using repo_ok_grows(1) [OF r1] w2(1) by simp
  note ck = fork_src_sel(4) and io = fork_src_sel(2,1)
  have th: "c_tree_hash ?c = hashOf repo_sha (Marshal [file_entry])" by (simp add: fork_src_def)
  obtain f m cs where f: "repo_ok repo_sha [''v''] (set repo_blobs) (w2\<lparr>hfs := f\<rparr>)"
    "f = fmupd ([''v''] @ [''checkpoints'', c_id ?c @ ''.json'']) (File m cs) (hfs w2)"
    "blobs ([''v''] @ [''blobs'']) f = blobs ([''v''] @ [''blobs'']) (hfs w2)" "Checkpoint [''v''] f (c_id ?c) = Inr ?c"
    "\<And>k. id_ok k \<Longrightarrow> k \<noteq> c_id ?c \<Longrightarrow> Checkpoint [''v''] f k = Checkpoint [''v''] (hfs w2) k"
    by (rule SaveCheckpoint_repo [OF r2 ck io(1)]) (rule that)
  let ?w = "w2\<lparr>hfs := f\<rparr>"
  have "list_all entry_ok [file_entry]" using file_entry_fix by simp
  then have lt: "loadTree [''v''] f (c_tree_hash ?c) = Inr [file_entry]"
    using loadTree_blob [OF repo_okD(2) [OF f(1)]] f(3) w2(2) th by (simp add: Unmarshal_Marshal_ok)
  have rec: "recorded repo_sha (e_repo ?e) (set repo_blobs) ?c [file_entry] ?w ?w"
    using f(1,4) lt f(3) grows_blob [OF w2(1) w1(2)] hash_name_hashOf [OF repo_okD(5) [OF r2]]
    by (simp add: recorded_def elsewhere_same_def th)
  have g: "grows repo_sha ?r (set repo_blobs) (engine_host work_fs) w2" using w1(1) w2(1) by (rule grows_trans)
  have ck': "clock_ok ?w" using more_same(2) [of w2 "engine_host work_fs"] g by (simp add: clock_ok_def grows_def zero_time_def time_ok_def time_read_def days_in_def)
  have lk: "fmlookup f p = fmlookup work_fs p" if "\<not> records_path [''v''] p" for p
    using that elsewhere_grows [of repo_sha "[''v'']" "set repo_blobs" "engine_host work_fs" w2] g elsewhere_record [of "''checkpoints''" "[''v'']" w2] f(2)
    by (simp add: elsewhere_same_def)
  have room: "room_for (e_repo ?e) (fresh_sandbox ?e [] (c_id ?c) ?w) (hfs ?w)"
  proof -
    have "s_id (fresh_sandbox ?e [] (c_id ?c) ?w) \<noteq> ''t''" by (simp add: fresh_sandbox_def next_id_def)
    then show ?thesis
      unfolding room_for_def is_dir_at_def inode_at_def
      using lk [of "[''v'', ''work'']"] lk [of "[''v'', ''work'', s_id (fresh_sandbox ?e [] (c_id ?c) ?w)]"]
      by (simp add: records_path_def work_fs_def repo_dirs_def demo_dirs_def)
  qed
  have wf: "tree_wf [file_entry]"
    using tree_wf_snapshot [OF work_fs_ok] unfolding work_tree_demo [of "[]", symmetric] work_tree_def by blast
  have hn: "\<forall>x \<in> set [file_entry]. \<not> e_dir x \<and> e_link x = [] \<longrightarrow> hash_name (e_hash x)"
    using hash_name_hashOf [OF repo_okD(5) [OF r2], of "''hi''"] repo_hashes by simp
  have nx: "Checkpoint (e_repo ?e) (hfs ?w) (next_id ''ck-'' (after_id ?w)) = Inl (Errorf ''no checkpoint %q'' [next_id ''ck-'' (after_id ?w)] None)"
  proof -
    have "next_id ''ck-'' (after_id ?w) \<noteq> c_id ?c" by (simp add: next_id_def io(2))
    then have "Checkpoint [''v''] f (next_id ''ck-'' (after_id ?w)) = Checkpoint [''v''] work_fs (next_id ''ck-'' (after_id ?w))"
      using f(5) [OF ck_id_ok(1) [of "after_id ?w"]] repo_ok_grows(2) [OF work_host_ok(1) _ ck_id_ok(1) [of "after_id ?w"]] g by simp
    moreover have "Checkpoint [''v''] work_fs i = Checkpoint [''v''] empty_work i" if "id_ok i" for i
      using leaves_recordsD(3) [OF empty_work_ok(1,2) that] by simp
    ultimately show ?thesis using no_checkpoints [OF ck_id_ok(1) [of "after_id ?w"]] ck_id_ok(1) [of "after_id ?w"] by simp
  qed
  show ?thesis by (rule that [of ?w]) (use rec ck' room wf hn nx io(2) in simp_all)
qed

theorem Fork_copies_witness:
  "\<exists>src s c w w'. src = (demo_ckpt ''a'' [])\<lparr>c_tree_hash := hashOf repo_sha (Marshal [file_entry]), c_base_hash := ''b''\<rparr> \<and>
     Checkpoint [''v''] (hfs w) ''a'' = Inr src \<and> Fork repo_sha (process_engine [''v''] touching) ''a'' [] w = (Inr s, w') \<and>
     History [''v''] (hfs w') (s_id s) = Some (Inr [c]) \<and> TreeAt [''v''] (hfs w') (c_id c) = Inr [file_entry] \<and> c_base_hash c = []"
proof -
  let ?e = "process_engine [''v''] touching"
  obtain w where w: "recorded repo_sha (e_repo ?e) (set repo_blobs) fork_src [file_entry] w w" "clock_ok w"
    "room_for (e_repo ?e) (fresh_sandbox ?e [] (c_id fork_src) w) (hfs w)" "tree_wf [file_entry]"
    "\<forall>x \<in> set [file_entry]. \<not> e_dir x \<and> e_link x = [] \<longrightarrow> hash_name (e_hash x)"
    "Checkpoint (e_repo ?e) (hfs w) (next_id ''ck-'' (after_id w)) = Inl (Errorf ''no checkpoint %q'' [next_id ''ck-'' (after_id w)] None)"
    by (rule demo_forkable) (rule that, simp_all add: fork_src_sel)
  have bn: "valid_utf8 (b_Name (e_backend ?e))" "valid_utf8 []" by (simp_all add: ProcessBackend_def valid_utf8_ascii)
  from Fork_copies [OF files_only_process w(1) fork_src_sel(2,3) bn(2,1) w(2) fork_src_sel(4) w(3-6)] fork_src_sel(1) obtain s c w' where
    "Fork repo_sha ?e ''a'' [] w = (Inr s, w')" "History [''v''] (hfs w') (s_id s) = Some (Inr [c])"
    "TreeAt [''v''] (hfs w') (c_id c) = Inr [file_entry]" "c_base_hash c = []" by auto
  moreover have "Checkpoint [''v''] (hfs w) ''a'' = Inr fork_src" using w(1) fork_src_sel(1) by (simp add: recorded_def)
  ultimately show ?thesis
    by (intro exI [of _ fork_src] exI [of _ s] exI [of _ c] exI [of _ w] exI [of _ w']) (simp add: fork_src_def)
qed

end
