(* ===== verification/RemoteProps.thy ===== *)
theory RemoteProps
  imports DemoRepo
begin

section \<open>Pushing to a directory and pulling from it\<close>

text \<open>
  The facts of \<open>object_map\<close> at the directory store: what a push leaves in the directory, that a
  second push uploads nothing, that another machine that sees the same objects pulls the
  checkpoint with the same files; and, for any object store at all, that a pull accepts a blob
  only under its hash.
\<close>

subsection \<open>Reading a complete checkpoint\<close>

lemma Get_empty_hash: "store_ok sha root f \<Longrightarrow> Get root f [] = Inl (Errno EISDIR)"
  using Stat_dir [OF store_okD(2,3)]
  by (fastforce simp: Get_def store_path_def fp_join_def ReadFile_def open_cells_def not_found_def)

lemma ReadFileAt_complete:
  assumes "repo_ok sha root B w" and "Checkpoint root (hfs w) i = Inr c"
    and "complete (blobs (root @ [''blobs'']) (hfs w)) c t chunks"
  shows "ReadFileAt root (hfs w) i p =
    (case Find t p of
       None \<Rightarrow> Inl (Errorf ''%s is not in checkpoint %s'' [p, i] None)
     | Some ent \<Rightarrow>
         if e_link ent \<noteq> [] then Inr (''-> '' @ e_link ent @ [CHR 0x0A])
         else if e_dir ent then Inl (Errorf ''%s is a directory'' [p] None)
         else if e_hash ent = [] then Inl (Errno EISDIR)
         else Inr (the (blobs (root @ [''blobs'']) (hfs w) (e_hash ent))))"
proof -
  note s = repo_okD(2,3) [OF assms(1)]
  from assms(3) obtain tb where tb: "blobs (root @ [''blobs'']) (hfs w) (c_tree_hash c) = Some tb" "Unmarshal tb = Some t"
    by (auto simp: complete_def)
  have t: "TreeAt root (hfs w) i = Inr t"
    using safe_Get [OF s(1) tb(1)] tb(2) assms(2) by (simp add: TreeAt_def loadTree_def)
  have h: "Get (root @ [''blobs'']) (hfs w) (e_hash ent) = Inr (the (blobs (root @ [''blobs'']) (hfs w) (e_hash ent)))"
    if "Find t p = Some ent" "e_hash ent \<noteq> []" for ent
  proof -
    from that(1) have "ent \<in> set t" by (auto simp: Find_def find_Some_iff)
    with that(2) have "e_hash ent \<in> set (file_shas t)" by (auto simp: file_shas_def)
    with assms(3) obtain b where "blobs (root @ [''blobs'']) (hfs w) (e_hash ent) = Some b" by (auto simp: complete_def)
    with safe_Get [OF s(1)] show ?thesis by simp
  qed
  show ?thesis
    by (cases "Find t p") (auto simp: ReadFileAt_def t Get_empty_hash [OF s(2)] h)
qed

lemma ReadFileAt_same:
  assumes "repo_ok sha root B w" and "Checkpoint root (hfs w) i = Inr c" and "complete (blobs (root @ [''blobs'']) (hfs w)) c t chunks"
    and "repo_ok sha root' B' v" and "Checkpoint root' (hfs v) i = Inr c"
    and "\<And>h. h \<in> set (shas_of c t chunks) \<Longrightarrow> blobs (root' @ [''blobs'']) (hfs v) h = blobs (root @ [''blobs'']) (hfs w) h"
  shows "ReadFileAt root' (hfs v) i p = ReadFileAt root (hfs w) i p"
proof -
  have c: "complete (blobs (root' @ [''blobs'']) (hfs v)) c t chunks" by (rule complete_mono [OF assms(3)]) (rule assms(6))
  have "blobs (root' @ [''blobs'']) (hfs v) (e_hash ent) = blobs (root @ [''blobs'']) (hfs w) (e_hash ent)"
    if "Find t p = Some ent" "e_hash ent \<noteq> []" for ent
  proof (rule assms(6))
    from that(1) have "ent \<in> set t" by (auto simp: Find_def find_Some_iff)
    with that(2) show "e_hash ent \<in> set (shas_of c t chunks)" by (auto simp: shas_of_def file_shas_def)
  qed
  then show ?thesis
    unfolding ReadFileAt_complete [OF assms(1-3)] ReadFileAt_complete [OF assms(4,5) c]
    by (cases "Find t p") auto
qed

subsection \<open>Push\<close>

text \<open>
  Property C21. A push over a directory store is one update of the map from keys to bytes that the
  directory holds: for every checkpoint of the history, missing blobs are added (those there are
  left alone) and the record is written, then the sandbox's record; the repository is not touched.
\<close>

theorem Push_refines_update:
  assumes "repo_ok sha root B w" and "dir_ok d root (hfs w)" and "Sandbox root (hfs w) sid = Inr s" and "id_ok (s_id s)"
    and "History root (hfs w) (s_id s) = Some (Inr (map fst cs))"
    and "history_complete (blobs (root @ [''blobs'']) (hfs w)) cs"
  shows "\<exists>w' st. Push root sid (DirStore d) w = Some (Inr st, w') \<and> dir_ok d root (hfs w') \<and> local_same root w w' \<and>
    dir_objs d (hfs w') =
      (fold (pushed (blobs (root @ [''blobs'']) (hfs w))) cs (dir_objs d (hfs w)))(sandboxKey (s_id s) \<mapsto> marshal_sandbox s) \<and>
    ps_Checkpoints st = int (length cs)"
  using dir_Push_ok [OF assms] by blast

lemma one_lineage:
  assumes "Checkpoint [''v''] f ''a'' = Inr root_ckpt" and "Sandbox [''v''] f ''t'' = Inr (demo_sandbox ''t'' ''a'')"
  shows "History [''v''] f (s_id (demo_sandbox ''t'' ''a'')) = Some (Inr (map fst [(root_ckpt, [file_entry], \<lambda>_. [])]))"
proof -
  have "lineage [''v''] f ''a'' [root_ckpt]"
    using assms(1) root_ckpt_ok by (intro lineage.step [where c = root_ckpt]) (auto intro: lineage.stop)
  from lineage_history [OF this, of "[]"] assms(2) show ?thesis by (simp add: History_def demo_sandbox_def)
qed

lemma one_complete:
  "complete get root_ckpt [file_entry] (\<lambda>_. []) \<Longrightarrow> history_complete get [(root_ckpt, [file_entry], \<lambda>_. [])]"
  using root_ckpt_ok(2) by (simp add: history_complete_def)

theorem Push_refines_update_witness:
  "\<exists>w w' :: world. \<exists>st. Push [''v''] ''t'' (DirStore [''r'']) w = Some (Inr st, w') \<and> ps_Checkpoints st = 1 \<and>
    dir_objs [''r''] (hfs w) = Map.empty \<and> dir_objs [''r''] (hfs w') (checkpointKey ''a'') = Some (marshal_ckpt root_ckpt)"
proof -
  obtain w :: world where w: "repo_ok repo_sha [''v''] (set repo_blobs) w" "dir_ok [''r''] [''v''] (hfs w)"
    "dir_objs [''r''] (hfs w) = Map.empty" "Checkpoint [''v''] (hfs w) ''a'' = Inr root_ckpt"
    "getJSON [''v''] ''sandboxes'' ''t'' dec_sandbox (hfs w) = Inr (demo_sandbox ''t'' ''a'')"
    "complete (blobs [''v'', ''blobs''] (hfs w)) root_ckpt [file_entry] (\<lambda>_. [])" by (rule one_checkpoint)
  note t = Sandbox_found [OF w(5)]
  have i: "id_ok (s_id (demo_sandbox ''t'' ''a''))" by (simp add: demo_sandbox_def id_ok_def)
  from Push_refines_update [OF w(1,2) t i one_lineage [OF w(4) t]] one_complete w(6) obtain w' st where
    "Push [''v''] ''t'' (DirStore [''r'']) w = Some (Inr st, w')" "ps_Checkpoints st = 1"
    "dir_objs [''r''] (hfs w') = (fold (pushed (blobs ([''v''] @ [''blobs'']) (hfs w))) [(root_ckpt, [file_entry], \<lambda>_. [])]
      (dir_objs [''r''] (hfs w)))(sandboxKey (s_id (demo_sandbox ''t'' ''a'')) \<mapsto> marshal_sandbox (demo_sandbox ''t'' ''a''))"
    by auto
  moreover from this(3) have "dir_objs [''r''] (hfs w') (checkpointKey ''a'') = Some (marshal_ckpt root_ckpt)"
    by (simp add: pushed_def root_ckpt_ok)
  ultimately show ?thesis using w(3) by blast
qed

text \<open>A second push: everything is there.\<close>

lemma with_blobs_present: "\<forall>h \<in> set shas. m (blobKey h) \<noteq> None \<Longrightarrow> with_blobs get shas m = m"
  by (induction shas) (auto simp: with_blobs_simps)

lemma pushed_present:
  "all_present m cs \<Longrightarrow> \<forall>c \<in> fst ` set cs. m (checkpointKey (c_id c)) = Some (marshal_ckpt c) \<Longrightarrow> fold (pushed get) cs m = m"
proof (induction cs)
  case (Cons x cs)
  obtain c t chunks where x: "x = (c, t, chunks)" by (cases x)
  with Cons.prems have "pushed get x m = m"
    by (auto simp: pushed_def with_blobs_present all_present_Cons fun_upd_idem)
  with Cons x show ?case by (simp add: all_present_Cons)
qed simp

lemma lineage_cong:
  assumes "lineage root f i cs" and "\<And>k. id_ok k \<Longrightarrow> Checkpoint root f' k = Checkpoint root f k"
    and "id_ok i" and "\<forall>c \<in> set cs. id_ok (c_parent c)"
  shows "lineage root f' i cs"
  using assms by (induction rule: lineage.induct) (auto intro: lineage.intros)

text \<open>
  Property C22. Pushing is incremental: pushing the same sandbox again uploads no blob and leaves the
  objects as they are.
\<close>

theorem Push_again_moves_nothing:
  assumes "repo_ok sha root B w" and "dir_ok d root (hfs w)"
    and "getJSON root ''sandboxes'' (s_id s) dec_sandbox (hfs w) = Inr s" and "id_ok (s_id s)" and "id_ok (s_head s)"
    and "lineage root (hfs w) (s_head s) (map fst cs)" and "history_complete (blobs (root @ [''blobs'']) (hfs w)) cs"
    and "\<forall>c \<in> fst ` set cs. id_ok (c_parent c) \<and> Checkpoint root (hfs w) (c_id c) = Inr c"
  shows "\<exists>w1 st1 w2 st2. Push root (s_id s) (DirStore d) w = Some (Inr st1, w1) \<and>
    Push root (s_id s) (DirStore d) w1 = Some (Inr st2, w2) \<and> ps_Blobs st2 = 0 \<and> dir_objs d (hfs w2) = dir_objs d (hfs w1)"
proof -
  let ?get = "blobs (root @ [''blobs'']) (hfs w)"
  have h: "Sandbox root (hfs v) (s_id s) = Inr s \<and> History root (hfs v) (s_id s) = Some (Inr (map fst cs))"
    if "getJSON root ''sandboxes'' (s_id s) dec_sandbox (hfs v) = Inr s" "lineage root (hfs v) (s_head s) (map fst cs)"
    for v :: "'a world_scheme" using lineage_history [OF that(2), of "[]"] that(1) by (simp add: Sandbox_def History_def)
  note h0 = h [OF assms(3,6)]
  from dir_Push_ok [OF assms(1,2) conjunct1 [OF h0] assms(4) conjunct2 [OF h0] assms(7)] obtain w1 st1 where
    w1: "Push root (s_id s) (DirStore d) w = Some (Inr st1, w1)" "dir_ok d root (hfs w1)" "local_same root w w1"
    "dir_objs d (hfs w1) = (fold (pushed ?get) cs (dir_objs d (hfs w)))(sandboxKey (s_id s) \<mapsto> marshal_sandbox s)" by metis
  note l = repo_ok_local [OF assms(1) w1(3)]
  have "getJSON root ''sandboxes'' (s_id s) dec_sandbox (hfs w1) = Inr s"
    using getJSON_agree [OF repo_okD(7) [OF assms(1)] repo_okD(7) [OF l(1)] assms(4), of dec_sandbox] assms(3)
      local_sameD [OF w1(3)] by simp
  moreover have "lineage root (hfs w1) (s_head s) (map fst cs)"
    by (rule lineage_cong [OF assms(6) l(3) assms(5)]) (use assms(8) in auto)
  ultimately have h1: "Sandbox root (hfs w1) (s_id s) = Inr s" "History root (hfs w1) (s_id s) = Some (Inr (map fst cs))"
    using h by blast+
  have ap: "all_present (dir_objs d (hfs w1)) cs"
    using assms(7) complete_all unfolding all_present_def history_complete_def w1(4)
    by (fastforce simp: pushed_blob split: prod.splits)
  have ck: "\<forall>c \<in> fst ` set cs. dir_objs d (hfs w1) (checkpointKey (c_id c)) = Some (marshal_ckpt c)"
  proof
    fix c assume c: "c \<in> fst ` set cs"
    have "c' = c" if "c' \<in> fst ` set cs" "c_id c' = c_id c" for c'
      using bspec [OF assms(8) c] bspec [OF assms(8) that(1)] that(2) by (metis sum.inject(2))
    then have "fold (pushed ?get) cs (dir_objs d (hfs w)) (checkpointKey (c_id c)) = Some (marshal_ckpt c)"
      using c by (intro pushed_ckpt) auto
    then show "dir_objs d (hfs w1) (checkpointKey (c_id c)) = Some (marshal_ckpt c)" by (simp add: w1(4))
  qed
  have hc: "history_complete (blobs (root @ [''blobs'']) (hfs w1)) cs" using assms(7) l(2) by simp
  from dir_Push_ok [OF l(1) w1(2) h1(1) assms(4) h1(2) hc] ap obtain w2 st2 where
    w2: "Push root (s_id s) (DirStore d) w1 = Some (Inr st2, w2)" "ps_Blobs st2 = 0"
    "dir_objs d (hfs w2) = (fold (pushed (blobs (root @ [''blobs'']) (hfs w1))) cs (dir_objs d (hfs w1)))(sandboxKey (s_id s) \<mapsto> marshal_sandbox s)"
    by metis
  have "dir_objs d (hfs w2) = dir_objs d (hfs w1)"
    unfolding w2(3) pushed_present [OF ap ck] by (simp add: w1(4))
  with w1(1) w2(1,2) show ?thesis by blast
qed

theorem Push_again_moves_nothing_witness:
  "\<exists>w w1 w2 :: world. \<exists>st1 st2. Push [''v''] ''t'' (DirStore [''r'']) w = Some (Inr st1, w1) \<and>
    Push [''v''] ''t'' (DirStore [''r'']) w1 = Some (Inr st2, w2) \<and> ps_Blobs st2 = 0"
proof -
  obtain w :: world where w: "repo_ok repo_sha [''v''] (set repo_blobs) w" "dir_ok [''r''] [''v''] (hfs w)"
    "dir_objs [''r''] (hfs w) = Map.empty" "Checkpoint [''v''] (hfs w) ''a'' = Inr root_ckpt"
    "getJSON [''v''] ''sandboxes'' ''t'' dec_sandbox (hfs w) = Inr (demo_sandbox ''t'' ''a'')"
    "complete (blobs [''v'', ''blobs''] (hfs w)) root_ckpt [file_entry] (\<lambda>_. [])" by (rule one_checkpoint)
  have l: "lineage [''v''] (hfs w) ''a'' [root_ckpt]"
    using w(4) root_ckpt_ok by (intro lineage.step [where c = root_ckpt]) (auto intro: lineage.stop)
  from Push_again_moves_nothing [OF w(1,2), of "demo_sandbox ''t'' ''a''" "[(root_ckpt, [file_entry], \<lambda>_. [])]"]
    w(4,5,6) l one_complete root_ckpt_ok
  show ?thesis by (auto simp: demo_sandbox_def id_ok_def)
qed

text \<open>What a push leaves behind is what a pull needs.\<close>

lemma pushed_values:
  assumes "safe_store sha (root @ [''blobs'']) B f" and "addressed sha B m" and "history_complete (blobs (root @ [''blobs'']) f) cs"
  shows "(c, t, chunks) \<in> set cs \<Longrightarrow> h \<in> set (shas_of c t chunks) \<Longrightarrow>
      remote_blobs (fold (pushed (blobs (root @ [''blobs'']) f)) cs m) h = blobs (root @ [''blobs'']) f h"
    and "addressed sha B (fold (pushed (blobs (root @ [''blobs'']) f)) cs m)"
proof -
  show "remote_blobs (fold (pushed (blobs (root @ [''blobs'']) f)) cs m) h = blobs (root @ [''blobs'']) f h"
    if x: "(c, t, chunks) \<in> set cs" and h: "h \<in> set (shas_of c t chunks)"
  proof (cases "m (blobKey h)")
    case None
    with x h show ?thesis by (auto simp: remote_blobs_def pushed_blob)
  next
    case (Some b)
    from x assms(3) have "complete (blobs (root @ [''blobs'']) f) c t chunks" by (auto simp: history_complete_def)
    from complete_all [OF this h] obtain b' where b': "blobs (root @ [''blobs'']) f h = Some b'" by auto
    with safe_addressed [OF assms(1)] have "h = hashOf sha b'" "b' \<in> B" by blast+
    moreover from Some assms(2) have "h = hashOf sha b" "b \<in> B" by (auto simp: addressed_def remote_blobs_def)
    ultimately have "b = b'" using assms(1) by (auto simp: safe_store_def dest: inj_onD)
    with Some b' show ?thesis by (simp add: remote_blobs_def pushed_blob)
  qed
  show "addressed sha B (fold (pushed (blobs (root @ [''blobs'']) f)) cs m)"
    using assms(2) safe_addressed [OF assms(1)]
    by (auto simp: addressed_def remote_blobs_def pushed_blob split: if_splits)
qed

lemma addressed_other [simp]: "addressed sha B (m(sandboxKey i \<mapsto> b)) \<longleftrightarrow> addressed sha B m"
  by (simp add: addressed_def remote_blobs_def)

lemma remote_blobs_other [simp]: "remote_blobs (m(sandboxKey i \<mapsto> b)) = remote_blobs m"
  by (simp add: remote_blobs_def fun_eq_iff)

subsection \<open>Pull\<close>

text \<open>The objects after a push hold every checkpoint of the history, with all it needs.\<close>

lemma pushed_objects:
  fixes w :: "'z world_scheme" and root :: path
  defines "get \<equiv> blobs (root @ [''blobs'']) (hfs w)"
  assumes "repo_ok sha root B w" and "addressed sha B m" and "history_complete get cs"
    and "\<forall>c \<in> fst ` set cs. ckpt_ok c \<and> Checkpoint root (hfs w) (c_id c) = Inr c" and "c \<in> fst ` set cs"
    and m': "m' = (fold (pushed get) cs m)(sandboxKey i \<mapsto> b)"
  obtains t chunks where "m' (checkpointKey (c_id c)) = Some (emit None (ckpt_json c))" and "addressed sha B m'"
    and "complete (remote_blobs m') c t chunks" and "complete get c t chunks"
    and "\<And>h. h \<in> set (shas_of c t chunks) \<Longrightarrow> remote_blobs m' h = get h"
proof -
  from assms(6) obtain t chunks where x: "(c, t, chunks) \<in> set cs" by force
  with assms(4) have c: "complete get c t chunks" by (auto simp: history_complete_def)
  note val = pushed_values [OF repo_okD(2) [OF assms(2)] assms(3) assms(4) [unfolded get_def], folded get_def]
  note cc = bspec [OF assms(5,6), THEN conjunct1] bspec [OF assms(5,6), THEN conjunct2]
  have year: "marshal_ckpt c = emit None (ckpt_json c)"
    using cc(1) by (simp add: marshal_ckpt_def ckpt_ok_def time_ok_def time_read_def time_marshals_def)
  have "c' = c" if "c' \<in> fst ` set cs" "c_id c' = c_id c" for c'
  proof -
    have "Checkpoint root (hfs w) (c_id c') = Inr c'" using bspec [OF assms(5) that(1)] by (rule conjunct2)
    then have "Inr c' = (Inr c :: err + ckpt)" unfolding that(2) cc(2) by (rule sym)
    then show ?thesis by (rule sum.inject(2) [THEN iffD1])
  qed
  then have "m' (checkpointKey (c_id c)) = Some (emit None (ckpt_json c))"
    using pushed_ckpt [of c cs m get] assms(6) year by (auto simp: m')
  moreover have e: "remote_blobs m' h = get h" if "h \<in> set (shas_of c t chunks)" for h using val(1) [OF x that] by (simp add: m')
  moreover have "complete (remote_blobs m') c t chunks" by (rule complete_mono [OF c]) (rule e)
  moreover have "addressed sha B m'" using val(2) by (simp add: m')
  ultimately show thesis using c by (intro that)
qed

text \<open>The other side of an object store: what was pushed is pulled, and reads the same.\<close>

context object_map
begin

lemma pull_pushed:
  fixes u :: "'y world_scheme"
  assumes "repo_ok sha root' B u" and "addressed sha B m" and "history_complete (blobs (root' @ [''blobs'']) (hfs u)) cs"
    and "\<forall>c \<in> fst ` set cs. ckpt_ok c \<and> Checkpoint root' (hfs u) (c_id c) = Inr c" and "c \<in> fst ` set cs"
    and "repo_ok sha root B v" and "inv v"
    and "objs v = (fold (pushed (blobs (root' @ [''blobs'']) (hfs u))) cs m)(sandboxKey i \<mapsto> b)" and "checkpointKey (c_id c) \<in> keys"
  shows "\<exists>v'. Pull sha root store (c_id c) v = (Inr c, v') \<and> repo_ok sha root B v' \<and>
    Checkpoint root (hfs v') (c_id c) = Inr c \<and>
    (\<forall>p. ReadFileAt root (hfs v') (c_id c) p = ReadFileAt root' (hfs u) (c_id c) p)"
proof -
  obtain t chunks where o: "objs v (checkpointKey (c_id c)) = Some (emit None (ckpt_json c))" "addressed sha B (objs v)"
    "complete (remote_blobs (objs v)) c t chunks" and k: "complete (blobs (root' @ [''blobs'']) (hfs u)) c t chunks"
    and e: "\<And>h. h \<in> set (shas_of c t chunks) \<Longrightarrow> remote_blobs (objs v) h = blobs (root' @ [''blobs'']) (hfs u) h"
    by (rule pushed_objects [OF assms(1-5,8)]) (rule that)
  note cc = bspec [OF assms(4,5), THEN conjunct1] bspec [OF assms(4,5), THEN conjunct2]
  from assms(3,5) have "id_ok (c_id c)" by (auto simp: history_complete_def)
  from Pull_ok [OF assms(6,7) o(2,1) assms(9) cc(1) this o(3)] obtain v' where
    v': "Pull sha root store (c_id c) v = (Inr c, v')" "repo_ok sha root B v'" "Checkpoint root (hfs v') (c_id c) = Inr c"
    "\<forall>h \<in> set (shas_of c t chunks). blobs (root @ [''blobs'']) (hfs v') h = remote_blobs (objs v) h" by blast
  have "ReadFileAt root (hfs v') (c_id c) p = ReadFileAt root' (hfs u) (c_id c) p" for p
    using v'(4) e by (intro ReadFileAt_same [OF assms(1) cc(2) k v'(2,3)]) auto
  with v'(1-3) show ?thesis by blast
qed

end

lemma dir_pull_pushed:
  assumes "repo_ok sha root B w" and "dir_ok d root (hfs w)" and "addressed sha B (dir_objs d (hfs w))"
    and "Sandbox root (hfs w) sid = Inr s" and "id_ok (s_id s)"
    and "History root (hfs w) (s_id s) = Some (Inr (map fst cs))"
    and "history_complete (blobs (root @ [''blobs'']) (hfs w)) cs"
    and "\<forall>c \<in> fst ` set cs. ckpt_ok c \<and> Checkpoint root (hfs w) (c_id c) = Inr c"
    and "Push root sid (DirStore d) w = Some (Inr st, w1)"
    and "repo_ok sha root' B v" and "dir_ok d' root' (hfs v)" and "dir_objs d' (hfs v) = dir_objs d (hfs w1)"
    and "c \<in> fst ` set cs"
  shows "\<exists>v'. Pull sha root' (DirStore d') (c_id c) v = (Inr c, v') \<and> repo_ok sha root' B v' \<and>
    Checkpoint root' (hfs v') (c_id c) = Inr c \<and>
    (\<forall>p. ReadFileAt root' (hfs v') (c_id c) p = ReadFileAt root (hfs w) (c_id c) p)"
proof -
  have "dir_objs d' (hfs v) =
      (fold (pushed (blobs (root @ [''blobs'']) (hfs w))) cs (dir_objs d (hfs w)))(sandboxKey (s_id s) \<mapsto> marshal_sandbox s)"
    using dir_Push_ok [OF assms(1,2,4-7)] assms(9,12) by auto
  moreover from assms(7,13) have "checkpointKey (c_id c) \<in> obj_keys" by (fastforce simp: history_complete_def)
  ultimately show ?thesis by (rule dir_store.pull_pushed [OF assms(1,3,7,8,13,10,11)])
qed

text \<open>
  Property C23. A checkpoint pushed from one repository and pulled into another, on any machine that
  sees the same objects, is the same there: its record is saved, and every path reads the same
  as in the repository it came from.
\<close>

theorem Pull_after_Push:
  assumes "repo_ok sha root B w" and "dir_ok d root (hfs w)" and "addressed sha B (dir_objs d (hfs w))"
    and "Sandbox root (hfs w) sid = Inr s" and "id_ok (s_id s)"
    and "History root (hfs w) (s_id s) = Some (Inr (map fst cs))"
    and "history_complete (blobs (root @ [''blobs'']) (hfs w)) cs"
    and "\<forall>c \<in> fst ` set cs. ckpt_ok c \<and> Checkpoint root (hfs w) (c_id c) = Inr c"
    and "Push root sid (DirStore d) w = Some (Inr st, w1)"
    and "repo_ok sha root' B v" and "dir_ok d' root' (hfs v)" and "dir_objs d' (hfs v) = dir_objs d (hfs w1)"
    and "c \<in> fst ` set cs"
  shows "\<exists>v'. Pull sha root' (DirStore d') (c_id c) v = (Inr c, v') \<and> repo_ok sha root' B v' \<and>
    Checkpoint root' (hfs v') (c_id c) = Inr c \<and>
    (\<forall>p. ReadFileAt root' (hfs v') (c_id c) p = ReadFileAt root (hfs w) (c_id c) p)"
  by (rule dir_pull_pushed [OF assms])

theorem Pull_after_Push_witness:
  "\<exists>w w1 v' :: world. \<exists>st. Push [''v''] ''t'' (DirStore [''r'']) w = Some (Inr st, w1) \<and>
    Pull repo_sha [''v''] (DirStore [''r'']) ''a'' w1 = (Inr root_ckpt, v') \<and>
    (\<forall>p. ReadFileAt [''v''] (hfs v') ''a'' p = ReadFileAt [''v''] (hfs w) ''a'' p)"
proof -
  obtain w :: world where w: "repo_ok repo_sha [''v''] (set repo_blobs) w" "dir_ok [''r''] [''v''] (hfs w)"
    "dir_objs [''r''] (hfs w) = Map.empty" "Checkpoint [''v''] (hfs w) ''a'' = Inr root_ckpt"
    "getJSON [''v''] ''sandboxes'' ''t'' dec_sandbox (hfs w) = Inr (demo_sandbox ''t'' ''a'')"
    "complete (blobs [''v'', ''blobs''] (hfs w)) root_ckpt [file_entry] (\<lambda>_. [])" by (rule one_checkpoint)
  note t = Sandbox_found [OF w(5)]
  let ?cs = "[(root_ckpt, [file_entry], \<lambda>_. [])]"
  have i: "id_ok (s_id (demo_sandbox ''t'' ''a''))" by (simp add: demo_sandbox_def id_ok_def)
  have a: "addressed repo_sha (set repo_blobs) (dir_objs [''r''] (hfs w))" by (simp add: w(3) addressed_def remote_blobs_def)
  have hc: "history_complete (blobs ([''v''] @ [''blobs'']) (hfs w)) ?cs" using one_complete w(6) by simp
  from dir_Push_ok [OF w(1,2) t i one_lineage [OF w(4) t] hc] obtain w1 st where
    w1: "Push [''v''] ''t'' (DirStore [''r'']) w = Some (Inr st, w1)" "dir_ok [''r''] [''v''] (hfs w1)" "local_same [''v''] w w1"
    by metis
  have n: "\<forall>c \<in> fst ` set ?cs. ckpt_ok c \<and> Checkpoint [''v''] (hfs w) (c_id c) = Inr c" using w(4) root_ckpt_ok by simp
  from Pull_after_Push [OF w(1,2) a t i one_lineage [OF w(4) t] hc n w1(1) repo_ok_local(1) [OF w(1) w1(3)] w1(2) refl, of root_ckpt]
  show ?thesis using w1(1) root_ckpt_ok by auto
qed

subsection \<open>Pulling from a store that is not trusted\<close>

text \<open>What holds of the repository while a pull runs, whatever the object store answers.\<close>

definition holding :: "hasher \<Rightarrow> path \<Rightarrow> 'z world_scheme \<Rightarrow> 'z world_scheme \<Rightarrow> bool" where
  "holding sha root w w' \<longleftrightarrow> store_ok sha (root @ [''blobs'']) (hfs w') \<and> records_ok root ''checkpoints'' (hfs w') \<and>
     blobs (root @ [''blobs'']) (hfs w) \<subseteq>\<^sub>m blobs (root @ [''blobs'']) (hfs w')"

definition only_reads :: "'z world_scheme object_store \<Rightarrow> bool" where
  "only_reads store \<longleftrightarrow> (\<forall>k w. hfs (snd (o_Get store k w)) = hfs w)"

lemma holdingD: "holding sha root w w' \<Longrightarrow> blobs (root @ [''blobs'']) (hfs w) h = Some b \<Longrightarrow> blobs (root @ [''blobs'']) (hfs w') h = Some b"
  by (auto simp: holding_def map_le_def dom_def)

lemma holding_trans: "holding sha root u v \<Longrightarrow> holding sha root v w \<Longrightarrow> holding sha root u w"
  by (auto simp: holding_def intro: map_le_trans)

lemma pullBlob_checked:
  assumes "only_reads store" and "holding sha root u w" and "pullBlob sha root store h w = (Inr b, w')"
  shows "holding sha root w w'" and "hash_name h \<Longrightarrow> blobs (root @ [''blobs'']) (hfs w') h = Some b"
proof -
  from assms(2) have ok: "store_ok sha (root @ [''blobs'']) (hfs w)" and rec: "records_ok root ''checkpoints'' (hfs w)"
    by (auto simp: holding_def)
  have "holding sha root w w' \<and> (hash_name h \<longrightarrow> blobs (root @ [''blobs'']) (hfs w') h = Some b)"
  proof (cases "Has (root @ [''blobs'']) (hfs w) h")
    case True
    with assms(3) have "w' = w" "Get (root @ [''blobs'']) (hfs w) h = Inr b" by (auto simp: pullBlob_def io)
    with ok rec Get_blobs [OF ok, of h] show ?thesis by (auto simp: holding_def map_le_refl split: option.splits)
  next
    case False
    obtain r v where "o_Get store (blobKey h) w = (r, v)" by fastforce
    with assms(1) have v: "o_Get store (blobKey h) w = (r, v)" "hfs v = hfs w" unfolding only_reads_def by (metis snd_conv)+
    with assms(3) False have p: "Put sha (root @ [''blobs'']) b v = (Inr h, w')"
      by (auto simp: pullBlob_def io bindE_eq_Inr split: sum.splits if_splits)
    note eff = Put_effect [of sha "root @ [''blobs'']" v b, unfolded v(2), OF ok]
    with p have h: "h = hashOf sha b" by auto
    with hash_name_hashOf [OF store_okD(1) [OF ok]] False Has_blobs [OF ok] have n: "blobs (root @ [''blobs'']) (hfs w) (hashOf sha b) = None"
      by auto
    with p eff have w': "hfs w' = put_fs (umask v) (root @ [''blobs'']) (hashOf sha b) b (hfs w)" by auto
    have s: "store_ok sha (root @ [''blobs'']) (hfs w')" "blobs (root @ [''blobs'']) (hfs w') = (blobs (root @ [''blobs'']) (hfs w))(h \<mapsto> b)"
      using store_ok_put_fs [OF ok refl n] blobs_put_fs [OF hash_name_hashOf [OF store_okD(1) [OF ok]]] w' h by simp_all
    have "records_ok root ''checkpoints'' (hfs w')"
      using rec store_okD(2) [OF s(1)] by (rule records_agree) (auto simp: w' strict_prefix_def put_fs_outside)
    with s n h show ?thesis by (auto simp: holding_def map_le_def)
  qed
  then show "holding sha root w w'" "hash_name h \<Longrightarrow> blobs (root @ [''blobs'']) (hfs w') h = Some b" by auto
qed

lemma pull_ignoring_Inr: "pull_ignoring sha root store h w = (Inr (), w') \<longleftrightarrow> (\<exists>b. pullBlob sha root store h w = (Inr b, w'))"
  by (auto simp: pull_ignoring_def bindE_eq_Inr)

lemma pull_all_checked:
  assumes "only_reads store" and "holding sha root u w" and "for_each hs (pull_ignoring sha root store) w = (Inr (), w')"
  shows "holding sha root w w'" and "h \<in> set hs \<Longrightarrow> hash_name h \<Longrightarrow> blobs (root @ [''blobs'']) (hfs w') h \<noteq> None"
proof -
  have "holding sha root w w' \<and> (\<forall>h \<in> set hs. hash_name h \<longrightarrow> blobs (root @ [''blobs'']) (hfs w') h \<noteq> None)"
    using assms(2,3)
  proof (induction hs arbitrary: u w)
    case Nil
    then show ?case by (auto simp: holding_def map_le_refl)
  next
    case (Cons h hs)
    from Cons.prems(2) obtain b v where v: "pullBlob sha root store h w = (Inr b, v)"
      "for_each hs (pull_ignoring sha root store) v = (Inr (), w')"
      by (auto simp: pull_ignoring_Inr bindE_eq_Inr)
    note p = pullBlob_checked [OF assms(1) Cons.prems(1) v(1)]
    from Cons.IH [OF p(1) v(2)] have i: "holding sha root v w'"
      "\<forall>h \<in> set hs. hash_name h \<longrightarrow> blobs (root @ [''blobs'']) (hfs w') h \<noteq> None" by auto
    with p(2) holdingD [OF i(1), of h b] holding_trans [OF p(1) i(1)] show ?case by auto
  qed
  then show "holding sha root w w'" "h \<in> set hs \<Longrightarrow> hash_name h \<Longrightarrow> blobs (root @ [''blobs'']) (hfs w') h \<noteq> None" by auto
qed

lemma ReadManifest_holding:
  assumes "holding sha root u w" and "holding sha root w w'" and "hash_name h"
    and "ReadManifest (root @ [''blobs'']) (hfs w) h = Inr m"
  shows "ReadManifest (root @ [''blobs'']) (hfs w') h = Inr m"
proof -
  from assms(1,2) have ok: "store_ok sha (root @ [''blobs'']) (hfs w)" "store_ok sha (root @ [''blobs'']) (hfs w')"
    by (auto simp: holding_def)
  from assms(4) Get_blobs [OF ok(1) assms(3)] obtain b where b: "blobs (root @ [''blobs'']) (hfs w) h = Some b"
    by (auto simp: ReadManifest_def split: option.splits)
  with holdingD [OF assms(2)] Get_blobs [OF ok(1) assms(3)] Get_blobs [OF ok(2) assms(3)] assms(4)
  show ?thesis by (simp add: ReadManifest_def)
qed

lemma pull_image_checked:
  assumes "only_reads store" and "holding sha root u w" and "pull_image sha root store h w = (Inr (), w')"
    and "h \<noteq> [] \<Longrightarrow> hash_name h"
  shows "holding sha root w w'" and "h \<noteq> [] \<Longrightarrow> \<exists>m. ReadManifest (root @ [''blobs'']) (hfs w') h = Inr m \<and>
    (\<forall>k \<in> set (h # m_chunks m). hash_name k \<longrightarrow> blobs (root @ [''blobs'']) (hfs w') k \<noteq> None)"
proof -
  have "holding sha root w w' \<and> (h \<noteq> [] \<longrightarrow> (\<exists>m. ReadManifest (root @ [''blobs'']) (hfs w') h = Inr m \<and>
    (\<forall>k \<in> set (h # m_chunks m). hash_name k \<longrightarrow> blobs (root @ [''blobs'']) (hfs w') k \<noteq> None)))"
  proof (cases "h = []")
    case True
    with assms(2,3) show ?thesis by (auto simp: pull_image_def holding_def map_le_refl)
  next
    case False
    with assms(3) obtain b v m where v: "pullBlob sha root store h w = (Inr b, v)"
      "ReadManifest (root @ [''blobs'']) (hfs v) h = Inr m" "for_each (m_chunks m) (pull_ignoring sha root store) v = (Inr (), w')"
      by (auto simp: pull_image_def pull_ignoring_Inr bindE_eq_Inr)
    note p = pullBlob_checked [OF assms(1,2) v(1)]
    note q = pull_all_checked [OF assms(1) p(1) v(3)]
    note n = assms(4) [OF False]
    have "blobs (root @ [''blobs'']) (hfs w') h \<noteq> None" using holdingD [OF q(1) p(2) [OF n]] by simp
    with q(2) ReadManifest_holding [OF p(1) q(1) n v(2)] holding_trans [OF p(1) q(1)] show ?thesis by auto
  qed
  then show "holding sha root w w'" "h \<noteq> [] \<Longrightarrow> \<exists>m. ReadManifest (root @ [''blobs'']) (hfs w') h = Inr m \<and>
    (\<forall>k \<in> set (h # m_chunks m). hash_name k \<longrightarrow> blobs (root @ [''blobs'']) (hfs w') k \<noteq> None)" by auto
qed

lemma pull_images_checked:
  assumes "only_reads store" and "holding sha root u w" and "for_each hs (pull_image sha root store) w = (Inr (), w')"
    and "\<forall>h \<in> set hs. h \<noteq> [] \<longrightarrow> hash_name h"
  shows "holding sha root w w' \<and> (\<exists>shas. image_shas root (hfs w') hs = Inr shas \<and>
    (\<forall>k \<in> set shas. hash_name k \<longrightarrow> blobs (root @ [''blobs'']) (hfs w') k \<noteq> None))"
  using assms(2-4)
proof (induction hs arbitrary: u w)
  case Nil
  then show ?case by (auto simp: holding_def map_le_refl)
next
  case (Cons h hs)
  from Cons.prems(2) obtain v where v: "pull_image sha root store h w = (Inr (), v)"
    "for_each hs (pull_image sha root store) v = (Inr (), w')" by (auto simp: bindE_eq_Inr)
  from Cons.prems(3) have n: "h \<noteq> [] \<Longrightarrow> hash_name h" by simp
  note p = pull_image_checked [OF assms(1) Cons.prems(1) v(1) n]
  from Cons.IH [OF p(1) v(2)] Cons.prems(3) obtain shas where i: "holding sha root v w'"
    "image_shas root (hfs w') hs = Inr shas" "\<forall>k \<in> set shas. hash_name k \<longrightarrow> blobs (root @ [''blobs'']) (hfs w') k \<noteq> None" by auto
  show ?case
  proof (cases "h = []")
    case True
    with i holding_trans [OF p(1) i(1)] show ?thesis by auto
  next
    case False
    from p(2) False obtain m where m: "ReadManifest (root @ [''blobs'']) (hfs v) h = Inr m"
      "\<forall>k \<in> set (h # m_chunks m). hash_name k \<longrightarrow> blobs (root @ [''blobs'']) (hfs v) k \<noteq> None" by blast
    have "blobs (root @ [''blobs'']) (hfs w') k \<noteq> None" if "k \<in> set (h # m_chunks m)" "hash_name k" for k
      using m(2) that holdingD [OF i(1), of k] by blast
    moreover have "image_shas root (hfs w') (h # hs) = Inr (h # m_chunks m @ shas)"
      using False i(2) ReadManifest_holding [OF p(1) i(1) n [OF False] m(1)] by simp
    ultimately show ?thesis using i(3) holding_trans [OF p(1) i(1)] by auto
  qed
qed

lemma image_shas_agree:
  assumes "store_ok sha (root @ [''blobs'']) f" and "store_ok sha (root @ [''blobs'']) g"
    and "blobs (root @ [''blobs'']) g = blobs (root @ [''blobs'']) f" and "\<forall>h \<in> set hs. h \<noteq> [] \<longrightarrow> hash_name h"
  shows "image_shas root g hs = image_shas root f hs"
  using assms(4)
proof (induction hs)
  case (Cons h hs)
  have "ReadManifest (root @ [''blobs'']) g h = ReadManifest (root @ [''blobs'']) f h" if "h \<noteq> []"
    using Cons.prems that Get_blobs [OF assms(1), of h] Get_blobs [OF assms(2), of h] assms(3) by (simp add: ReadManifest_def)
  with Cons show ?case by (simp split: sum.splits)
qed simp

text \<open>The stages of a pull that succeeds, and the saving of the record at its end.\<close>

lemma Pull_stages:
  assumes "only_reads store" and "Pull sha root store i w = (Inr c, w')"
  obtains w0 tb t w1 w2 w3 w4 where "hfs w0 = hfs w" and "pullBlob sha root store (c_tree_hash c) w0 = (Inr tb, w1)"
    and "Unmarshal tb = Some t" and "for_each (file_shas t) (pull_ignoring sha root store) w1 = (Inr (), w2)"
    and "for_each (filter (\<lambda>h. h \<noteq> []) [c_state_hash c]) (pull_ignoring sha root store) w2 = (Inr (), w3)"
    and "for_each [c_mem_hash c, c_disk_hash c, c_base_hash c] (pull_image sha root store) w3 = (Inr (), w4)"
    and "SaveCheckpoint root c w4 = (Inr (), w')"
proof -
  obtain r w0 where "o_Get store (checkpointKey i) w = (r, w0)" by fastforce
  with assms(1) have g: "o_Get store (checkpointKey i) w = (r, w0)" "hfs w0 = hfs w" unfolding only_reads_def by (metis snd_conv)+
  from assms(2) obtain cb where "r = Inr cb" by (cases r) (auto simp: Pull_def io g(1))
  with assms(2) g that show thesis
    unfolding Pull_def by (auto simp del: filter.simps for_each.simps simp: bindE_eq_Inr bindE_attempt split: option.splits)
qed

lemma save_keeps_store:
  assumes "store_ok sha (root @ [''blobs'']) (hfs w)" and "records_ok root ''checkpoints'' (hfs w)" and "id_ok (c_id c)"
    and "SaveCheckpoint root c w = (Inr (), w')"
  shows "store_ok sha (root @ [''blobs'']) (hfs w')" and "blobs (root @ [''blobs'']) (hfs w') = blobs (root @ [''blobs'']) (hfs w)"
proof -
  from assms(4) have "putJSON root ''checkpoints'' (c_id c) (ckpt_json c) w = (Inr (), w')"
    by (auto simp: SaveCheckpoint_def split: if_splits)
  moreover obtain g m where "putJSON root ''checkpoints'' (c_id c) (ckpt_json c) w = (Inr (), w\<lparr>hfs := g\<rparr>)"
    "records_ok root ''checkpoints'' g"
    "g = fmupd (root @ [''checkpoints'', c_id c @ ''.json'']) (File m (fdata (emit (Some 0) (ckpt_json c)))) (hfs w)"
    by (rule putJSON_effect [OF assms(2,3)])
  ultimately have f: "records_ok root ''checkpoints'' (hfs w')"
    "hfs w' = fmupd (root @ [''checkpoints'', c_id c @ ''.json'']) (File m (fdata (emit (Some 0) (ckpt_json c)))) (hfs w)" by auto
  have e: "fmlookup (hfs w') q = fmlookup (hfs w) q" if "prefix (root @ [''blobs'']) q" for q
    using that by (auto simp: f(2) prefix_def)
  have ok: "fs_ok (hfs w')" using f(1) by (simp add: records_ok_def)
  show "store_ok sha (root @ [''blobs'']) (hfs w')" "blobs (root @ [''blobs'']) (hfs w') = blobs (root @ [''blobs'']) (hfs w)"
    using store_agree [OF assms(1) ok e] by auto
qed

text \<open>
  A hash is not checked to be one: where a record or a tree names a path out of the store in place of
  a hash, and a file is there, \<open>pullBlob\<close> takes that file for the blob, whatever the object store has.
\<close>

theorem pullBlob_takes_any_path:
  assumes "fs_ok (hfs w)" and "fmlookup (hfs w) (root @ [''checkpoints'', ''a.json'']) = Some (File m cs)"
  shows "pullBlob sha root store ''../checkpoints/a.json'' w = (Inr (fread cs), w)"
proof -
  have p: "store_path (CAS root) ''../checkpoints/a.json'' = root @ [''checkpoints'', ''a.json'']"
    by (simp add: store_path_def fp_join_def)
  have "Stat (hfs w) (root @ [''checkpoints'', ''a.json'']) = Inr (File m cs)"
    using stat_with_present [OF assms] by (simp add: Stat_def)
  then have "Has (CAS root) (hfs w) ''../checkpoints/a.json''" "Get (CAS root) (hfs w) ''../checkpoints/a.json'' = Inr (fread cs)"
    unfolding Has_def Get_def p using ReadFile_present [OF assms] by (simp_all add: exists_at_def not_found_def)
  then show ?thesis by (simp add: pullBlob_def io)
qed

text \<open>
  Property C24. The object store may answer anything, corrupt or hostile, as long as it leaves the
  files alone. Where \<open>Pull\<close> then accepts a checkpoint whose id and hashes (of the tree and the images)
  are names without slashes and dots, the store stays sound, the hashes the checkpoint needs can be
  listed, and of those every one that is such a name, in the tree or among the chunks, is in the
  store with contents that have this hash. A hash with a slash or a dot is not covered: it can name
  another file.
\<close>

theorem Pull_checks_hashes:
  assumes "only_reads store" and "store_ok sha (root @ [''blobs'']) (hfs w)" and "records_ok root ''checkpoints'' (hfs w)"
    and "Pull sha root store i w = (Inr c, w')" and "id_ok (c_id c)"
    and "hash_name (c_tree_hash c)" and "\<forall>h \<in> {c_mem_hash c, c_disk_hash c, c_base_hash c}. h \<noteq> [] \<longrightarrow> hash_name h"
  shows "store_ok sha (root @ [''blobs'']) (hfs w') \<and> (\<exists>shas. needed_shas root (hfs w') c = Inr shas \<and>
    (\<forall>h \<in> set shas. hash_name h \<longrightarrow> (\<exists>b. blobs (root @ [''blobs'']) (hfs w') h = Some b \<and> hashOf sha b = h)))"
proof -
  let ?st = "filter (\<lambda>h. h \<noteq> []) [c_state_hash c]" and ?hs = "[c_mem_hash c, c_disk_hash c, c_base_hash c]"
  obtain w0 tb t w1 w2 w3 w4 where w0: "hfs w0 = hfs w" and w1: "pullBlob sha root store (c_tree_hash c) w0 = (Inr tb, w1)"
    and t: "Unmarshal tb = Some t" and w2: "for_each (file_shas t) (pull_ignoring sha root store) w1 = (Inr (), w2)"
    and w3: "for_each ?st (pull_ignoring sha root store) w2 = (Inr (), w3)"
    and w4: "for_each ?hs (pull_image sha root store) w3 = (Inr (), w4)" and w': "SaveCheckpoint root c w4 = (Inr (), w')"
    by (rule Pull_stages [OF assms(1,4)])
  have "holding sha root w0 w0" using assms(2,3) w0 by (simp add: holding_def map_le_refl)
  note p1 = pullBlob_checked [OF assms(1) this w1]
  note p2 = pull_all_checked [OF assms(1) p1(1) w2]
  note p3 = pull_all_checked [OF assms(1) p2(1) w3]
  from pull_images_checked [OF assms(1) p3(1) w4] assms(7) obtain imgs where p4: "holding sha root w3 w4"
    "image_shas root (hfs w4) ?hs = Inr imgs" "\<forall>k \<in> set imgs. hash_name k \<longrightarrow> blobs (root @ [''blobs'']) (hfs w4) k \<noteq> None"
    by auto
  have h4: "holding sha root w2 w4" "holding sha root w1 w4" using holding_trans p2(1) p3(1) p4(1) by blast+
  from p4(1) have ok4: "store_ok sha (root @ [''blobs'']) (hfs w4)" and r4: "records_ok root ''checkpoints'' (hfs w4)"
    by (auto simp: holding_def)
  note s = save_keeps_store [OF ok4 r4 assms(5) w']
  have tb: "blobs (root @ [''blobs'']) (hfs w4) (c_tree_hash c) = Some tb" by (rule holdingD [OF h4(2) p1(2) [OF assms(6)]])
  have "loadTree root (hfs w') (c_tree_hash c) = Inr t"
    using Get_blobs [OF s(1) assms(6)] tb s(2) t by (simp add: loadTree_def)
  moreover have "image_shas root (hfs w') ?hs = Inr imgs"
    using image_shas_agree [OF ok4 s, of ?hs] assms(7) p4(2) by simp
  ultimately have "needed_shas root (hfs w') c = Inr (c_tree_hash c # file_shas t @ ?st @ imgs)"
    by (simp add: needed_shas_def)
  moreover have "blobs (root @ [''blobs'']) (hfs w') h \<noteq> None"
    if "h \<in> set (c_tree_hash c # file_shas t @ ?st @ imgs)" "hash_name h" for h
  proof -
    from that(1) consider "h = c_tree_hash c" | "h \<in> set (file_shas t)" | "h \<in> set ?st" | "h \<in> set imgs" by auto
    then have "blobs (root @ [''blobs'']) (hfs w4) h \<noteq> None"
      using tb p4(3) p2(2) p3(2) that(2) holdingD [OF h4(1), of h] holdingD [OF p4(1), of h] by cases (simp, blast, blast, blast)
    then show ?thesis by (simp add: s(2))
  qed
  ultimately show ?thesis using s(1) blobs_hash [OF s(1)] by blast
qed

text \<open>A store that gives the record and junk for every blob.\<close>

definition hostile :: "ckpt \<Rightarrow> 'z world_scheme object_store" where
  "hostile c = \<lparr>o_Put = \<lambda>k d. ret (), o_Get = \<lambda>k. ret (if k = checkpointKey (c_id c) then marshal_ckpt c else ''junk''),
     o_Has = \<lambda>k. ret True, o_List = \<lambda>p w. Some (Inr [], w)\<rparr>"

lemma pull_present:
  "store_ok sha (root @ [''blobs'']) (hfs w) \<Longrightarrow> hash_name h \<Longrightarrow> blobs (root @ [''blobs'']) (hfs w) h = Some b \<Longrightarrow>
     pullBlob sha root store h w = (Inr b, w)"
  using Has_blobs [of sha "root @ [''blobs'']" "hfs w" h] Get_blobs [of sha "root @ [''blobs'']" "hfs w" h]
  by (simp add: pullBlob_def io)

theorem Pull_checks_hashes_witness:
  "\<exists>w w' :: world. Pull repo_sha [''v''] (hostile root_ckpt) ''a'' w = (Inr root_ckpt, w') \<and>
    (\<exists>shas. needed_shas [''v''] (hfs w') root_ckpt = Inr shas \<and>
      (\<forall>h \<in> set shas. hash_name h \<longrightarrow> (\<exists>b. blobs [''v'', ''blobs''] (hfs w') h = Some b \<and> hashOf repo_sha b = h)))"
proof -
  obtain w :: world where w: "repo_ok repo_sha [''v''] (set repo_blobs) w"
    "complete (blobs [''v'', ''blobs''] (hfs w)) root_ckpt [file_entry] (\<lambda>_. [])" by (rule one_checkpoint)
  note ok = repo_okD(3) [OF w(1)]
  have hn: "hash_name (c_tree_hash root_ckpt)" "hash_name (e_hash file_entry)"
    using hash_name_hashOf [OF repo_okD(5) [OF w(1)]] repo_hashes by (simp_all add: root_ckpt_def flip: repo_hashes)
  then have fs: "file_shas [file_entry] = [e_hash file_entry]" by (auto simp: file_shas_def hash_name_def)
  have none: "c_state_hash root_ckpt = []" "c_mem_hash root_ckpt = []" "c_disk_hash root_ckpt = []" "c_base_hash root_ckpt = []"
    by (simp_all add: root_ckpt_def demo_ckpt_def)
  from w(2) fs obtain tb b where tb: "blobs [''v'', ''blobs''] (hfs w) (c_tree_hash root_ckpt) = Some tb" "Unmarshal tb = Some [file_entry]"
    "blobs [''v'', ''blobs''] (hfs w) (e_hash file_entry) = Some b" by (auto simp: complete_def)
  have p: "pullBlob repo_sha [''v''] (hostile root_ckpt) (c_tree_hash root_ckpt) w = (Inr tb, w)"
    "pullBlob repo_sha [''v''] (hostile root_ckpt) (e_hash file_entry) w = (Inr b, w)"
    using pull_present [of repo_sha "[''v'']" w] ok hn tb(1,3) by simp_all
  have m: "unmarshal_with dec_ckpt (marshal_ckpt root_ckpt) = Some root_ckpt"
    using ckpt_roundtrip [OF root_ckpt_ok(1), of None] root_ckpt_ok(1)
    by (simp add: marshal_ckpt_def ckpt_ok_def time_ok_def time_read_def time_marshals_def)
  obtain f where f: "SaveCheckpoint [''v''] root_ckpt w = (Inr (), w\<lparr>hfs := f\<rparr>)"
    by (rule SaveCheckpoint_repo [OF w(1) root_ckpt_ok(1,2)]) (rule that)
  have pull: "Pull repo_sha [''v''] (hostile root_ckpt) ''a'' w = (Inr root_ckpt, w\<lparr>hfs := f\<rparr>)"
    using m p tb(2) f fs none root_ckpt_ok(3)
    by (simp add: Pull_def hostile_def io pull_ignoring_def pull_image_def)
  have "only_reads (hostile root_ckpt :: world object_store)" by (simp add: only_reads_def hostile_def io)
  from Pull_checks_hashes [OF this ok repo_okD(6) [OF w(1)] pull root_ckpt_ok(2) hn(1)] none pull show ?thesis
    by (intro exI [of _ w] exI [of _ "w\<lparr>hfs := f\<rparr>"]) simp
qed

end
