(* ===== verification/PastProps.thy ===== *)
theory PastProps
  imports StepProps RemoteProps
begin

section \<open>Sequences of steps\<close>

text \<open>
  The engine over the process backend as a step relation on the world: creating, running, checking
  out and forking, each where it succeeds and where it is refused, and anything that happens to
  files outside the store and the records. Every step keeps the repository's invariant and adds to
  the past without changing it. A restore that fails half-way is not a step here.
\<close>

lemma Create_files:
  assumes "files_only e" and "repo_ok sha (e_repo e) B w" and "clock_ok w"
    and "valid_utf8 name" and "valid_utf8 (b_Name (e_backend e))" and "Marshal [] \<in> B"
    and "room_for (e_repo e) (fresh_sandbox e name [] w) (hfs w)"
  obtains s c w1 w' where "Create sha e name w = (Inr s, w')" and "s = (fresh_sandbox e name [] w)\<lparr>s_head := c_id c\<rparr>"
    and "c_id c = next_id ''ck-'' (after_id w)" and "c_parent c = []" and "leaves_records (e_repo e) w w1"
    and "recorded sha (e_repo e) B c [] w1 w'" and "Sandbox (e_repo e) (hfs w') (s_id s) = Inr s"
    and "is_dir_at (hfs w') (work_dir (e_repo e) s)"
proof -
  let ?root = "e_repo e" and ?s = "fresh_sandbox e name [] w" and ?v = "after_id w"
  let ?q = "work_dir ?root ?s"
  have so: "sandbox_ok ?s" "ok_name (s_id ?s)" "id_ok (s_id ?s)" "s_head ?s = []"
    using fresh_sandbox_ok [OF assms(4) _ assms(5,3), of "[]"] by (simp_all add: valid_utf8_ascii)
  have fr: "fmlookup (hfs w) (?q @ p) = None" for p
    using fresh_below [OF repo_okD(4) [OF assms(2)], of ?q p] assms(7) by (simp add: room_for_def)
  obtain g where g: "MkdirAll (umask w) ((?root @ [''work'']) @ [s_id ?s]) mode_0755 (hfs w) = (Inr (), g)" "fs_ok g"
    "is_dir_at g ((?root @ [''work'']) @ [s_id ?s])" "\<forall>q. q \<noteq> (?root @ [''work'']) @ [s_id ?s] \<longrightarrow> fmlookup g q = fmlookup (hfs w) q"
    using MkdirAll_child [OF repo_okD(4) [OF assms(2)] _ so(2), of "?root @ [''work'']" "umask w" mode_0755] assms(7)
    by (auto simp: room_for_def)
  let ?w1 = "?v\<lparr>hfs := g\<rparr>"
  have nl: "fmlookup g (?q @ r) = None" if "r \<noteq> []" for r using g(4) fr [of r] that by simp
  have "x \<notin> set (below g ?q)" for x using set_below [of "fst x" "snd x" g ?q] nl [of "fst x"] by auto
  then have be: "below g ?q = []" by (metis list.set_intros(1) neq_Nil_conv)
  have wt: "work_tree sha ?root ?s (hfs ?w1) = []" by (simp add: work_tree_def snapshot_tree_def be visible_def)
  obtain d where "fmlookup g ?q = Some (Dir d)" using g(3) by (auto simp: inode_at_def elim: is_dir_atE)
  with nl have nf: "fmlookup g (?q @ r) = Some i \<longleftrightarrow> r = [] \<and> i = Dir d" for r i by (cases "r = []") auto
  have cap: "capturable (?root @ [''blobs'']) B ?q g"
    using g(3) nf by (auto simp: capturable_def)
  have "fmlookup g p = fmlookup (hfs w) p" if "records_path ?root p" for p
    using g(4) work_apart [of ?root ?s p] that by (cases "p = ?q") simp_all
  then have lv: "leaves_records ?root w ?w1" using g(2) by (simp add: leaves_records_def)
  have p: "repo_ok sha ?root B ?w1" "clock_ok ?w1" "can_checkpoint sha ?root B ?s (hfs ?w1)" "head_ok ?root (hfs ?w1) (s_head ?s)"
    "list_all valid_utf8 (case None of None \<Rightarrow> [] | Some cmd \<Rightarrow> cmd)" "int64 0 = 0" "valid_utf8 ''created''"
    using leaves_recordsD(1) [OF assms(2) lv] assms(3,6) so cap wt
    by (simp_all add: can_checkpoint_def head_ok_def clock_ok_def int64_id valid_utf8_ascii)
  define c where "c = ckpt_of sha ?root ?s None 0 ''created'' (parent_tree ?root (hfs ?w1) (s_head ?s))
     (next_id ''ck-'' ?w1) (clock ?w1 (clock_pos ?w1)) []"
  obtain w2 where w2: "checkpoint sha e ?s None 0 ''created'' ?w1 = (Inr c, w2)" "recorded sha ?root B c [] ?w1 w2"
    by (rule checkpoint_files [OF assms(1) p(1,3,2,4-7)]) (use that wt in \<open>simp add: c_def\<close>)
  have nx: "next_id ''ck-'' ?w1 = next_id ''ck-'' ?v" by (simp add: next_id_def)
  have ci: "valid_utf8 (c_id c)" "id_ok (c_id c)" "c_id c = next_id ''ck-'' ?v" "c_parent c = []"
    using ck_id_ok(1,2) [of ?v] so(4) nx by (simp_all add: c_def ckpt_of_def)
  obtain w' where w': "set_head e ?s c w2 = (Inr (?s\<lparr>s_head := c_id c\<rparr>), w')" "recorded sha ?root B c [] ?w1 w'"
    "Sandbox ?root (hfs w') (s_id ?s) = Inr (?s\<lparr>s_head := c_id c\<rparr>)"
    by (rule set_head_ok [OF w2(2) so(1,3) ci(1,2)]) (rule that)
  have "Create sha e name w = (Inr (?s\<lparr>s_head := c_id c\<rparr>), w')"
    using g(1) w2(1) w'(1) WorkDir_path [OF so(2)] by (simp add: Create_def io new_sandbox_effect on_fs_def)
  moreover have "is_dir_at (hfs w') ?q"
    using g(3) w'(2) work_apart [of ?root ?s ?q] is_dir_at_cong [of "hfs w'" ?q g] by (simp add: recorded_def elsewhere_same_def)
  ultimately show ?thesis using that [of "?s\<lparr>s_head := c_id c\<rparr>" w' c ?w1] ci(3,4) lv w'(2,3) by simp
qed

subsection \<open>The past does not change\<close>

lemma past_kept_recorded:
  assumes "recorded sha root B c t w w'" and "clock_ok w" and "Checkpoint root (hfs w) (c_id c) = Inl err"
  shows "past_kept sha root B w w'"
proof -
  have "Checkpoint root (hfs w') k = Inr d" if "id_ok k" "Checkpoint root (hfs w) k = Inr d" for k d
    using assms(1,3) that by (cases "k = c_id c") (auto simp: recorded_def)
  with assms(1,2) show ?thesis by (simp add: past_kept_def recorded_def clock_ok_def)
qed

subsection \<open>Operations that are refused\<close>

lemma past_kept_refl: "repo_ok sha root B w \<Longrightarrow> clock_ok w \<Longrightarrow> past_kept sha root B w w"
  by (simp add: past_kept_def map_le_refl)

text \<open>
  A run that makes no checkpoint: the command is empty, cannot be started, or has removed the working
  directory. The error is returned and nothing but what the command did has changed.
\<close>

lemma Run_refused:
  fixes w :: "'z eworld_scheme" and run :: "'z eworld_scheme runner"
  assumes "ok_name (s_id s)" and "run (work_dir root s) command (environ w) w = (fin, w1)"
  shows "command = [] \<Longrightarrow> Run sha (process_engine root run) s command w = (Inl (Errorf ''empty command'' [] None), w)"
    and "command \<noteq> [] \<Longrightarrow> fin = CmdErr e \<Longrightarrow> Run sha (process_engine root run) s command w = (Inl e, w1)"
    and "command \<noteq> [] \<Longrightarrow> ended_with fin code \<Longrightarrow> WalkDir (hfs w1) (work_dir root s) = Inl e \<Longrightarrow>
      Run sha (process_engine root run) s command w = (Inl e, w1)"
  using assms WorkDir_path [OF assms(1), of root]
  by (auto simp: Run_def ensureMachine_def ProcessBackend_def ProcessExec_def run_cmd_def os_Environ_def io Let_def
      ended_with_def checkpoint_def take_tree_def Snapshot_def)

text \<open>A checkpoint that is not there, belongs to another sandbox, or whose tree does not load.\<close>

lemma Checkout_refused:
  assumes "\<And>c t. Checkpoint root (hfs w) k = Inr c \<Longrightarrow> loadTree root (hfs w) (c_tree_hash c) = Inr t \<Longrightarrow> c_sandbox c \<noteq> s_id s"
  shows "\<exists>e. Checkout sha (process_engine root run) s k w = (Inl e, w)"
proof (cases "Checkpoint root (hfs w) k")
  case (Inr c)
  with assms show ?thesis by (cases "loadTree root (hfs w) (c_tree_hash c)") (auto simp: Checkout_def io)
qed (simp add: Checkout_def io)

lemma Fork_refused:
  assumes "\<And>c t. Checkpoint root (hfs w) k = Inr c \<Longrightarrow> loadTree root (hfs w) (c_tree_hash c) \<noteq> Inr t"
  shows "\<exists>e. Fork sha (process_engine root run) k name w = (Inl e, w)"
proof (cases "Checkpoint root (hfs w) k")
  case (Inr c)
  with assms show ?thesis by (cases "loadTree root (hfs w) (c_tree_hash c)") (auto simp: Fork_def io)
qed (simp add: Fork_def io)

subsection \<open>Steps\<close>

text \<open>
  One step of a repository: files outside the store and the records change, or an operation of the
  engine over the process backend succeeds or is refused. Ids are fresh where one is taken.
\<close>

inductive vit_step :: "hasher \<Rightarrow> path \<Rightarrow> bytes set \<Rightarrow> 'z eworld_scheme runner \<Rightarrow> 'z eworld_scheme \<Rightarrow> 'z eworld_scheme \<Rightarrow> bool"
  for sha root B run where
  outside: "leaves_records root w w' \<Longrightarrow> vit_step sha root B run w w'"
| create: "Create sha (process_engine root run) name w = (Inr s, w') \<Longrightarrow> valid_utf8 name \<Longrightarrow> Marshal [] \<in> B \<Longrightarrow>
    room_for root (fresh_sandbox (process_engine root run) name [] w) (hfs w) \<Longrightarrow>
    Checkpoint root (hfs w) (next_id ''ck-'' (after_id w)) = Inl err \<Longrightarrow> vit_step sha root B run w w'"
| step: "Run sha (process_engine root run) s command w = (Inr r, w') \<Longrightarrow>
    run (work_dir root s) command (environ w) w = (fin, w1) \<Longrightarrow> ended_with fin code \<Longrightarrow> leaves_records root w w1 \<Longrightarrow>
    command \<noteq> [] \<Longrightarrow> list_all valid_utf8 command \<Longrightarrow> int64 code = code \<Longrightarrow> can_checkpoint sha root B s (hfs w1) \<Longrightarrow>
    head_ok root (hfs w) (s_head s) \<Longrightarrow> Checkpoint root (hfs w) (next_id ''ck-'' w1) = Inl err \<Longrightarrow> vit_step sha root B run w w'"
| checkout: "Checkout sha (process_engine root run) s (c_id c) w = (Inr s', w') \<Longrightarrow> recorded sha root B c t w w \<Longrightarrow>
    id_ok (c_id c) \<Longrightarrow> valid_utf8 (c_id c) \<Longrightarrow> sandbox_ok s \<Longrightarrow> ok_name (s_id s) \<Longrightarrow> c_sandbox c = s_id s \<Longrightarrow>
    can_restore root (work_dir root s) t w \<Longrightarrow> vit_step sha root B run w w'"
| fork: "Fork sha (process_engine root run) (c_id src) name w = (Inr s, w') \<Longrightarrow> recorded sha root B src t w w \<Longrightarrow>
    id_ok (c_id src) \<Longrightarrow> valid_utf8 (c_id src) \<Longrightarrow> valid_utf8 name \<Longrightarrow> ckpt_ok src \<Longrightarrow>
    room_for root (fresh_sandbox (process_engine root run) name (c_id src) w) (hfs w) \<Longrightarrow> tree_wf t \<Longrightarrow>
    (\<forall>x \<in> set t. \<not> e_dir x \<and> e_link x = [] \<longrightarrow> hash_name (e_hash x)) \<Longrightarrow>
    Checkpoint root (hfs w) (next_id ''ck-'' (after_id w)) = Inl err \<Longrightarrow> vit_step sha root B run w w'"
| step_refused: "Run sha (process_engine root run) s command w = (r, w') \<Longrightarrow> ok_name (s_id s) \<Longrightarrow>
    run (work_dir root s) command (environ w) w = (fin, w1) \<Longrightarrow> leaves_records root w w1 \<Longrightarrow>
    command = [] \<or> (\<exists>e. fin = CmdErr e) \<or> (\<exists>e. WalkDir (hfs w1) (work_dir root s) = Inl e) \<Longrightarrow> vit_step sha root B run w w'"
| checkout_refused: "Checkout sha (process_engine root run) s k w = (r, w') \<Longrightarrow>
    (\<forall>c t. Checkpoint root (hfs w) k = Inr c \<longrightarrow> loadTree root (hfs w) (c_tree_hash c) = Inr t \<longrightarrow> c_sandbox c \<noteq> s_id s) \<Longrightarrow>
    vit_step sha root B run w w'"
| fork_refused: "Fork sha (process_engine root run) k name w = (r, w') \<Longrightarrow>
    (\<forall>c t. Checkpoint root (hfs w) k = Inr c \<longrightarrow> loadTree root (hfs w) (c_tree_hash c) \<noteq> Inr t) \<Longrightarrow>
    vit_step sha root B run w w'"

lemma vit_step_kept:
  assumes "vit_step sha root B run w w'" and "repo_ok sha root B w" and "clock_ok w"
  shows "past_kept sha root B w w'"
  using assms(1)
proof cases
  case outside
  with assms(2,3) show ?thesis by (intro past_kept_leaves)
next
  case (create name s err)
  have p: "repo_ok sha (e_repo (process_engine root run)) B w" "valid_utf8 (b_Name (e_backend (process_engine root run)))"
    "room_for (e_repo (process_engine root run)) (fresh_sandbox (process_engine root run) name [] w) (hfs w)"
    using assms(2) create(4) by (simp_all add: ProcessBackend_def valid_utf8_ascii)
  obtain c w1 where c: "c_id c = next_id ''ck-'' (after_id w)" "leaves_records root w w1" "recorded sha root B c [] w1 w'"
    by (rule Create_files [OF files_only_process p(1) assms(3) create(2) p(2) create(3) p(3)]) (use create(1) that in simp)
  have "past_kept sha root B w w1" by (rule past_kept_leaves [OF assms(2,3) c(2)])
  moreover have "Checkpoint root (hfs w1) (c_id c) = Inl err"
    using create(5) c(1) leaves_recordsD(3) [OF assms(2) c(2)] ck_id_ok(1) [of "after_id w"] by simp
  then have "past_kept sha root B w1 w'"
    using assms(3) c(2,3) by (intro past_kept_recorded) (simp_all add: clock_ok_def leaves_records_def)
  ultimately show ?thesis by (rule past_kept_trans)
next
  case (step s command r fin w1 code err)
  note l = leaves_recordsD [OF assms(2) step(4)]
  have ck: "clock_ok w1" using assms(3) step(4) by (simp add: clock_ok_def leaves_records_def)
  define c where "c = ckpt_of sha root (s\<lparr>s_steps := int64 (s_steps s + 1)\<rparr>) (Some command) code [] (parent_tree root (hfs w1) (s_head s))
     (next_id ''ck-'' w1) (clock w1 (clock_pos w1)) (work_tree sha root s (hfs w1))"
  have rec: "recorded sha root B c (map entry_fix (work_tree sha root s (hfs w1))) w1 w'" unfolding c_def
    by (rule Run_process [where run = run, OF step(2,3,5) l(1) step(8) ck leaves_head(1) [OF assms(2) step(4,9)] step(6,7)]) (use step(1) in simp)
  have "past_kept sha root B w w1" by (rule past_kept_leaves [OF assms(2,3) step(4)])
  moreover have "Checkpoint root (hfs w1) (c_id c) = Inl err"
    using step(10) l(3) [OF ck_id_ok(1) [of w1]] by (simp add: c_def ckpt_of_def)
  then have "past_kept sha root B w1 w'" by (rule past_kept_recorded [OF rec ck])
  ultimately show ?thesis by (rule past_kept_trans)
next
  case (checkout s c s' t)
  let ?e = "process_engine root run"
  have p: "recorded sha (e_repo ?e) B c t w w" "can_restore (e_repo ?e) (work_dir (e_repo ?e) s) t w" using checkout by simp_all
  have "(\<forall>k. id_ok k \<longrightarrow> Checkpoint root (hfs w') k = Checkpoint root (hfs w) k) \<and> recorded sha root B c t w' w' \<and>
      blobs (root @ [''blobs'']) (hfs w) \<subseteq>\<^sub>m blobs (root @ [''blobs'']) (hfs w') \<and> clock w' = clock w"
    by (rule Checkout_files [OF files_only_process p(1) checkout(3-7) p(2)]) (use checkout(1) in simp)
  with assms(3) show ?thesis by (simp add: past_kept_def recorded_def clock_ok_def)
next
  case (fork src name s t err)
  let ?e = "process_engine root run"
  have p: "recorded sha (e_repo ?e) B src t w w" "valid_utf8 (b_Name (e_backend ?e))"
    "room_for (e_repo ?e) (fresh_sandbox ?e name (c_id src) w) (hfs w)" "Checkpoint (e_repo ?e) (hfs w) (next_id ''ck-'' (after_id w)) = Inl err"
    using fork by (simp_all add: ProcessBackend_def valid_utf8_ascii)
  obtain s0 c w0 where f: "Fork sha ?e (c_id src) name w = (Inr s0, w0)"
      "c = fork_ckpt src w" "recorded sha (e_repo ?e) B c t w0 w0"
      "\<And>k. id_ok k \<Longrightarrow> k \<noteq> c_id c \<Longrightarrow> Checkpoint (e_repo ?e) (hfs w0) k = Checkpoint (e_repo ?e) (hfs w) k"
      "blobs (e_repo ?e @ [''blobs'']) (hfs w) \<subseteq>\<^sub>m blobs (e_repo ?e @ [''blobs'']) (hfs w0)" "clock w0 = clock w"
    by (rule Fork_files [OF files_only_process p(1) fork(3-5) p(2) assms(3) fork(6) p(3) fork(8,9) p(4)]) (rule that)
  have ci: "c_id c = next_id ''ck-'' (after_id w)" by (simp add: f(2) fork_ckpt_def)
  have "Checkpoint root (hfs w0) k = Inr d" if "id_ok k" "Checkpoint root (hfs w) k = Inr d" for k d
    using ci f(4) fork(10) that by (cases "k = c_id c") auto
  with f(1,3,5,6) fork(1) assms(3) show ?thesis by (simp add: past_kept_def recorded_def clock_ok_def)
next
  case (step_refused s command r fin w1)
  have "w' = w \<or> w' = w1"
  proof (cases fin)
    case CmdOk
    then have "ended_with fin 0" by (simp add: ended_with_def)
    with Run_refused [where run = run, OF step_refused(2,3)] step_refused(1,5) CmdOk show ?thesis by (cases "command = []") auto
  next
    case (CmdExit code)
    then have "ended_with fin code" by (simp add: ended_with_def)
    with Run_refused [where run = run, OF step_refused(2,3)] step_refused(1,5) CmdExit show ?thesis by (cases "command = []") auto
  next
    case (CmdErr e)
    with Run_refused [where run = run, OF step_refused(2,3)] step_refused(1) show ?thesis by (cases "command = []") auto
  qed
  with past_kept_refl [OF assms(2,3)] past_kept_leaves [OF assms(2,3) step_refused(4)] show ?thesis by blast
next
  case (checkout_refused s k r)
  obtain e where "Checkout sha (process_engine root run) s k w = (Inl e, w)"
    using Checkout_refused [where root = root and w = w and k = k and s = s] checkout_refused(2) by blast
  with checkout_refused(1) past_kept_refl [OF assms(2,3)] show ?thesis by simp
next
  case (fork_refused k name r)
  obtain e where "Fork sha (process_engine root run) k name w = (Inl e, w)"
    using Fork_refused [where root = root and w = w and k = k] fork_refused(2) by blast
  with fork_refused(1) past_kept_refl [OF assms(2,3)] show ?thesis by simp
qed

lemma ReadFileAt_kept:
  assumes "recorded sha root B c t w w" and "past_kept sha root B w w'" and "id_ok (c_id c)"
  shows "TreeAt root (hfs w') (c_id c) = Inr t" and "ReadFileAt root (hfs w') (c_id c) p = ReadFileAt root (hfs w) (c_id c) p"
proof -
  let ?r = "root @ [''blobs'']"
  from assms(1) have r: "repo_ok sha root B w" "Checkpoint root (hfs w) (c_id c) = Inr c" "hash_name (c_tree_hash c)"
    "loadTree root (hfs w) (c_tree_hash c) = Inr t" "\<forall>x \<in> set t. e_hash x \<noteq> [] \<longrightarrow> blobs ?r (hfs w) (e_hash x) \<noteq> None"
    by (auto simp: recorded_def)
  from assms(2) have k: "repo_ok sha root B w'" "blobs ?r (hfs w) \<subseteq>\<^sub>m blobs ?r (hfs w')" by (auto simp: past_kept_def)
  have c: "Checkpoint root (hfs w') (c_id c) = Inr c" using assms(2,3) r(2) by (auto simp: past_kept_def)
  have "loadTree root (hfs w') (c_tree_hash c) = Inr t"
    by (rule loadTree_keep [OF repo_okD(3) [OF r(1)] repo_okD(2) [OF k(1)] k(2) r(3,4)])
  with c r(2,4) have t: "TreeAt root (hfs w') (c_id c) = Inr t" "TreeAt root (hfs w) (c_id c) = Inr t" by (simp_all add: TreeAt_def)
  have "Get ?r (hfs w') (e_hash x) = Get ?r (hfs w) (e_hash x)" if "Find t p = Some x" for x
  proof (cases "e_hash x = []")
    case True
    then show ?thesis using Get_empty_hash [OF repo_okD(3) [OF k(1)]] Get_empty_hash [OF repo_okD(3) [OF r(1)]] by simp
  next
    case False
    moreover have "x \<in> set t" using that by (auto simp: Find_def find_Some_iff)
    ultimately obtain b where b: "blobs ?r (hfs w) (e_hash x) = Some b" using r(5) by blast
    with k(2) have "blobs ?r (hfs w') (e_hash x) = Some b" by (force simp: map_le_def dom_def)
    with b safe_Get [OF repo_okD(2) [OF k(1)]] safe_Get [OF repo_okD(2) [OF r(1)]] show ?thesis by simp
  qed
  with t show "TreeAt root (hfs w') (c_id c) = Inr t" "ReadFileAt root (hfs w') (c_id c) p = ReadFileAt root (hfs w) (c_id c) p"
    by (simp_all add: ReadFileAt_def split: option.splits)
qed

lemma vit_steps_kept:
  assumes "(vit_step sha root B run)\<^sup>*\<^sup>* w w'" and "repo_ok sha root B w" and "clock_ok w"
  shows "past_kept sha root B w w'"
  using assms
proof (induction rule: rtranclp_induct)
  case base
  then show ?case by (simp add: past_kept_def map_le_refl)
next
  case (step u v)
  then have "past_kept sha root B w u" by blast
  moreover from this step have "past_kept sha root B u v" by (intro vit_step_kept) (auto simp: past_kept_def)
  ultimately show ?case by (rule past_kept_trans)
qed



end
