(* ===== verification/FakeMachine.thy ===== *)
theory FakeMachine
  imports Engine
begin

section \<open>The fake machine (internal/engine/fake_machine.go)\<close>

text \<open>
  A backend with machines and no hypervisor: each sandbox's guest is a directory, its disk a JSON
  document of that directory's files, its memory a byte buffer. The maps of the Go struct extend
  the state of the engine; the mutex only makes each of the updates atomic. Go iterates over a map
  in no particular order; \<open>unpackDir\<close> here goes by name.
\<close>

subsection \<open>Base64, as package json writes byte slices\<close>

definition b64_alphabet :: string where
  "b64_alphabet = ''ABCDEFGHIJKLMNOPQRSTUVWXYZabcdefghijklmnopqrstuvwxyz0123456789+/''"

definition b64_char :: "nat \<Rightarrow> char" where
  "b64_char n = b64_alphabet ! n"

definition b64_val :: "char \<Rightarrow> nat option" where
  "b64_val c = find (\<lambda>n. b64_char n = c) [0..<64]"

fun b64_enc :: "bytes \<Rightarrow> string" where
  "b64_enc [] = []"
| "b64_enc [a] = [b64_char (of_char a div 4), b64_char ((of_char a mod 4) * 16), CHR ''='', CHR ''='']"
| "b64_enc [a, b] =
     [b64_char (of_char a div 4), b64_char ((of_char a mod 4) * 16 + of_char b div 16),
      b64_char ((of_char b mod 16) * 4), CHR ''='']"
| "b64_enc (a # b # c # r) =
     [b64_char (of_char a div 4), b64_char ((of_char a mod 4) * 16 + of_char b div 16),
      b64_char ((of_char b mod 16) * 4 + of_char c div 64), b64_char (of_char c mod 64)] @ b64_enc r"

text \<open>Groups of four; padding only in the last group.\<close>

fun b64_groups :: "string \<Rightarrow> bytes option" where
  "b64_groups [] = Some []"
| "b64_groups (a # b # c # d # r) =
     (case (b64_val a, b64_val b) of
        (Some x, Some y) \<Rightarrow>
          let p = char_of (x * 4 + y div 16) in
          if c = CHR ''='' \<and> d = CHR ''='' \<and> r = [] then Some [p]
          else
            (case b64_val c of
               None \<Rightarrow> None
             | Some z \<Rightarrow>
                 let q = char_of ((y mod 16) * 16 + z div 4) in
                 if d = CHR ''='' \<and> r = [] then Some [p, q]
                 else
                   (case (b64_val d, b64_groups r) of
                      (Some u, Some rest) \<Rightarrow> Some (p # q # char_of ((z mod 4) * 64 + u) # rest)
                    | _ \<Rightarrow> None))
      | _ \<Rightarrow> None)"
| "b64_groups _ = None"

definition b64_dec :: "string \<Rightarrow> bytes option" where
  "b64_dec s = b64_groups (filter (\<lambda>c. c \<noteq> CHR 0x0A \<and> c \<noteq> CHR 0x0D) s)"

subsection \<open>Memory images\<close>

definition fakeMemSize :: nat where
  "fakeMemSize = 16 * 4096"

definition le_bytes :: "nat \<Rightarrow> nat \<Rightarrow> bytes" where
  "le_bytes k n = map (\<lambda>i. char_of (n div 2 ^ (8 * i))) [0..<k]"

definition memImage :: "bytes \<Rightarrow> bytes" where
  "memImage ram =
     (let body = take (fakeMemSize - 8) ram in
      le_bytes 8 (length ram) @ body @ replicate (fakeMemSize - 8 - length body) (CHR 0x00))"

definition le_value :: "bytes \<Rightarrow> nat" where
  "le_value bs = (\<Sum>i<length bs. of_char (bs ! i) * 2 ^ (8 * i))"

text \<open>An index or a slice beyond the image panics.\<close>

definition memFromImage :: "bytes \<Rightarrow> err + bytes" where
  "memFromImage img =
     (if length img < 8 then Inl (Panic ''index out of range'')
      else
        let n = int64 (int (le_value (take 8 img))) in
        if n < 0 \<or> int (length img) < 8 + n then Inl (Panic ''slice bounds out of range'')
        else Inr (take (nat n) (drop 8 img)))"

subsection \<open>A directory as a disk\<close>

fun pack_files :: "fs \<Rightarrow> path \<Rightarrow> (path \<times> inode) list \<Rightarrow> err + (string \<times> bytes) list" where
  "pack_files f dir [] = Inr []"
| "pack_files f dir ((r, i) # rest) =
     (if is_dir i then pack_files f dir rest
      else case ReadFile f (dir @ r) of
        Inl e \<Rightarrow> Inl e
      | Inr b \<Rightarrow> (case pack_files f dir rest of Inl e \<Rightarrow> Inl e | Inr files \<Rightarrow> Inr ((Rel r, b) # files)))"

definition files_json :: "(string \<times> bytes) list \<Rightarrow> json" where
  "files_json files = JObj (map (\<lambda>(k, b). (k, JStr (b64_enc b))) (sort_key fst files))"

definition packDir :: "fs \<Rightarrow> path \<Rightarrow> err + bytes" where
  "packDir f dir =
     (case Walk f dir of
        Inl e \<Rightarrow> Inl e
      | Inr listing \<Rightarrow>
          (case pack_files f dir listing of
             Inl e \<Rightarrow> Inl e
           | Inr files \<Rightarrow> Inr (emit None (files_json files))))"

fun dec_byte :: "json \<Rightarrow> char option" where
  "dec_byte j = map_option (\<lambda>n. char_of (nat n)) (dec_int 0 255 (if j = JNull then None else Some j))"

fun dec_bytes :: "json \<Rightarrow> bytes option" where
  "dec_bytes JNull = Some []"
| "dec_bytes (JStr s) = b64_dec s"
| "dec_bytes (JArr js) = all_some (map dec_byte js)"
| "dec_bytes _ = None"

definition dec_files :: "bytes \<Rightarrow> (string \<times> bytes) list option" where
  "dec_files b =
     (case parse_json b of
        Some (JObj ms) \<Rightarrow>
          map_option (\<lambda>bs. fold (\<lambda>(k, v) m. aput k v m) (zip (map fst ms) bs) [])
            (all_some (map (dec_bytes \<circ> snd) ms))
      | Some JNull \<Rightarrow> Some []
      | _ \<Rightarrow> None)"

definition unpack_file :: "path \<Rightarrow> string \<times> bytes \<Rightarrow> ('z world_scheme, unit) io" where
  "unpack_file dir x =
     (let p = fp_join dir (fst x) in
      bindE (gets umask) (\<lambda>um.
      bindE (on_fs (MkdirAll um (butlast p) mode_0755)) (\<lambda>_.
      on_fs (WriteFile um p (snd x) mode_0644))))"

definition unpackDir :: "bytes \<Rightarrow> path \<Rightarrow> ('z world_scheme, unit) io" where
  "unpackDir b dir =
     (case dec_files b of
        None \<Rightarrow> fail (Errorf ''json'' [] None)
      | Some files \<Rightarrow>
          bindE (RemoveAll_quiet dir) (\<lambda>_.
          bindE (for_each (sort_key fst files) (unpack_file dir)) (\<lambda>_.
          bindE (gets umask) (\<lambda>um. on_fs (MkdirAll um dir mode_0755)))))"

subsection \<open>The machine\<close>

record fworld = eworld +
  fm_ram :: "string \<rightharpoonup> bytes"
  fm_base :: "string \<rightharpoonup> string"
  fm_baseImg :: "string \<rightharpoonup> bytes"
  fm_lastSnap :: "string \<rightharpoonup> bytes"
  fm_Diffs :: int

definition guest :: "path \<Rightarrow> string \<Rightarrow> path" where
  "guest froot i = clean_from froot (split_on (CHR ''/'') i @ [''work''])"

definition fm_Boot :: "path \<Rightarrow> string \<Rightarrow> path \<Rightarrow> ('z fworld_scheme, unit) io" where
  "fm_Boot froot i workDir =
     bindE (gets (\<lambda>w. fm_ram w i)) (\<lambda>up.
       case up of
         Some _ \<Rightarrow> ret ()
       | None \<Rightarrow>
           bindE (RemoveAll_quiet (guest froot i)) (\<lambda>_.
           bindE (gets umask) (\<lambda>um.
           bindE (on_fs (MkdirAll um (guest froot i) mode_0755)) (\<lambda>_.
           modify (\<lambda>w. w\<lparr>fm_ram := (fm_ram w)(i \<mapsto> ''boot;''), fm_base := (fm_base w)(i := None)\<rparr>)))))"

definition fm_Running :: "string \<Rightarrow> 'z fworld_scheme \<Rightarrow> bool" where
  "fm_Running i w \<longleftrightarrow> fm_ram w i \<noteq> None"

definition fm_Exec ::
  "path \<Rightarrow> 'z fworld_scheme runner \<Rightarrow> string \<Rightarrow> path \<Rightarrow> string list \<Rightarrow> string list \<Rightarrow> ('z fworld_scheme, int) io" where
  "fm_Exec froot run i workDir command env =
     bindE (gets (fm_Running i)) (\<lambda>up.
       if \<not> up then fail (Errorf ''sandbox %s is not running'' [i] None)
       else if command = [] then fail (Panic ''index out of range'')
       else run_cmd run (guest froot i) command env)"

text \<open>\<open>hasher.PutFile\<close> and \<open>blobReader.OpenBlob\<close>.\<close>

definition hasher_PutFile :: "hasher \<Rightarrow> 'z world_scheme blober" where
  "hasher_PutFile sha p =
     bindE (gets hfs) (\<lambda>f.
     bindE (lift_res (ReadFile f p)) (\<lambda>b. ret (hashOf sha b, int (length b))))"

definition blobReader :: "blob_func \<Rightarrow> open_blob" where
  "blobReader r f hash = (case r f hash of Inl e \<Rightarrow> Inl e | Inr b \<Rightarrow> Inr (Inr b))"

definition fm_ListFiles :: "hasher \<Rightarrow> path \<Rightarrow> string \<Rightarrow> ('z world_scheme, entry list) io" where
  "fm_ListFiles sha froot i = Snapshot (hasher_PutFile sha) (guest froot i) None"

definition fm_ReadFile :: "path \<Rightarrow> string \<Rightarrow> string \<Rightarrow> ('z world_scheme, bytes) io" where
  "fm_ReadFile froot i p =
     bindE (gets hfs) (\<lambda>f. lift_res (ReadFile f (fp_join (guest froot i) p)))"

definition fm_WriteTree :: "path \<Rightarrow> string \<Rightarrow> tree \<Rightarrow> blob_func \<Rightarrow> ('z world_scheme, unit) io" where
  "fm_WriteTree froot i t blob = Restore t (blobReader blob) (guest froot i)"

text \<open>The loop of \<open>Snapshot\<close> that writes the pages that differ; errors of the writes are ignored.\<close>

definition page :: "bytes \<Rightarrow> nat \<Rightarrow> bytes" where
  "page img p = take 4096 (drop p img)"

definition write_page :: "path \<Rightarrow> bytes \<Rightarrow> bytes \<Rightarrow> nat \<Rightarrow> ('z world_scheme, unit) io" where
  "write_page mem img prev p =
     (if length prev < p + 4096 then fail (Panic ''slice bounds out of range'')
      else if page img p \<noteq> page prev p then bindE (attempt (on_fs (PWrite mem p (page img p)))) (\<lambda>_. ret ())
      else ret ())"

definition write_diff :: "path \<Rightarrow> bytes \<Rightarrow> bytes \<Rightarrow> ('z world_scheme, unit) io" where
  "write_diff mem img prev =
     bindE (gets umask) (\<lambda>um.
     bindE (on_fs (WriteCells um mem [] 438)) (\<lambda>_.
     bindE (attempt (on_fs (TruncateNew mem (int fakeMemSize)))) (\<lambda>_.
     for_each (map (\<lambda>k. k * 4096) [0..<16]) (write_page mem img prev))))"

definition fm_diffable :: "string \<Rightarrow> string \<Rightarrow> 'z fworld_scheme \<Rightarrow> bool" where
  "fm_diffable i base w \<longleftrightarrow> base \<noteq> [] \<and> fm_base w i = Some base \<and> fm_baseImg w i \<noteq> None"

definition fm_Snapshot :: "path \<Rightarrow> string \<Rightarrow> path \<Rightarrow> string \<Rightarrow> ('z fworld_scheme, image) io" where
  "fm_Snapshot froot i dir base =
     bindE (gets (\<lambda>w. memImage (case fm_ram w i of None \<Rightarrow> [] | Some r \<Rightarrow> r))) (\<lambda>img.
     bindE (gets (fm_diffable i base)) (\<lambda>diff.
     bindE (gets (\<lambda>w. fm_baseImg w i)) (\<lambda>prev.
     bindE (modify (\<lambda>w. w\<lparr>fm_lastSnap := (fm_lastSnap w)(i \<mapsto> img),
         fm_Diffs := (if diff then int64 (fm_Diffs w + 1) else fm_Diffs w)\<rparr>)) (\<lambda>_.
       let mem = fp_join dir ''mem''; st = fp_join dir ''state''; dk = fp_join dir ''disk'' in
       bindE (gets umask) (\<lambda>um.
       bindE (if diff then write_diff mem img (the prev) else on_fs (WriteFile um mem img mode_0600)) (\<lambda>_.
       bindE (on_fs (WriteFile um st ''fake-vcpu-state'' mode_0600)) (\<lambda>_.
       bindE (gets hfs) (\<lambda>f.
       bindE (lift_res (packDir f (guest froot i))) (\<lambda>disk.
       bindE (on_fs (WriteFile um dk disk mode_0600)) (\<lambda>_.
       ret \<lparr>img_Memory = mem, img_State = st, img_Disk = Some dk, img_BaseDisk = None,
         img_MemoryIsDiff = diff, img_Base = (if diff then base else [])\<rparr>))))))))))"

definition fm_Rebase :: "string \<Rightarrow> string \<Rightarrow> ('z fworld_scheme, unit) io" where
  "fm_Rebase i base =
     modify (\<lambda>w. w\<lparr>fm_base := (fm_base w)(i \<mapsto> base), fm_baseImg := (fm_baseImg w)(i := fm_lastSnap w i)\<rparr>)"

definition fm_Resume :: "path \<Rightarrow> string \<Rightarrow> path \<Rightarrow> image \<Rightarrow> ('z fworld_scheme, unit) io" where
  "fm_Resume froot i workDir img =
     bindE (gets hfs) (\<lambda>f.
     bindE (lift_res (ReadFile f (img_Memory img))) (\<lambda>mem.
     bindE (lift_res (case img_Disk img of None \<Rightarrow> Inl (Errno ENOENT) | Some p \<Rightarrow> ReadFile f p)) (\<lambda>disk.
     bindE (unpackDir disk (guest froot i)) (\<lambda>_.
     bindE (lift_res (memFromImage mem)) (\<lambda>ram.
     modify (\<lambda>w. w\<lparr>fm_ram := (fm_ram w)(i \<mapsto> ram), fm_base := (fm_base w)(i \<mapsto> img_Base img),
       fm_baseImg := (fm_baseImg w)(i \<mapsto> mem)\<rparr>))))))"

definition fm_Shutdown :: "string \<Rightarrow> ('z fworld_scheme, unit) io" where
  "fm_Shutdown i = modify (\<lambda>w. w\<lparr>fm_ram := (fm_ram w)(i := None)\<rparr>)"

text \<open>\<open>Memory\<close> and \<open>Touch\<close>.\<close>

definition fm_Memory :: "string \<Rightarrow> 'z fworld_scheme \<Rightarrow> bytes" where
  "fm_Memory i w = (case fm_ram w i of None \<Rightarrow> [] | Some r \<Rightarrow> r)"

definition fm_Touch :: "string \<Rightarrow> bytes \<Rightarrow> ('z fworld_scheme, unit) io" where
  "fm_Touch i b = modify (\<lambda>w. w\<lparr>fm_ram := (fm_ram w)(i \<mapsto> fm_Memory i w @ b)\<rparr>)"

definition fake_machine :: "hasher \<Rightarrow> path \<Rightarrow> 'z fworld_scheme runner \<Rightarrow> 'z fworld_scheme backend" where
  "fake_machine sha froot run =
     \<lparr>b_Name = ''fake-machine'', b_Exec = fm_Exec froot run,
      b_mem = Some \<lparr>m_Boot = fm_Boot froot, m_Running = fm_Running, m_Snapshot = fm_Snapshot froot,
        m_Rebase = fm_Rebase, m_Resume = fm_Resume froot, m_Shutdown = fm_Shutdown\<rparr>,
      b_guest = Some \<lparr>g_ListFiles = fm_ListFiles sha froot, g_ReadFile = fm_ReadFile froot,
        g_WriteTree = fm_WriteTree froot\<rparr>\<rparr>"

end
