(* ===== verification/GoUrl.thy ===== *)
theory GoUrl
  imports GoJson
begin

unbundle bit_operations_syntax

section \<open>Package net/url\<close>

text \<open>
  What the S3 client uses of \<open>net/url\<close> and \<open>net/http\<close>: splitting a URL into its scheme, host, path and
  query, the errors of that, and writing query values. A URL is text until it is parsed.
\<close>

subsection \<open>Escaping\<close>

definition hex_up :: "nat \<Rightarrow> char" where
  "hex_up n = (if n < 10 then char_of (48 + n) else char_of (55 + n))"

definition percent :: "char \<Rightarrow> string" where
  "percent c = [CHR ''%'', hex_up (of_char c div 16), hex_up (of_char c mod 16)]"

definition letter :: "char \<Rightarrow> bool" where
  "letter c \<longleftrightarrow> (CHR ''A'' \<le> c \<and> c \<le> CHR ''Z'') \<or> (CHR ''a'' \<le> c \<and> c \<le> CHR ''z'')"

definition unreserved :: "char \<Rightarrow> bool" where
  "unreserved c \<longleftrightarrow> letter c \<or> is_digit c \<or> c \<in> set ''-_.~''"

definition QueryEscape :: "string \<Rightarrow> string" where
  "QueryEscape s =
     concat (map (\<lambda>c. if unreserved c then [c] else if c = CHR '' '' then ''+'' else percent c) s)"

text \<open>The value of a hexadecimal digit; \<open>unescape\<close> with the bytes a percent sequence may stand for.\<close>

definition unhex :: "char \<Rightarrow> nat option" where
  "unhex c =
     (if is_digit c then Some (of_char c - 48)
      else if CHR ''a'' \<le> c \<and> c \<le> CHR ''f'' then Some (of_char c - 87)
      else if CHR ''A'' \<le> c \<and> c \<le> CHR ''F'' then Some (of_char c - 55)
      else None)"

fun unescape :: "(nat \<Rightarrow> bool) \<Rightarrow> (char \<Rightarrow> bool) \<Rightarrow> string \<Rightarrow> string option" where
  "unescape coded plain [] = Some []"
| "unescape coded plain (c # cs) =
     (if c = CHR ''%'' then
        (case cs of
           a # b # rest \<Rightarrow>
             (case (unhex a, unhex b) of
                (Some h, Some l) \<Rightarrow>
                  if coded (16 * h + l) then map_option ((#) (char_of (16 * h + l))) (unescape coded plain rest) else None
              | _ \<Rightarrow> None)
         | _ \<Rightarrow> None)
      else if plain c then map_option ((#) c) (unescape coded plain cs) else None)"

definition unescape_path :: "string \<Rightarrow> string option" where
  "unescape_path = unescape (\<lambda>_. True) (\<lambda>_. True)"

text \<open>In a host, bytes below 128 may be escaped only as \<open>%25\<close>, and some must not occur.\<close>

definition host_plain :: "char \<Rightarrow> bool" where
  "host_plain c \<longleftrightarrow> 128 \<le> (of_char c :: nat) \<or> unreserved c \<or> c \<in> set ''!$&()*+,;=:[]<>'' \<or> c = CHR 0x27 \<or> c = CHR 0x22"

definition unescape_host :: "string \<Rightarrow> string option" where
  "unescape_host = unescape (\<lambda>n. 128 \<le> n \<or> n = 37) host_plain"

definition zone_coded :: "nat \<Rightarrow> bool" where
  "zone_coded n \<longleftrightarrow> n = 37 \<or> n = 32 \<or> n < 128 \<and> host_plain (char_of n)"

definition unescape_zone :: "string \<Rightarrow> string option" where
  "unescape_zone = unescape zone_coded host_plain"

subsection \<open>Parsing\<close>

record url =
  u_Scheme :: string
  u_Host :: string
  u_Path :: string
  u_RawQuery :: string

definition url_err :: "err" where
  "url_err = Errorf ''parse url'' [] None"

text \<open>\<open>strings.Cut\<close> at a byte: what comes before its first occurrence and after it.\<close>

definition cut_before :: "char \<Rightarrow> string \<Rightarrow> string" where
  "cut_before d s = takeWhile (\<lambda>c. c \<noteq> d) s"

definition cut_after :: "char \<Rightarrow> string \<Rightarrow> string" where
  "cut_after d s = drop (Suc (length (cut_before d s))) s"

text \<open>The text from the last occurrence of a byte on, without it.\<close>

definition after_last :: "char \<Rightarrow> string \<Rightarrow> string" where
  "after_last d s = rev (takeWhile (\<lambda>c. c \<noteq> d) (rev s))"

definition control :: "char \<Rightarrow> bool" where
  "control c \<longleftrightarrow> of_char c < (32 :: nat) \<or> c = CHR 0x7F"

definition to_lower :: "char \<Rightarrow> char" where
  "to_lower c = (if CHR ''A'' \<le> c \<and> c \<le> CHR ''Z'' then char_of (of_char c + 32 :: nat) else c)"

definition scheme_char :: "char \<Rightarrow> bool" where
  "scheme_char c \<longleftrightarrow> letter c \<or> is_digit c \<or> c \<in> set ''+-.''"

definition getScheme :: "string \<Rightarrow> (string \<times> string) option" where
  "getScheme s =
     (let n = takeWhile scheme_char s; rest = dropWhile scheme_char s in
      if n \<noteq> [] \<and> \<not> letter (hd n) then Some ([], s)
      else case rest of
        [] \<Rightarrow> Some ([], s)
      | c # r \<Rightarrow> if c \<noteq> CHR '':'' then Some ([], s) else if n = [] then None else Some (n, r))"

definition validOptionalPort :: "string \<Rightarrow> bool" where
  "validOptionalPort p \<longleftrightarrow> p = [] \<or> hd p = CHR '':'' \<and> list_all is_digit (tl p)"

text \<open>The position of the first \<open>%25\<close>.\<close>

fun zone_at :: "string \<Rightarrow> nat option" where
  "zone_at [] = None"
| "zone_at (c # cs) = (if HasPrefix (c # cs) ''%25'' then Some 0 else map_option Suc (zone_at cs))"

definition parseHost :: "string \<Rightarrow> string option" where
  "parseHost h =
     (if HasPrefix h ''['' then
        if CHR '']'' \<notin> set h \<or> \<not> validOptionalPort (after_last (CHR '']'') h) then None
        else
          let i = length h - Suc (length (after_last (CHR '']'') h)) in
          (case zone_at (take i h) of
             None \<Rightarrow> unescape_host h
           | Some z \<Rightarrow>
               (case (unescape_host (take z h), unescape_zone (drop z (take i h)), unescape_host (drop i h)) of
                  (Some a, Some b, Some c) \<Rightarrow> Some (a @ b @ c)
                | _ \<Rightarrow> None))
      else if CHR '':'' \<in> set h \<and> \<not> list_all is_digit (after_last (CHR '':'') h) then None
      else unescape_host h)"

definition userinfo_char :: "char \<Rightarrow> bool" where
  "userinfo_char c \<longleftrightarrow> letter c \<or> is_digit c \<or> c \<in> set ''-._:~!$&()*+,;=%@'' \<or> c = CHR 0x27"

text \<open>The host of an authority; the user information is checked and dropped.\<close>

definition parseAuthority :: "string \<Rightarrow> string option" where
  "parseAuthority a =
     (case parseHost (after_last (CHR ''@'') a) of
        None \<Rightarrow> None
      | Some h \<Rightarrow>
          if CHR ''@'' \<notin> set a then Some h
          else
            let user = take (length a - Suc (length (after_last (CHR ''@'') a))) a in
            if list_all userinfo_char user \<and> unescape_path (cut_before (CHR '':'') user) \<noteq> None \<and>
               unescape_path (cut_after (CHR '':'') user) \<noteq> None
            then Some h else None)"

text \<open>What follows the scheme: the query, then the authority, then the path.\<close>

definition parse_rest :: "string \<Rightarrow> string \<Rightarrow> url option" where
  "parse_rest scheme rest0 =
     (let rest = cut_before (CHR ''?'') rest0; q = cut_after (CHR ''?'') rest0 in
      if \<not> HasPrefix rest ''/'' \<and> scheme \<noteq> [] then
        Some \<lparr>u_Scheme = scheme, u_Host = [], u_Path = [], u_RawQuery = q\<rparr>
      else if \<not> HasPrefix rest ''/'' \<and> CHR '':'' \<in> set (cut_before (CHR ''/'') rest) then None
      else if (scheme \<noteq> [] \<or> \<not> HasPrefix rest ''///'') \<and> HasPrefix rest ''//'' then
        let auth = cut_before (CHR ''/'') (drop 2 rest); p = dropWhile (\<lambda>c. c \<noteq> CHR ''/'') (drop 2 rest) in
        (case (parseAuthority auth, unescape_path p) of
           (Some h, Some d) \<Rightarrow> Some \<lparr>u_Scheme = scheme, u_Host = h, u_Path = d, u_RawQuery = q\<rparr>
         | _ \<Rightarrow> None)
      else map_option (\<lambda>d. \<lparr>u_Scheme = scheme, u_Host = [], u_Path = d, u_RawQuery = q\<rparr>) (unescape_path rest))"

definition url_Parse :: "string \<Rightarrow> err + url" where
  "url_Parse raw =
     (let u = cut_before (CHR ''#'') raw in
      if list_ex control u then Inl url_err
      else if u = ''*'' then
        (if unescape_path (cut_after (CHR ''#'') raw) = None then Inl url_err
         else Inr \<lparr>u_Scheme = [], u_Host = [], u_Path = ''*'', u_RawQuery = []\<rparr>)
      else case getScheme u of
        None \<Rightarrow> Inl url_err
      | Some (scheme, rest) \<Rightarrow>
          (case parse_rest (map to_lower scheme) rest of
             None \<Rightarrow> Inl url_err
           | Some r \<Rightarrow> if unescape_path (cut_after (CHR ''#'') raw) = None then Inl url_err else Inr r))"

text \<open>\<open>http.NewRequest\<close> drops an empty port.\<close>

definition removeEmptyPort :: "string \<Rightarrow> string" where
  "removeEmptyPort h =
     (if CHR '':'' \<in> set h \<and> CHR '']'' \<notin> set (after_last (CHR '':'') h) then TrimSuffix h '':'' else h)"

subsection \<open>Values\<close>

type_synonym url_values = "(string \<times> string) list"

definition set_value :: "string \<Rightarrow> string \<Rightarrow> url_values \<Rightarrow> url_values" where
  "set_value k v q = filter (\<lambda>(k', _). k' \<noteq> k) q @ [(k, v)]"

definition Encode :: "url_values \<Rightarrow> string" where
  "Encode q = join_with (CHR ''&'') (map (\<lambda>(k, v). QueryEscape k @ CHR ''='' # QueryEscape v) (sort_key fst q))"

end
