(* ===== verification/S3.thy ===== *)
theory S3
  imports Sync GoUrl
begin

unbundle bit_operations_syntax

section \<open>S3 object stores (internal/remote/s3.go)\<close>

text \<open>
  An object store behind HTTP requests signed with AWS Signature Version 4. The HTTP client and
  the decoding of a listing's XML are parameters; URLs, query values, the signature with HMAC
  over the hash parameter, and the operations with all their error returns are the source's. A
  listing follows continuation tokens for as long as the service gives them, so it is a partial
  function.
\<close>

subsection \<open>HTTP\<close>

record http_request =
  hr_Method :: string
  hr_URL :: string
  hr_Header :: "(string \<times> string) list"
  hr_Body :: bytes

text \<open>An answer: what reading its body gives before it ends, with an error or without.\<close>

record http_response =
  hs_StatusCode :: int
  hs_Status :: string
  hs_Body :: bytes
  hs_BodyErr :: "err option"

type_synonym 's http_client = "http_request \<Rightarrow> ('s, http_response) io"

definition set_header :: "string \<Rightarrow> string \<Rightarrow> http_request \<Rightarrow> http_request" where
  "set_header k v r = r\<lparr>hr_Header := filter (\<lambda>(k', _). k' \<noteq> k) (hr_Header r) @ [(k, v)]\<rparr>"

definition read_all :: "http_response \<Rightarrow> err + bytes" where
  "read_all r = (case hs_BodyErr r of None \<Rightarrow> Inr (hs_Body r) | Some e \<Rightarrow> Inl e)"

subsection \<open>Configuration\<close>

record 's s3_config =
  sc_Endpoint :: string
  sc_Region :: string
  sc_Bucket :: string
  sc_Prefix :: string
  sc_AccessKey :: string
  sc_SecretKey :: string
  sc_PathStyle :: bool
  sc_HTTP :: "'s http_client option"

record 's s3 =
  s3_cfg :: "'s s3_config"
  s3_host :: string
  s3_base :: string
  s3_client :: "'s http_client"

text \<open>\<open>dflt\<close> is the client with its default settings and a timeout of a minute.\<close>

definition NewS3 :: "'s http_client \<Rightarrow> 's s3_config \<Rightarrow> err + 's s3" where
  "NewS3 dflt cfg0 =
     (if sc_Bucket cfg0 = [] then Inl (Errorf ''bucket is required'' [] None)
      else
        let cfg1 = (if sc_Region cfg0 = [] then cfg0\<lparr>sc_Region := ''us-east-1''\<rparr> else cfg0);
            cfg2 = (if sc_Endpoint cfg1 = []
                    then cfg1\<lparr>sc_Endpoint := ''https://s3.'' @ sc_Region cfg1 @ ''.amazonaws.com''\<rparr> else cfg1);
            cl = (case sc_HTTP cfg2 of None \<Rightarrow> dflt | Some c \<Rightarrow> c);
            cfg = cfg2\<lparr>sc_HTTP := Some cl\<rparr>
        in case url_Parse (sc_Endpoint cfg) of
          Inl e \<Rightarrow> Inl e
        | Inr u \<Rightarrow>
            if sc_PathStyle cfg then
              Inr \<lparr>s3_cfg = cfg, s3_host = u_Host u, s3_base = sc_Endpoint cfg @ ''/'' @ sc_Bucket cfg, s3_client = cl\<rparr>
            else
              let host = sc_Bucket cfg @ ''.'' @ u_Host u in
              Inr \<lparr>s3_cfg = cfg, s3_host = host, s3_base = u_Scheme u @ ''://'' @ host, s3_client = cl\<rparr>)"

definition trim_slashes :: "string \<Rightarrow> string" where
  "trim_slashes s = rev (dropWhile (\<lambda>c. c = CHR ''/'') (rev s))"

definition s3_key :: "'s s3 \<Rightarrow> string \<Rightarrow> string" where
  "s3_key s k =
     (if sc_Prefix (s3_cfg s) = [] then k else trim_slashes (sc_Prefix (s3_cfg s)) @ ''/'' @ k)"

subsection \<open>Signing\<close>

definition uriEncodeSegment :: "string \<Rightarrow> string" where
  "uriEncodeSegment s = concat (map (\<lambda>c. if unreserved c then [c] else percent c) s)"

definition uriEncodePath :: "string \<Rightarrow> string" where
  "uriEncodePath p = join_with (CHR ''/'') (map uriEncodeSegment (split_on (CHR ''/'') p))"

definition xor_byte :: "nat \<Rightarrow> char \<Rightarrow> char" where
  "xor_byte n c = char_of (of_char c XOR n)"

text \<open>HMAC over blocks of 64 bytes.\<close>

definition hmac_key :: "hasher \<Rightarrow> bytes \<Rightarrow> bytes" where
  "hmac_key sha key =
     (let k = (if 64 < length key then sha key else key) in k @ replicate (64 - length k) (CHR 0x00))"

definition hmacSHA256 :: "hasher \<Rightarrow> bytes \<Rightarrow> string \<Rightarrow> bytes" where
  "hmacSHA256 sha key data =
     sha (map (xor_byte 0x5C) (hmac_key sha key) @ sha (map (xor_byte 0x36) (hmac_key sha key) @ data))"

definition sha256hex :: "hasher \<Rightarrow> bytes \<Rightarrow> string" where
  "sha256hex sha b = hex_encode (sha b)"

text \<open>\<open>Format("20060102")\<close> and \<open>Format("20060102T150405Z")\<close>.\<close>

definition date_stamp :: "time \<Rightarrow> string" where
  "date_stamp t = pad 4 (t_year t) @ pad 2 (t_month t) @ pad 2 (t_day t)"

definition amz_date :: "time \<Rightarrow> string" where
  "amz_date t = date_stamp t @ ''T'' @ pad 2 (t_hour t) @ pad 2 (t_min t) @ pad 2 (t_sec t) @ ''Z''"

definition lf :: string where
  "lf = [CHR 0x0A]"

text \<open>\<open>urlHost\<close> is \<open>req.URL.Host\<close>, \<open>now\<close> the time read.\<close>

definition sign :: "hasher \<Rightarrow> 's s3 \<Rightarrow> time \<Rightarrow> string \<Rightarrow> http_request \<Rightarrow> string \<Rightarrow> url_values \<Rightarrow> bytes \<Rightarrow> http_request" where
  "sign sha s now urlHost req canonicalPath query body =
     (let amzDate = amz_date now;
          dateStamp = date_stamp now;
          payloadHash = sha256hex sha body;
          host = (if sc_PathStyle (s3_cfg s) then urlHost else s3_host s);
          req1 = set_header ''X-Amz-Content-Sha256'' payloadHash
                   (set_header ''X-Amz-Date'' amzDate (set_header ''Host'' host req));
          signedHeaders = ''host;x-amz-content-sha256;x-amz-date'';
          canonicalHeaders = ''host:'' @ host @ lf @ ''x-amz-content-sha256:'' @ payloadHash @ lf @
            ''x-amz-date:'' @ amzDate @ lf;
          canonicalQuery = (if query \<noteq> [] then Encode query else []);
          canonicalURI = uriEncodePath canonicalPath;
          canonicalRequest = hr_Method req @ lf @ canonicalURI @ lf @ canonicalQuery @ lf @
            canonicalHeaders @ lf @ signedHeaders @ lf @ payloadHash;
          scope = dateStamp @ ''/'' @ sc_Region (s3_cfg s) @ ''/s3/aws4_request'';
          stringToSign = ''AWS4-HMAC-SHA256'' @ lf @ amzDate @ lf @ scope @ lf @ sha256hex sha canonicalRequest;
          kDate = hmacSHA256 sha (''AWS4'' @ sc_SecretKey (s3_cfg s)) dateStamp;
          kRegion = hmacSHA256 sha kDate (sc_Region (s3_cfg s));
          kService = hmacSHA256 sha kRegion ''s3'';
          kSigning = hmacSHA256 sha kService ''aws4_request'';
          signature = hex_encode (hmacSHA256 sha kSigning stringToSign)
      in set_header ''Authorization''
           (''AWS4-HMAC-SHA256 Credential='' @ sc_AccessKey (s3_cfg s) @ ''/'' @ scope @
            '', SignedHeaders='' @ signedHeaders @ '', Signature='' @ signature) req1)"

subsection \<open>Requests\<close>

definition raw_url :: "'s s3 \<Rightarrow> string \<Rightarrow> url_values \<Rightarrow> string" where
  "raw_url s p query =
     (let raw = (if sc_PathStyle (s3_cfg s) \<and> p = ''/'' @ sc_Bucket (s3_cfg s)
                 then sc_Endpoint (s3_cfg s) @ p else s3_base s @ p)
      in if query \<noteq> [] then raw @ ''?'' @ Encode query else raw)"

definition s3_do :: "hasher \<Rightarrow> 'z eworld_scheme s3 \<Rightarrow> string \<Rightarrow> string \<Rightarrow> url_values \<Rightarrow> bytes \<Rightarrow> ('z eworld_scheme, http_response) io" where
  "s3_do sha s verb p query body =
     bindE (lift_res (url_Parse (raw_url s p query))) (\<lambda>u.
     bindE time_now (\<lambda>now.
       s3_client s (sign sha s now (removeEmptyPort (u_Host u))
         \<lparr>hr_Method = verb, hr_URL = raw_url s p query, hr_Header = [], hr_Body = body\<rparr> p query body)))"

definition httpErr :: "string \<Rightarrow> http_response \<Rightarrow> err" where
  "httpErr what resp = Errorf ''%s: %s: %s'' [what, hs_Status resp, TrimSpace (take 2048 (hs_Body resp))] None"

definition s3_Put :: "hasher \<Rightarrow> 'z eworld_scheme s3 \<Rightarrow> string \<Rightarrow> bytes \<Rightarrow> ('z eworld_scheme, unit) io" where
  "s3_Put sha s key data =
     bindE (s3_do sha s ''PUT'' (''/'' @ s3_key s key) [] data) (\<lambda>resp.
       if hs_StatusCode resp div 100 \<noteq> 2 then fail (httpErr (''put '' @ key) resp) else ret ())"

definition s3_Get :: "hasher \<Rightarrow> 'z eworld_scheme s3 \<Rightarrow> string \<Rightarrow> ('z eworld_scheme, bytes) io" where
  "s3_Get sha s key =
     bindE (s3_do sha s ''GET'' (''/'' @ s3_key s key) [] []) (\<lambda>resp.
       if hs_StatusCode resp = 404 then fail ErrObjectNotFound
       else if hs_StatusCode resp div 100 \<noteq> 2 then fail (httpErr (''get '' @ key) resp)
       else lift_res (read_all resp))"

definition s3_Has :: "hasher \<Rightarrow> 'z eworld_scheme s3 \<Rightarrow> string \<Rightarrow> ('z eworld_scheme, bool) io" where
  "s3_Has sha s key =
     bindE (s3_do sha s ''HEAD'' (''/'' @ s3_key s key) [] []) (\<lambda>resp.
       if hs_StatusCode resp = 404 then ret False
       else if hs_StatusCode resp div 100 \<noteq> 2 then fail (httpErr (''head '' @ key) resp)
       else ret True)"

subsection \<open>Listing\<close>

record list_result =
  lr_Contents :: "string list"
  lr_IsTruncated :: bool
  lr_NextToken :: string

definition list_query :: "string \<Rightarrow> string \<Rightarrow> url_values" where
  "list_query full token =
     (let q = set_value ''prefix'' full (set_value ''list-type'' ''2'' []) in
      if token \<noteq> [] then set_value ''continuation-token'' token q else q)"

definition list_path :: "'s s3 \<Rightarrow> string" where
  "list_path s = (if sc_PathStyle (s3_cfg s) then ''/'' @ sc_Bucket (s3_cfg s) else ''/'')"

definition strip_key :: "'s s3 \<Rightarrow> string \<Rightarrow> string" where
  "strip_key s k =
     (let strip = trim_slashes (sc_Prefix (s3_cfg s)) in if strip \<noteq> [] then TrimPrefix k (strip @ ''/'') else k)"

partial_function (option) s3_list_from ::
  "hasher \<Rightarrow> (bytes \<Rightarrow> err + list_result) \<Rightarrow> 'z eworld_scheme s3 \<Rightarrow> string \<Rightarrow> string list \<Rightarrow> string \<Rightarrow>
    'z eworld_scheme \<Rightarrow> ((err + string list) \<times> 'z eworld_scheme) option" where
  "s3_list_from sha xml s p keys token w =
     (case s3_do sha s ''GET'' (list_path s) (list_query (s3_key s p) token) [] w of
        (Inl e, w') \<Rightarrow> Some (Inl e, w')
      | (Inr resp, w') \<Rightarrow>
          if hs_StatusCode resp div 100 \<noteq> 2
          then Some (Inl (Errorf ''list %s: %s: %s'' [p, hs_Status resp, TrimSpace (hs_Body resp)] None), w')
          else
            (case xml (hs_Body resp) of
               Inl e \<Rightarrow> Some (Inl e, w')
             | Inr lr \<Rightarrow>
                 let keys' = keys @ map (strip_key s) (lr_Contents lr) in
                 if \<not> lr_IsTruncated lr \<or> lr_NextToken lr = [] then Some (Inr (sort keys'), w')
                 else s3_list_from sha xml s p keys' (lr_NextToken lr) w'))"

definition s3_List :: "hasher \<Rightarrow> (bytes \<Rightarrow> err + list_result) \<Rightarrow> 'z eworld_scheme s3 \<Rightarrow> string \<Rightarrow>
    'z eworld_scheme \<Rightarrow> ((err + string list) \<times> 'z eworld_scheme) option" where
  "s3_List sha xml s p w = s3_list_from sha xml s p [] [] w"

definition S3Store :: "hasher \<Rightarrow> (bytes \<Rightarrow> err + list_result) \<Rightarrow> 'z eworld_scheme s3 \<Rightarrow> 'z eworld_scheme object_store" where
  "S3Store sha xml s = \<lparr>o_Put = s3_Put sha s, o_Get = s3_Get sha s, o_Has = s3_Has sha s, o_List = s3_List sha xml s\<rparr>"

end
