(* ===== verification/S3Props.thy ===== *)
theory S3Props
  imports S3
begin

text \<open>
  What is signed is the path byte by byte, escaped and without loss. A service that computes the
  signature from the request it receives, as the specification of Signature Version 4 has it,
  accepts what a store sends when the bucket is addressed by host, and then the store is a map from
  keys to bytes; with path-style addressing it refuses every operation on an object. A listing
  collects all pages.
\<close>

section \<open>Properties of the S3 store\<close>

subsection \<open>Escaped paths\<close>

lemma join_with_Cons: "ws \<noteq> [] \<Longrightarrow> join_with d (w # ws) = w @ d # join_with d ws"
  by (cases ws) auto

definition uri_byte :: "char \<Rightarrow> string" where
  "uri_byte c = (if unreserved c \<or> c = CHR ''/'' then [c] else percent c)"

lemma uriEncodePath_bytes: "uriEncodePath p = concat (map uri_byte p)"
proof (induction p)
  case Nil
  show ?case by (simp add: uriEncodePath_def uriEncodeSegment_def)
next
  case (Cons c cs)
  obtain w ws where w: "split_on (CHR ''/'') cs = w # ws" by (cases "split_on (CHR ''/'') cs") auto
  have u: "\<not> unreserved (CHR ''/'')" by (simp add: unreserved_def letter_def is_digit_def digit_val_def less_eq_char_def)
  show ?case
  proof (cases "c = CHR ''/''")
    case True
    with Cons show ?thesis
      by (simp add: uriEncodePath_def uri_byte_def join_with_Cons uriEncodeSegment_def)
  next
    case False
    have "uriEncodePath (c # cs) = (if unreserved c then [c] else percent c) @ uriEncodePath cs"
      using False w by (cases ws) (simp_all add: uriEncodePath_def uriEncodeSegment_def)
    with False Cons show ?thesis by (simp add: uri_byte_def)
  qed
qed

lemma char_range:
  "CHR ''a'' \<le> c \<and> c \<le> CHR ''f'' \<longleftrightarrow> 97 \<le> (of_char c :: nat) \<and> of_char c \<le> (102 :: nat)"
  "CHR ''A'' \<le> c \<and> c \<le> CHR ''F'' \<longleftrightarrow> 65 \<le> (of_char c :: nat) \<and> of_char c \<le> (70 :: nat)"
  by (simp_all add: less_eq_char_def)

lemma hex_up_unhex:
  assumes "n < 16"
  shows "unhex (hex_up n) = Some n"
proof (cases "n < 10")
  case True
  then show ?thesis by (simp add: unhex_def hex_up_def is_digit_def digit_val_def)
next
  case False
  with assms have "is_digit (hex_up n) = False" "(of_char (hex_up n) :: nat) = 55 + n"
    by (simp_all add: is_digit_def digit_val_def hex_up_def)
  with False assms show ?thesis by (simp add: unhex_def char_range)
qed

lemma unescape_percent:
  assumes "coded (of_char c)"
  shows "unescape coded plain (percent c @ s) = map_option ((#) c) (unescape coded plain s)"
proof -
  have n: "of_char c < (256 :: nat)" by (rule nat_of_char_less_256)
  then have "of_char c div 16 < (16 :: nat)" by (rule less_mult_imp_div_less [of _ 16 16, simplified])
  with assms show ?thesis by (simp add: percent_def hex_up_unhex)
qed

lemma percent_sign_reserved [simp]: "\<not> unreserved (CHR ''%'')"
  by (simp add: unreserved_def letter_def is_digit_def digit_val_def less_eq_char_def)

lemma unescape_bytes: "unescape_path (concat (map uri_byte p)) = Some p"
  unfolding unescape_path_def
proof (induction p)
  case (Cons c cs)
  show ?case
  proof (cases "unreserved c \<or> c = CHR ''/''")
    case True
    then have "c \<noteq> CHR ''%''" by auto
    with True Cons show ?thesis by (simp add: uri_byte_def)
  next
    case False
    with Cons show ?thesis by (simp add: uri_byte_def unescape_percent)
  qed
qed simp

lemma hex_up_unreserved:
  assumes "n < 16"
  shows "unreserved (hex_up n)"
proof (cases "n < 10")
  case True
  then show ?thesis by (simp add: unreserved_def hex_up_def is_digit_def digit_val_def)
next
  case False
  with assms show ?thesis by (simp add: unreserved_def letter_def hex_up_def less_eq_char_def)
qed

lemma uri_byte_bounds:
  "1 \<le> length (uri_byte c)" "length (uri_byte c) \<le> 3"
  "set (uri_byte c) \<subseteq> {c. unreserved c \<or> c = CHR ''/'' \<or> c = CHR ''%''}"
proof -
  have "of_char c div 16 < (16 :: nat)"
    using nat_of_char_less_256 [of c] by (rule less_mult_imp_div_less [of _ 16 16, simplified])
  then show "set (uri_byte c) \<subseteq> {c. unreserved c \<or> c = CHR ''/'' \<or> c = CHR ''%''}"
    by (simp add: uri_byte_def percent_def hex_up_unreserved)
qed (simp_all add: uri_byte_def percent_def)

text \<open>
  Property C29. The path that is signed loses nothing: undoing the escapes of \<open>uriEncodePath\<close> gives the
  path back, for every byte string.
\<close>

theorem uriEncodePath_decodes: "unescape_path (uriEncodePath p) = Some p"
  by (simp add: uriEncodePath_bytes unescape_bytes)

text \<open>
  Property C30. An escaped path holds only unreserved bytes, slashes and percent signs, and is at least as
  long as the path and at most three times as long.
\<close>

theorem uriEncodePath_bounds:
  "length p \<le> length (uriEncodePath p) \<and> length (uriEncodePath p) \<le> 3 * length p \<and>
   set (uriEncodePath p) \<subseteq> {c. unreserved c \<or> c = CHR ''/'' \<or> c = CHR ''%''}"
proof -
  let ?S = "{c. unreserved c \<or> c = CHR ''/'' \<or> c = CHR ''%''}"
  have "length p \<le> length (concat (map uri_byte p)) \<and> length (concat (map uri_byte p)) \<le> 3 * length p \<and>
      set (concat (map uri_byte p)) \<subseteq> ?S"
  proof (induction p)
    case (Cons c cs)
    have "set (uri_byte c) \<union> set (concat (map uri_byte cs)) \<subseteq> ?S"
      using Cons uri_byte_bounds(3) [of c] by blast
    with Cons uri_byte_bounds(1,2) [of c] show ?case by simp
  qed simp
  then show ?thesis by (simp only: uriEncodePath_bytes)
qed

subsection \<open>Parsing the URLs of a store\<close>

definition plain_host :: "string \<Rightarrow> bool" where
  "plain_host h \<longleftrightarrow> list_all unreserved (cut_before (CHR '':'') h) \<and>
     (CHR '':'' \<in> set h \<longrightarrow> cut_after (CHR '':'') h \<noteq> [] \<and> list_all is_digit (cut_after (CHR '':'') h))"

definition plain_path :: "string \<Rightarrow> bool" where
  "plain_path p \<longleftrightarrow> list_all (\<lambda>c. unreserved c \<or> c = CHR ''/'') p"

lemma unreserved_not:
  assumes "unreserved c"
  shows "c \<notin> {CHR ''/'', CHR '':'', CHR ''?'', CHR ''#'', CHR ''@'', CHR ''['', CHR '']'', CHR ''%'', CHR ''*''}" "\<not> control c" "host_plain c"
proof -
  have n: "(of_char c :: nat) \<noteq> 47 \<and> (of_char c :: nat) \<noteq> 58 \<and> (of_char c :: nat) \<noteq> 63 \<and> (of_char c :: nat) \<noteq> 35 \<and>
      (of_char c :: nat) \<noteq> 64 \<and> (of_char c :: nat) \<noteq> 91 \<and> (of_char c :: nat) \<noteq> 93 \<and> (of_char c :: nat) \<noteq> 37 \<and>
      (of_char c :: nat) \<noteq> 42 \<and> (of_char c :: nat) \<ge> 32 \<and> (of_char c :: nat) \<noteq> 127"
    using assms
    by (auto simp: unreserved_def letter_def is_digit_def digit_val_def less_eq_char_def Let_def split: if_splits)
  then show "c \<notin> {CHR ''/'', CHR '':'', CHR ''?'', CHR ''#'', CHR ''@'', CHR ''['', CHR '']'', CHR ''%'', CHR ''*''}" "\<not> control c"
    by (auto simp: control_def)
  show "host_plain c" using assms by (simp add: host_plain_def)
qed

lemma plain_host_chars:
  assumes "plain_host h" "c \<in> set h"
  shows "unreserved c \<or> c = CHR '':''"
proof -
  have "h = cut_before (CHR '':'') h @ dropWhile (\<lambda>c. c \<noteq> CHR '':'') h" by (simp add: cut_before_def)
  moreover have "dropWhile (\<lambda>c. c \<noteq> CHR '':'') h = [] \<or> dropWhile (\<lambda>c. c \<noteq> CHR '':'') h = CHR '':'' # cut_after (CHR '':'') h"
    by (induction h) (auto simp: cut_after_def cut_before_def)
  ultimately consider "c \<in> set (cut_before (CHR '':'') h)" | "c = CHR '':''" | "CHR '':'' \<in> set h" "c \<in> set (cut_after (CHR '':'') h)"
    using assms(2) by (metis Un_iff append.right_neutral in_set_conv_decomp set_ConsD set_append)
  then show ?thesis
    using assms(1) by cases (auto simp: plain_host_def list_all_iff unreserved_def)
qed

lemma takeWhile_all: "(\<And>c. c \<in> set s \<Longrightarrow> P c) \<Longrightarrow> takeWhile P s = s" for s :: string
  by (simp add: takeWhile_eq_all_conv)

lemma cut_before_none: "d \<notin> set s \<Longrightarrow> cut_before d s = s"
  by (auto simp: cut_before_def takeWhile_eq_all_conv)

lemma cut_after_none: "d \<notin> set s \<Longrightarrow> cut_after d s = []"
  by (simp add: cut_after_def cut_before_none)

lemma cut_at:
  assumes "d \<notin> set s"
  shows "cut_before d (s @ d # r) = s" "cut_after d (s @ d # r) = r"
  using assms by (auto simp: cut_after_def cut_before_def takeWhile_append takeWhile_eq_all_conv)

lemma after_last_none:
  assumes "d \<notin> set s"
  shows "after_last d s = s"
proof -
  from assms have "takeWhile (\<lambda>c. c \<noteq> d) (rev s) = rev s" by (intro takeWhile_all) auto
  then show ?thesis unfolding after_last_def by (simp only: rev_rev_ident)
qed

lemma after_last_single:
  assumes "d \<notin> set b"
  shows "after_last d (a @ d # b) = b"
  using assms by (simp add: after_last_def takeWhile_append takeWhile_all)

lemma unescape_plain: "(\<And>c. c \<in> set s \<Longrightarrow> c \<noteq> CHR ''%'' \<and> plain c) \<Longrightarrow> unescape coded plain s = Some s"
  by (induction s) auto

lemma plain_host_not:
  assumes "plain_host h" and "c \<in> set h"
  shows "c \<notin> {CHR ''/'', CHR ''?'', CHR ''#'', CHR ''@'', CHR ''['', CHR '']'', CHR ''%'', CHR ''*''}" "\<not> control c" "host_plain c"
  using plain_host_chars [OF assms] unreserved_not [of c]
  by (auto simp: control_def host_plain_def)

lemma parseHost_plain:
  assumes "plain_host h"
  shows "parseHost h = Some h"
proof -
  have a: "unescape_host h = Some h"
    unfolding unescape_host_def using plain_host_not [OF assms] by (intro unescape_plain) blast
  have b: "\<not> HasPrefix h ''[''" using plain_host_not(1) [OF assms, of "CHR ''[''"] by (auto simp: HasPrefix_iff)
  have "list_all is_digit (after_last (CHR '':'') h)" if c: "CHR '':'' \<in> set h"
  proof -
    from c have "h = cut_before (CHR '':'') h @ CHR '':'' # cut_after (CHR '':'') h"
      unfolding cut_before_def cut_after_def by (induction h) auto
    moreover from assms c have d: "list_all is_digit (cut_after (CHR '':'') h)" by (simp add: plain_host_def)
    moreover from d have "CHR '':'' \<notin> set (cut_after (CHR '':'') h)"
      by (auto simp: list_all_iff is_digit_def digit_val_def)
    ultimately show ?thesis by (metis after_last_single)
  qed
  with a b show ?thesis by (auto simp: parseHost_def)
qed

lemma parseAuthority_plain:
  assumes "plain_host h"
  shows "parseAuthority h = Some h"
proof -
  have "CHR ''@'' \<notin> set h" using plain_host_not(1) [OF assms] by blast
  then show ?thesis by (simp add: parseAuthority_def after_last_none parseHost_plain [OF assms])
qed

lemma plain_path_not:
  assumes "plain_path p" and "c \<in> set p"
  shows "c \<notin> {CHR ''?'', CHR ''#'', CHR ''%''}" "\<not> control c"
proof -
  from assms have "unreserved c \<or> c = CHR ''/''" by (simp add: plain_path_def list_all_iff)
  then show "c \<notin> {CHR ''?'', CHR ''#'', CHR ''%''}" "\<not> control c"
    using unreserved_not [of c] by (auto simp: control_def)
qed

lemma getScheme_https: "getScheme (''https:'' @ r) = Some (''https'', r)"
  by (simp add: getScheme_def scheme_char_def letter_def is_digit_def digit_val_def less_eq_char_def)

lemma url_Parse_https_query:
  assumes h: "plain_host h" and p: "plain_path p" "p = [] \<or> hd p = CHR ''/''"
    and q: "\<And>c. c \<in> set q \<Longrightarrow> c \<noteq> CHR ''#'' \<and> \<not> control c"
    and t: "t = [] \<and> q = [] \<or> t = CHR ''?'' # q"
  shows "url_Parse (''https://'' @ h @ p @ t) = Inr \<lparr>u_Scheme = ''https'', u_Host = h, u_Path = p, u_RawQuery = q\<rparr>"
proof -
  let ?v = "''//'' @ h @ p" and ?u = "''https://'' @ h @ p @ t"
  have c': "c \<noteq> CHR ''#'' \<and> c \<noteq> CHR ''?'' \<and> \<not> control c" if "c \<in> set ?v" for c
  proof -
    from that consider "c \<in> set ''//''" | "c \<in> set h" | "c \<in> set p" by auto
    then show ?thesis
    proof cases
      case 1
      then show ?thesis by (auto simp: control_def)
    next
      case 2
      from plain_host_not [OF h this] show ?thesis by blast
    next
      case 3
      from plain_path_not [OF p(1) this] show ?thesis by blast
    qed
  qed
  have tc: "c \<noteq> CHR ''#'' \<and> \<not> control c" if "c \<in> set t" for c
  proof -
    from that t consider "c = CHR ''?''" | "c \<in> set q" by auto
    then show ?thesis by cases (simp add: control_def, rule q)
  qed
  have all: "c \<noteq> CHR ''#'' \<and> \<not> control c" if "c \<in> set ?u" for c
  proof -
    from that consider "c \<in> set ''https:''" | "c \<in> set ?v" | "c \<in> set t" by auto
    then show ?thesis
    proof cases
      case 1
      then show ?thesis by (auto simp: control_def)
    next
      case 2
      from c' [OF this] show ?thesis by blast
    next
      case 3
      from tc [OF this] show ?thesis .
    qed
  qed
  then have c1: "CHR ''#'' \<notin> set ?u" by blast
  have cut: "cut_before (CHR ''#'') ?u = ?u" "cut_after (CHR ''#'') ?u = []"
    by (rule cut_before_none [OF c1], rule cut_after_none [OF c1])
  have no: "\<not> list_ex control ?u" using all unfolding list_ex_iff by blast
  have c2: "CHR ''?'' \<notin> set ?v" using c' by blast
  have q: "cut_before (CHR ''?'') (?v @ t) = ?v" "cut_after (CHR ''?'') (?v @ t) = q"
    using cut_at [OF c2, of q] cut_before_none [OF c2] cut_after_none [OF c2] t by auto
  have slash: "CHR ''/'' \<notin> set h" using plain_host_not(1) [OF h] by blast
  then have auth: "cut_before (CHR ''/'') (h @ p) = h" "dropWhile (\<lambda>c. c \<noteq> CHR ''/'') (h @ p) = p"
    using p(2) by (cases p; simp add: cut_before_def takeWhile_append dropWhile_append takeWhile_eq_all_conv; blast)+
  have path: "unescape_path p = Some p"
    unfolding unescape_path_def using plain_path_not(1) [OF p(1)] by (intro unescape_plain) blast
  have r: "parse_rest ''https'' (?v @ t) = Some \<lparr>u_Scheme = ''https'', u_Host = h, u_Path = p, u_RawQuery = q\<rparr>"
    unfolding parse_rest_def Let_def q
    using auth parseAuthority_plain [OF h] path by (simp add: HasPrefix_def)
  have l: "map to_lower ''https'' = ''https''" by (simp add: to_lower_def less_eq_char_def)
  have e: "unescape_path [] = Some []" by (simp add: unescape_path_def)
  show ?thesis
    unfolding url_Parse_def cut Let_def using no r l e getScheme_https [of "?v @ t"] by simp
qed

lemma url_Parse_https:
  assumes "plain_host h" and "plain_path p" "p = [] \<or> hd p = CHR ''/''"
  shows "url_Parse (''https://'' @ h @ p) = Inr \<lparr>u_Scheme = ''https'', u_Host = h, u_Path = p, u_RawQuery = []\<rparr>"
  using url_Parse_https_query [OF assms, of "[]" "[]"] by simp

subsection \<open>A service that checks signatures\<close>

text \<open>
  What the service does with a request, after the documentation of Signature Version 4 and of
  addressing: it computes the signature from what was sent, where the path to be signed is the
  path of the request and its query is decoded, sorted by name and escaped again; it refuses a
  request signed otherwise with 403, and finds the object by the host (\<open>bucket.zone\<close>) or by the
  first element of the path (\<open>zone/bucket\<close>). A GET of the bucket with \<open>list-type=2\<close> lists the keys under
  the \<open>prefix\<close> it is asked for, \<open>a_page\<close> of them at a time, from where \<open>continuation-token\<close> says; the tokens
  and the XML of a page are the service's own. Its objects are part of the world.
\<close>

record sworld = eworld +
  objects :: "string \<rightharpoonup> bytes"

definition header :: "string \<Rightarrow> http_request \<Rightarrow> string" where
  "header k req = (case map_of (hr_Header req) k of None \<Rightarrow> [] | Some v \<Rightarrow> v)"

text \<open>The parameters of a query and the text of them that is signed.\<close>

definition query_text :: "string \<Rightarrow> string" where
  "query_text t =
     (case unescape_path (map (\<lambda>c. if c = CHR ''+'' then CHR '' '' else c) t) of None \<Rightarrow> t | Some v \<Rightarrow> v)"

definition query_params :: "string \<Rightarrow> (string \<times> string) list" where
  "query_params raw =
     (if raw = [] then []
      else map (\<lambda>t. (query_text (cut_before (CHR ''='') t), query_text (cut_after (CHR ''='') t))) (split_on (CHR ''&'') raw))"

definition query_enc :: "string \<Rightarrow> string" where
  "query_enc v = concat (map (\<lambda>c. if unreserved c then [c] else percent c) v)"

definition canonical_query :: "(string \<times> string) list \<Rightarrow> string" where
  "canonical_query ps =
     join_with (CHR ''&'') (map (\<lambda>(k, v). k @ ''='' @ v) (sort_key fst (map (map_prod query_enc query_enc) ps)))"

definition canonical_request :: "string \<Rightarrow> string \<Rightarrow> string \<Rightarrow> string \<Rightarrow> string \<Rightarrow> string \<Rightarrow> string" where
  "canonical_request verb uri query host date payload =
     join_with (CHR 0x0A) [verb, uri, query, ''host:'' @ host, ''x-amz-content-sha256:'' @ payload, ''x-amz-date:'' @ date, [],
       ''host;x-amz-content-sha256;x-amz-date'', payload]"

definition credential_scope :: "string \<Rightarrow> string \<Rightarrow> string" where
  "credential_scope region date = take 8 date @ ''/'' @ region @ ''/s3/aws4_request''"

definition string_to_sign :: "hasher \<Rightarrow> string \<Rightarrow> string \<Rightarrow> string \<Rightarrow> string" where
  "string_to_sign sha region date creq =
     join_with (CHR 0x0A) [''AWS4-HMAC-SHA256'', date, credential_scope region date, hashOf sha creq]"

definition signing_key :: "hasher \<Rightarrow> string \<Rightarrow> string \<Rightarrow> string \<Rightarrow> bytes" where
  "signing_key sha secret region date =
     foldl (hmacSHA256 sha) (''AWS4'' @ secret) [take 8 date, region, ''s3'', ''aws4_request'']"

definition signature_of :: "hasher \<Rightarrow> string \<Rightarrow> string \<Rightarrow> string \<Rightarrow> string \<Rightarrow> string" where
  "signature_of sha secret region date creq =
     hex_encode (hmacSHA256 sha (signing_key sha secret region date) (string_to_sign sha region date creq))"

definition authorization :: "hasher \<Rightarrow> string \<Rightarrow> string \<Rightarrow> string \<Rightarrow> string \<Rightarrow> string \<Rightarrow> string" where
  "authorization sha access secret region date creq =
     ''AWS4-HMAC-SHA256 Credential='' @ access @ ''/'' @ credential_scope region date @
     '', SignedHeaders=host;x-amz-content-sha256;x-amz-date, Signature='' @ signature_of sha secret region date creq"

record account =
  a_access :: string
  a_secret :: string
  a_region :: string
  a_bucket :: string
  a_zone :: string
  a_page :: nat
  a_token :: "nat \<Rightarrow> string"
  a_render :: "list_result \<Rightarrow> bytes"

definition sent_request :: "hasher \<Rightarrow> http_request \<Rightarrow> url \<Rightarrow> string" where
  "sent_request sha req u =
     canonical_request (hr_Method req) (concat (map uri_byte (u_Path u))) (canonical_query (query_params (u_RawQuery u))) (u_Host u) (header ''X-Amz-Date'' req)
       (hashOf sha (hr_Body req))"

definition accepts :: "hasher \<Rightarrow> account \<Rightarrow> http_request \<Rightarrow> url \<Rightarrow> bool" where
  "accepts sha a req u \<longleftrightarrow>
     header ''Authorization'' req =
       authorization sha (a_access a) (a_secret a) (a_region a) (header ''X-Amz-Date'' req) (sent_request sha req u)"

definition object_of :: "account \<Rightarrow> url \<Rightarrow> string option" where
  "object_of a u =
     (if u_Host u = a_bucket a @ ''.'' @ a_zone a \<and> HasPrefix (u_Path u) ''/'' then Some (drop 1 (u_Path u))
      else if u_Host u = a_zone a \<and> HasPrefix (u_Path u) (''/'' @ a_bucket a @ ''/'')
      then Some (drop (length (a_bucket a) + 2) (u_Path u))
      else None)"

definition answer :: "int \<Rightarrow> bytes \<Rightarrow> http_response" where
  "answer code b = \<lparr>hs_StatusCode = code, hs_Status = itoa code, hs_Body = b, hs_BodyErr = None\<rparr>"

text \<open>The bucket a URL names, and the page of a listing that a query asks for.\<close>

definition names_bucket :: "account \<Rightarrow> url \<Rightarrow> bool" where
  "names_bucket a u \<longleftrightarrow>
     u_Host u = a_bucket a @ ''.'' @ a_zone a \<and> u_Path u \<in> {[], ''/''} \<or>
     u_Host u = a_zone a \<and> u_Path u \<in> {''/'' @ a_bucket a, ''/'' @ a_bucket a @ ''/''}"

definition listed :: "(string \<rightharpoonup> bytes) \<Rightarrow> string \<Rightarrow> string list" where
  "listed objs p = sorted_list_of_set {k \<in> dom objs. HasPrefix k p}"

definition page :: "account \<Rightarrow> string list \<Rightarrow> nat \<Rightarrow> list_result" where
  "page a ks i =
     (let more = Suc i * a_page a < length ks in
      \<lparr>lr_Contents = take (a_page a) (drop (i * a_page a) ks), lr_IsTruncated = more,
       lr_NextToken = (if more then a_token a (Suc i) else [])\<rparr>)"

definition page_asked :: "account \<Rightarrow> string list \<Rightarrow> string option \<Rightarrow> nat option" where
  "page_asked a ks t =
     (case t of None \<Rightarrow> Some 0 | Some tok \<Rightarrow> find (\<lambda>i. a_token a i = tok) [0..<length ks])"

definition answer_listing :: "account \<Rightarrow> (string \<rightharpoonup> bytes) \<Rightarrow> (string \<times> string) list \<Rightarrow> http_response" where
  "answer_listing a objs ps =
     (let ks = listed objs (case map_of ps ''prefix'' of None \<Rightarrow> [] | Some p \<Rightarrow> p) in
      case page_asked a ks (map_of ps ''continuation-token'') of
        None \<Rightarrow> answer 400 ''InvalidArgument''
      | Some i \<Rightarrow> answer 200 (a_render a (page a ks i)))"

definition service :: "hasher \<Rightarrow> account \<Rightarrow> 'z sworld_scheme http_client" where
  "service sha a req w =
     (case url_Parse (hr_URL req) of
        Inl e \<Rightarrow> (Inr (answer 400 []), w)
      | Inr u \<Rightarrow>
          if \<not> accepts sha a req u then (Inr (answer 403 ''SignatureDoesNotMatch''), w)
          else if hr_Method req = ''GET'' \<and> names_bucket a u \<and> map_of (query_params (u_RawQuery u)) ''list-type'' = Some ''2''
          then (Inr (answer_listing a (objects w) (query_params (u_RawQuery u))), w)
          else case object_of a u of
            None \<Rightarrow> (Inr (answer 404 []), w)
          | Some k \<Rightarrow>
              if hr_Method req = ''PUT'' then (Inr (answer 200 []), w\<lparr>objects := (objects w)(k \<mapsto> hr_Body req)\<rparr>)
              else (Inr (case objects w k of None \<Rightarrow> answer 404 []
                         | Some d \<Rightarrow> answer 200 (if hr_Method req = ''HEAD'' then [] else d)), w))"

subsection \<open>What a store signs\<close>

lemma header_set: "header k (set_header k' v r) = (if k = k' then v else header k r)"
proof -
  have "map_of (filter (\<lambda>(k'', _). k'' \<noteq> k') xs @ [(k', v)]) k = (if k = k' then Some v else map_of xs k)" for xs
    by (induction xs) auto
  then show ?thesis by (simp add: header_def set_header_def)
qed

lemma set_header_simps [simp]:
  "hr_Method (set_header k v r) = hr_Method r" "hr_URL (set_header k v r) = hr_URL r" "hr_Body (set_header k v r) = hr_Body r"
  by (simp_all add: set_header_def)

lemma sign_keeps [simp]:
  "hr_Method (sign sha s now h req p q b) = hr_Method req" "hr_URL (sign sha s now h req p q b) = hr_URL req"
  "hr_Body (sign sha s now h req p q b) = hr_Body req"
  by (simp_all add: sign_def Let_def)

lemma sign_date: "header ''X-Amz-Date'' (sign sha s now h req p q b) = amz_date now"
  by (simp add: sign_def Let_def header_set)

lemma take_amz_date: "take 8 (amz_date now) = date_stamp now"
  by (simp add: amz_date_def date_stamp_def)

lemma sign_authorization:
  "header ''Authorization'' (sign sha s now h req p q b) =
     authorization sha (sc_AccessKey (s3_cfg s)) (sc_SecretKey (s3_cfg s)) (sc_Region (s3_cfg s)) (amz_date now)
       (canonical_request (hr_Method req) (concat (map uri_byte p)) (if q = [] then [] else Encode q)
         (if sc_PathStyle (s3_cfg s) then h else s3_host s)
         (amz_date now) (hashOf sha b))"
  by (simp add: sign_def Let_def header_set authorization_def signature_of_def signing_key_def string_to_sign_def
      credential_scope_def canonical_request_def take_amz_date uriEncodePath_bytes lf_def sha256hex_def hashOf_def)

definition config_for :: "hasher \<Rightarrow> account \<Rightarrow> string \<Rightarrow> bool \<Rightarrow> 'z sworld_scheme s3_config" where
  "config_for sha a pfx ps = \<lparr>sc_Endpoint = ''https://'' @ a_zone a, sc_Region = a_region a, sc_Bucket = a_bucket a,
     sc_Prefix = pfx, sc_AccessKey = a_access a, sc_SecretKey = a_secret a, sc_PathStyle = ps, sc_HTTP = Some (service sha a)\<rparr>"

definition plain_account :: "account \<Rightarrow> bool" where
  "plain_account a \<longleftrightarrow> plain_host (a_zone a) \<and> a_bucket a \<noteq> [] \<and> list_all unreserved (a_bucket a) \<and> a_region a \<noteq> []"

lemma NewS3_for:
  assumes "plain_account a"
  shows "NewS3 dflt (config_for sha a pfx ps) = Inr \<lparr>s3_cfg = config_for sha a pfx ps,
     s3_host = (if ps then a_zone a else a_bucket a @ ''.'' @ a_zone a),
     s3_base = (if ps then ''https://'' @ a_zone a @ ''/'' @ a_bucket a else ''https://'' @ a_bucket a @ ''.'' @ a_zone a),
     s3_client = service sha a\<rparr>"
proof -
  have "url_Parse (''https://'' @ a_zone a @ []) = Inr \<lparr>u_Scheme = ''https'', u_Host = a_zone a, u_Path = [], u_RawQuery = []\<rparr>"
    using assms by (intro url_Parse_https) (simp_all add: plain_account_def plain_path_def)
  with assms show ?thesis by (simp add: NewS3_def config_for_def plain_account_def Let_def)
qed

lemma NewS3_prefix:
  assumes "plain_account a" and "NewS3 dflt (config_for sha a pfx ps) = Inr s"
  shows "sc_Prefix (s3_cfg s) = pfx"
  using assms(2) unfolding NewS3_for [OF assms(1)] by (auto simp: config_for_def)

lemma plain_host_bucket:
  assumes "plain_account a"
  shows "plain_host (a_bucket a @ ''.'' @ a_zone a)"
proof -
  let ?b = "a_bucket a @ ''.''"
  have b: "c \<noteq> CHR '':''" "unreserved c" if "c \<in> set ?b" for c
  proof -
    have "unreserved (CHR ''.'')" by (simp add: unreserved_def)
    with that assms show "unreserved c" by (auto simp: plain_account_def list_all_iff)
    from unreserved_not(1) [OF this] show "c \<noteq> CHR '':''" by blast
  qed
  then have "cut_before (CHR '':'') (?b @ a_zone a) = ?b @ cut_before (CHR '':'') (a_zone a)"
    "cut_after (CHR '':'') (?b @ a_zone a) = cut_after (CHR '':'') (a_zone a)"
    "CHR '':'' \<in> set (?b @ a_zone a) \<longleftrightarrow> CHR '':'' \<in> set (a_zone a)"
    unfolding cut_after_def cut_before_def takeWhile_append by auto
  moreover have "list_all unreserved ?b" using b(2) by (simp add: list_all_iff)
  ultimately have "plain_host (?b @ a_zone a)"
    using assms unfolding plain_account_def plain_host_def by (metis list_all_append)
  then show ?thesis by simp
qed

lemma removeEmptyPort_plain:
  assumes "plain_host h"
  shows "removeEmptyPort h = h"
proof (cases "HasSuffix h '':'' \<and> CHR '':'' \<in> set h")
  case True
  then obtain a where a: "h = a @ '':''" by (metis HasSuffix_def append_take_drop_id)
  show ?thesis
  proof (cases "CHR '':'' \<in> set a")
    case True
    then obtain x y where x: "a = x @ CHR '':'' # y" "CHR '':'' \<notin> set x" by (meson split_list_first)
    then have "takeWhile (\<lambda>c. c \<noteq> CHR '':'') h = x" unfolding a by (auto simp add: takeWhile_append takeWhile_eq_all_conv)
    then have "cut_after (CHR '':'') h = y @ '':''" unfolding a x(1) cut_after_def cut_before_def by simp
    with assms a show ?thesis by (auto simp: plain_host_def is_digit_def digit_val_def)
  next
    case False
    then have "cut_after (CHR '':'') h = []"
      unfolding a cut_after_def cut_before_def by (simp add: takeWhile_append takeWhile_eq_all_conv)
    with assms a show ?thesis by (simp add: plain_host_def)
  qed
next
  case False
  then show ?thesis by (auto simp: removeEmptyPort_def TrimSuffix_def)
qed

lemma s3_key_plain:
  assumes "plain_path (sc_Prefix (s3_cfg s))" and "plain_path k"
  shows "plain_path (s3_key s k)"
proof -
  have "set (trim_slashes p) \<subseteq> set p" for p
    unfolding trim_slashes_def using set_dropWhileD by fastforce
  with assms show ?thesis by (auto simp: s3_key_def plain_path_def list_all_iff)
qed

lemma s3_key_inject: "s3_key s k = s3_key s k' \<longleftrightarrow> k = k'"
  by (simp add: s3_key_def)

lemma no_query [simp]: "query_params [] = []" "canonical_query [] = []"
  by (simp_all add: query_params_def canonical_query_def)

text \<open>A request of a store that addresses its bucket by host is accepted.\<close>

lemma s3_do_accepted:
  assumes a: "plain_account a" and s: "NewS3 dflt (config_for sha a pfx False) = Inr s"
    and k: "plain_path k"
  obtains req where "s3_do sha s verb (''/'' @ k) [] body w = service sha a req (w\<lparr>clock_pos := Suc (clock_pos w)\<rparr>)"
    and "hr_Method req = verb" and "hr_Body req = body"
    and "url_Parse (hr_URL req) = Inr \<lparr>u_Scheme = ''https'', u_Host = a_bucket a @ ''.'' @ a_zone a, u_Path = ''/'' @ k, u_RawQuery = []\<rparr>"
    and "accepts sha a req \<lparr>u_Scheme = ''https'', u_Host = a_bucket a @ ''.'' @ a_zone a, u_Path = ''/'' @ k, u_RawQuery = []\<rparr>"
proof -
  let ?h = "a_bucket a @ ''.'' @ a_zone a"
  let ?u = "\<lparr>u_Scheme = ''https'', u_Host = ?h, u_Path = ''/'' @ k, u_RawQuery = []\<rparr>"
  let ?raw = "''https://'' @ ?h @ ''/'' @ k"
  have s': "s = \<lparr>s3_cfg = config_for sha a pfx False, s3_host = ?h, s3_base = ''https://'' @ ?h, s3_client = service sha a\<rparr>"
    using s NewS3_for [OF a, of dflt sha pfx False] by simp
  have u: "url_Parse ?raw = Inr ?u"
    using k by (intro url_Parse_https plain_host_bucket [OF a]) (simp_all add: plain_path_def)
  have raw: "raw_url s (''/'' @ k) [] = ?raw" by (simp add: raw_url_def s' config_for_def)
  let ?req = "sign sha s (clock w (clock_pos w)) (removeEmptyPort ?h)
    \<lparr>hr_Method = verb, hr_URL = ?raw, hr_Header = [], hr_Body = body\<rparr> (''/'' @ k) [] body"
  have d: "s3_do sha s verb (''/'' @ k) [] body w = service sha a ?req (w\<lparr>clock_pos := Suc (clock_pos w)\<rparr>)"
    unfolding s3_do_def raw u bindE_lift_res sum.case by (simp add: time_now_def io) (simp add: s')
  have "accepts sha a ?req ?u"
    unfolding accepts_def sign_authorization sign_date sent_request_def by (simp add: s' config_for_def no_query)
  with d u show ?thesis by (intro that [of ?req]) simp_all
qed

lemma s3_map:
  assumes "plain_account a" and "NewS3 dflt (config_for sha a pfx False) = Inr s"
    and "plain_path pfx" and "plain_path k"
  shows "s3_Put sha s k d w = (Inr (), w\<lparr>clock_pos := Suc (clock_pos w), objects := (objects w)(s3_key s k \<mapsto> d)\<rparr>) \<and>
    s3_Get sha s k w = ((case objects w (s3_key s k) of None \<Rightarrow> Inl ErrObjectNotFound | Some b \<Rightarrow> Inr b),
      w\<lparr>clock_pos := Suc (clock_pos w)\<rparr>) \<and>
    s3_Has sha s k w = (Inr (objects w (s3_key s k) \<noteq> None), w\<lparr>clock_pos := Suc (clock_pos w)\<rparr>) \<and> inj (s3_key s)"
proof -
  from NewS3_prefix [OF assms(1,2)] assms(3,4) have k: "plain_path (s3_key s k)" by (intro s3_key_plain) simp_all
  let ?u = "\<lparr>u_Scheme = ''https'', u_Host = a_bucket a @ ''.'' @ a_zone a, u_Path = ''/'' @ s3_key s k, u_RawQuery = []\<rparr>"
  have o: "object_of a ?u = Some (s3_key s k)" by (simp add: object_of_def HasPrefix_def)
  note do = s3_do_accepted [OF assms(1,2) k]
  have "s3_Put sha s k d w = (Inr (), w\<lparr>clock_pos := Suc (clock_pos w), objects := (objects w)(s3_key s k \<mapsto> d)\<rparr>)"
    by (rule do [of "''PUT''" d w]) (simp add: s3_Put_def bindE_def service_def o [simplified] answer_def)
  moreover have "s3_Get sha s k w = ((case objects w (s3_key s k) of None \<Rightarrow> Inl ErrObjectNotFound | Some b \<Rightarrow> Inr b),
      w\<lparr>clock_pos := Suc (clock_pos w)\<rparr>)"
    by (rule do [of "''GET''" "[]" w])
      (simp add: s3_Get_def bindE_def service_def o [simplified] answer_def read_all_def split: option.splits)
  moreover have "s3_Has sha s k w = (Inr (objects w (s3_key s k) \<noteq> None), w\<lparr>clock_pos := Suc (clock_pos w)\<rparr>)"
    by (rule do [of "''HEAD''" "[]" w])
      (simp add: s3_Has_def bindE_def service_def o [simplified] answer_def split: option.splits)
  moreover have "inj (s3_key s)" by (simp add: inj_def s3_key_inject)
  ultimately show ?thesis by blast
qed


text \<open>A service that writes a listing a key a line, then the token.\<close>

definition demo_render :: "list_result \<Rightarrow> bytes" where
  "demo_render r = join_with (CHR 0x0A) (lr_Contents r @ [lr_NextToken r])"

definition demo_account :: account where
  "demo_account = \<lparr>a_access = ''AK'', a_secret = ''sk'', a_region = ''eu'', a_bucket = ''vit'', a_zone = ''s3.eu:9000'',
     a_page = 2, a_token = (\<lambda>i. replicate (Suc i) (CHR ''t'')), a_render = demo_render\<rparr>"

definition demo_sworld :: sworld where
  "demo_sworld = \<lparr>hfs = fmempty, umask = 0, lseek_ok = True, zeroHashes = Map.empty, rand_bytes = (\<lambda>_. CHR ''r''), rand_pos = 0,
     clock = (\<lambda>_. UTC 2024 5 6 7 8 9 0), clock_pos = 0, kstats = (\<lambda>_ _. \<lparr>k_dev = 0, k_ino = 0, k_blocks = 0, k_mtime = 0\<rparr>),
     kstat_pos = 0, tempDir = [], environ = [], objects = Map.empty\<rparr>"

lemma demo_plain: "plain_account demo_account" "plain_path ''team''" "plain_path ''blobs/ab''"
  by (simp_all add: plain_account_def demo_account_def plain_host_def plain_path_def cut_before_def cut_after_def
      unreserved_def letter_def is_digit_def digit_val_def less_eq_char_def)



subsection \<open>Path-style addressing\<close>

text \<open>The texts hashed on the way to a signature.\<close>

definition signed_texts :: "hasher \<Rightarrow> string \<Rightarrow> string \<Rightarrow> string \<Rightarrow> string \<Rightarrow> bytes set" where
  "signed_texts sha secret region date creq =
     (let key = hmac_key sha (signing_key sha secret region date);
          inner = map (xor_byte 0x36) key @ string_to_sign sha region date creq
      in {creq, inner, map (xor_byte 0x5C) key @ sha inner})"

lemma signature_of_inject:
  assumes eq: "signature_of sha secret region date c = signature_of sha secret region date c'"
    and inj: "inj_on sha (signed_texts sha secret region date c \<union> signed_texts sha secret region date c')"
  shows "c = c'"
proof -
  let ?k = "hmac_key sha (signing_key sha secret region date)"
  let ?i = "\<lambda>c. map (xor_byte 0x36) ?k @ string_to_sign sha region date c"
  let ?o = "\<lambda>c. map (xor_byte 0x5C) ?k @ sha (?i c)"
  have in_texts: "?i c \<in> signed_texts sha secret region date c" "?o c \<in> signed_texts sha secret region date c"
    "c \<in> signed_texts sha secret region date c" for c by (simp_all add: signed_texts_def Let_def)
  from eq have "sha (?o c) = sha (?o c')"
    by (auto simp: signature_of_def hmacSHA256_def dest!: hex_encode_inj)
  then have "?o c = ?o c'" using inj in_texts by (meson UnI1 UnI2 inj_onD)
  then have "sha (?i c) = sha (?i c')" by simp
  then have "?i c = ?i c'" using inj in_texts by (meson UnI1 UnI2 inj_onD)
  then have "sha c = sha c'"
    by (auto simp: string_to_sign_def hashOf_def dest!: hex_encode_inj)
  then show ?thesis using inj in_texts by (meson UnI1 UnI2 inj_onD)
qed

lemma canonical_request_inject:
  "canonical_request verb uri q h d p = canonical_request verb uri' q h d p \<Longrightarrow> uri = uri'"
  by (simp add: canonical_request_def)

lemma uri_bytes_inject: "concat (map uri_byte p) = concat (map uri_byte q) \<longleftrightarrow> p = q"
  by (metis option.inject unescape_bytes)

text \<open>What is hashed for a request on a path, and for the operations on an object under both of its paths.\<close>

definition request_texts :: "hasher \<Rightarrow> account \<Rightarrow> string \<Rightarrow> string \<Rightarrow> string \<times> bytes \<Rightarrow> bytes set" where
  "request_texts sha a date p vb = signed_texts sha (a_secret a) (a_region a) date
     (canonical_request (fst vb) (concat (map uri_byte p)) [] (a_zone a) date (hashOf sha (snd vb)))"

definition object_texts :: "hasher \<Rightarrow> account \<Rightarrow> string \<Rightarrow> string \<Rightarrow> bytes \<Rightarrow> bytes set" where
  "object_texts sha a date key d =
     (\<Union>vb \<in> {(''PUT'', d), (''GET'', []), (''HEAD'', [])}.
        request_texts sha a date (''/'' @ key) vb \<union> request_texts sha a date (''/'' @ a_bucket a @ ''/'' @ key) vb)"

lemma s3_do_refused:
  assumes a: "plain_account a" and s: "NewS3 dflt (config_for sha a pfx True) = Inr s"
    and k: "plain_path k" "k \<noteq> a_bucket a"
    and inj: "inj_on sha (request_texts sha a (amz_date (clock w (clock_pos w))) (''/'' @ k) (verb, body) \<union>
      request_texts sha a (amz_date (clock w (clock_pos w))) (''/'' @ a_bucket a @ ''/'' @ k) (verb, body))"
  shows "s3_do sha s verb (''/'' @ k) [] body w =
    (Inr (answer 403 ''SignatureDoesNotMatch''), w\<lparr>clock_pos := Suc (clock_pos w)\<rparr>)"
proof -
  let ?date = "amz_date (clock w (clock_pos w))"
  let ?p = "''/'' @ a_bucket a @ ''/'' @ k"
  let ?u = "\<lparr>u_Scheme = ''https'', u_Host = a_zone a, u_Path = ?p, u_RawQuery = []\<rparr>"
  let ?raw = "''https://'' @ a_zone a @ ?p"
  have s': "s = \<lparr>s3_cfg = config_for sha a pfx True, s3_host = a_zone a,
      s3_base = ''https://'' @ a_zone a @ ''/'' @ a_bucket a, s3_client = service sha a\<rparr>"
    using s NewS3_for [OF a, of dflt sha pfx True] by simp
  have h: "plain_host (a_zone a)" using a by (simp add: plain_account_def)
  have pp: "plain_path ?p" using a k(1) by (auto simp: plain_path_def plain_account_def list_all_iff)
  have u: "url_Parse ?raw = Inr ?u" by (rule url_Parse_https [OF h pp]) simp
  have raw: "raw_url s (''/'' @ k) [] = ?raw" using k(2) by (simp add: raw_url_def s' config_for_def)
  let ?req = "sign sha s (clock w (clock_pos w)) (removeEmptyPort (a_zone a))
    \<lparr>hr_Method = verb, hr_URL = ?raw, hr_Header = [], hr_Body = body\<rparr> (''/'' @ k) [] body"
  have d: "s3_do sha s verb (''/'' @ k) [] body w = service sha a ?req (w\<lparr>clock_pos := Suc (clock_pos w)\<rparr>)"
    unfolding s3_do_def raw u bindE_lift_res sum.case by (simp add: time_now_def io) (simp add: s')
  have "\<not> accepts sha a ?req ?u"
  proof
    let ?c = "\<lambda>p. canonical_request verb (concat (map uri_byte p)) [] (a_zone a) ?date (hashOf sha body)"
    assume "accepts sha a ?req ?u"
    then have "signature_of sha (a_secret a) (a_region a) ?date (?c (''/'' @ k)) = signature_of sha (a_secret a) (a_region a) ?date (?c ?p)"
      unfolding accepts_def sign_authorization sign_date sent_request_def authorization_def sign_keeps
      by (simp add: s' config_for_def removeEmptyPort_plain [OF h])
    then have "?c (''/'' @ k) = ?c ?p" by (rule signature_of_inject) (use inj in \<open>simp add: request_texts_def\<close>)
    then have "concat (map uri_byte (''/'' @ k)) = concat (map uri_byte ?p)" by (rule canonical_request_inject)
    then have "''/'' @ k = ?p" by (simp only: uri_bytes_inject)
    then have "length (''/'' @ k) = length ?p" by (rule arg_cong)
    then show False by simp
  qed
  with d u show ?thesis by (simp add: service_def)
qed

text \<open>
  Property C27. With path-style addressing the request goes to \<open>/bucket/key\<close> but \<open>/key\<close> is signed, so a
  service that checks signatures refuses every operation on an object, unless the hash collides on
  the texts being signed.
\<close>

theorem S3_path_style_refused:
  assumes "plain_account a" and "NewS3 dflt (config_for sha a pfx True) = Inr s"
    and "plain_path pfx" and "plain_path k" and "s3_key s k \<noteq> a_bucket a"
    and "inj_on sha (object_texts sha a (amz_date (clock w (clock_pos w))) (s3_key s k) d)"
  shows "let refused = answer 403 ''SignatureDoesNotMatch''; w' = w\<lparr>clock_pos := Suc (clock_pos w)\<rparr> in
    s3_Put sha s k d w = (Inl (httpErr (''put '' @ k) refused), w') \<and>
    s3_Get sha s k w = (Inl (httpErr (''get '' @ k) refused), w') \<and>
    s3_Has sha s k w = (Inl (httpErr (''head '' @ k) refused), w')"
proof -
  let ?w = "w\<lparr>clock_pos := Suc (clock_pos w)\<rparr>"
  from NewS3_prefix [OF assms(1,2)] assms(3,4) have k: "plain_path (s3_key s k)" by (intro s3_key_plain) simp_all
  have r: "s3_do sha s verb (''/'' @ s3_key s k) [] body w = (Inr (answer 403 ''SignatureDoesNotMatch''), ?w)"
    if "(verb, body) \<in> {(''PUT'', d), (''GET'', []), (''HEAD'', [])}" for verb body
    by (rule s3_do_refused [OF assms(1,2) k assms(5)], rule inj_on_subset [OF assms(6)])
      (use that in \<open>unfold object_texts_def, blast\<close>)
  from r [of "''PUT''" d] r [of "''GET''" "[]"] r [of "''HEAD''" "[]"] show ?thesis
    by (simp add: s3_Put_def s3_Get_def s3_Has_def answer_def)
qed

theorem S3_path_style_refused_witness:
  "\<exists>s. NewS3 (service id demo_account) (config_for id demo_account ''team'' True) = Inr s \<and>
    s3_Has id s ''blobs/ab'' demo_sworld =
      (Inl (httpErr ''head blobs/ab'' (answer 403 ''SignatureDoesNotMatch'')), demo_sworld\<lparr>clock_pos := 1\<rparr>)"
proof -
  obtain s :: "sworld s3" where s: "NewS3 (service id demo_account) (config_for id demo_account ''team'' True) = Inr s"
    using NewS3_for [OF demo_plain(1)] by blast
  have key: "s3_key s ''blobs/ab'' \<noteq> a_bucket demo_account"
    using NewS3_prefix [OF demo_plain(1) s] by (simp add: s3_key_def trim_slashes_def demo_account_def)
  show ?thesis
    using S3_path_style_refused [OF demo_plain(1) s demo_plain(2,3) key, of demo_sworld "[]"] s
    by (auto simp: demo_sworld_def Let_def)
qed

subsection \<open>Listing\<close>

lemma strip_key_key:
  assumes "sc_Prefix (s3_cfg s) = [] \<or> trim_slashes (sc_Prefix (s3_cfg s)) \<noteq> []"
  shows "strip_key s (s3_key s k) = k"
  using assms TrimPrefix_append [of "trim_slashes (sc_Prefix (s3_cfg s)) @ ''/''" k]
  by (auto simp: strip_key_def s3_key_def trim_slashes_def Let_def)

text \<open>What the service reads of a query is what was put into it.\<close>

lemma query_sep:
  "\<not> unreserved (CHR ''&'')" "\<not> unreserved (CHR ''='')" "\<not> unreserved (CHR ''+'')" "\<not> unreserved (CHR '' '')"
  by (simp_all add: unreserved_def letter_def is_digit_def digit_val_def less_eq_char_def)

lemma QueryEscape_chars:
  assumes "c \<in> set (QueryEscape v)"
  shows "unreserved c \<or> c = CHR ''+'' \<or> c = CHR ''%''"
proof -
  have h: "unreserved (hex_up (of_char x div 16))" "unreserved (hex_up (of_char x mod 16))" for x :: char
    using nat_of_char_less_256 [of x] by (intro hex_up_unreserved; simp add: less_mult_imp_div_less)+
  from assms show ?thesis
    by (auto simp: QueryEscape_def percent_def h split: if_splits)
qed

lemma query_text_QueryEscape: "query_text (QueryEscape v) = v"
proof -
  let ?plus = "map (\<lambda>c. if c = CHR ''+'' then CHR '' '' else c)"
  have p: "?plus (percent c) = percent c" for c
  proof -
    have "unreserved (hex_up (of_char c div 16))" "unreserved (hex_up (of_char c mod 16))"
      using nat_of_char_less_256 [of c] by (intro hex_up_unreserved; simp add: less_mult_imp_div_less)+
    then show ?thesis using query_sep(3) by (auto simp: percent_def)
  qed
  have "unescape_path (?plus (QueryEscape v)) = Some v"
    unfolding unescape_path_def
  proof (induction v)
    case (Cons c cs)
    consider "unreserved c" | "c = CHR '' ''" | "\<not> unreserved c" "c \<noteq> CHR '' ''" by blast
    then show ?case
    proof cases
      case 1
      then have "c \<noteq> CHR ''%''" "c \<noteq> CHR ''+''" using query_sep(3) by auto
      with 1 Cons show ?thesis by (simp add: QueryEscape_def)
    next
      case 2
      with Cons query_sep(4) show ?thesis by (simp add: QueryEscape_def)
    next
      case 3
      with Cons p show ?thesis by (simp add: QueryEscape_def unescape_percent)
    qed
  qed (simp add: QueryEscape_def)
  then show ?thesis by (simp add: query_text_def)
qed

lemma query_params_Encode: "query_params (Encode q) = sort_key fst q"
proof (cases "q = []")
  case True
  then show ?thesis by (simp add: Encode_def query_params_def)
next
  case False
  let ?w = "\<lambda>(k, v). QueryEscape k @ CHR ''='' # QueryEscape v"
  have sep: "CHR ''&'' \<notin> set (QueryEscape v)" "CHR ''='' \<notin> set (QueryEscape v)" for v
    using QueryEscape_chars query_sep by blast+
  have ne: "map ?w (sort_key fst q) \<noteq> []"
    using False by (metis length_0_conv length_map length_sort)
  have "split_on (CHR ''&'') (Encode q) = map ?w (sort_key fst q)"
    unfolding Encode_def by (rule split_on_join_with [OF ne]) (auto simp: sep)
  moreover have "Encode q \<noteq> []"
  proof
    assume "Encode q = []"
    with calculation have "map ?w (sort_key fst q) = [[]]" by simp
    then show False by (auto simp: Cons_eq_map_conv)
  qed
  ultimately show ?thesis
    by (simp add: query_params_def comp_def case_prod_unfold cut_at [OF sep(2)] query_text_QueryEscape)
qed

lemma query_enc_plain:
  "list_all unreserved k \<Longrightarrow> query_enc k = k" "CHR '' '' \<notin> set v \<Longrightarrow> query_enc v = QueryEscape v"
proof -
  show "list_all unreserved k \<Longrightarrow> query_enc k = k" by (induction k) (simp_all add: query_enc_def)
  show "CHR '' '' \<notin> set v \<Longrightarrow> query_enc v = QueryEscape v"
    unfolding query_enc_def QueryEscape_def by (induction v) auto
qed

lemma canonical_query_Encode:
  assumes "\<And>k v. (k, v) \<in> set q \<Longrightarrow> list_all unreserved k \<and> CHR '' '' \<notin> set v"
  shows "canonical_query (query_params (Encode q)) = Encode q"
proof -
  let ?q = "sort_key fst q"
  have k: "query_enc k = k" "QueryEscape k = k" "query_enc v = QueryEscape v" if "(k, v) \<in> set ?q" for k v
  proof -
    from that assms have a: "list_all unreserved k" "CHR '' '' \<notin> set v" by auto
    then have "CHR '' '' \<notin> set k" using query_sep(4) by (auto simp: list_all_iff)
    with a query_enc_plain show "query_enc k = k" "QueryEscape k = k" "query_enc v = QueryEscape v" by metis+
  qed
  then have m: "map (map_prod query_enc query_enc) ?q = map (map_prod id QueryEscape) ?q" by auto
  have "sorted (map fst (map (map_prod id QueryEscape) ?q))" by (simp add: comp_def)
  then have "sort_key fst (map (map_prod id QueryEscape) ?q) = map (map_prod id QueryEscape) ?q"
    by (rule sort_key_id_if_sorted)
  moreover have "map (\<lambda>(k, v). k @ ''='' @ v) (map (map_prod id QueryEscape) ?q) = map (\<lambda>(k, v). QueryEscape k @ CHR ''='' # QueryEscape v) ?q"
    using k(2) by auto
  ultimately show ?thesis unfolding canonical_query_def query_params_Encode m by (simp only: Encode_def)
qed

lemma map_of_sort_key:
  assumes "distinct (map fst q)"
  shows "map_of (sort_key fst q) = map_of q"
proof -
  from assms have "distinct (map fst (sort_key fst q))" by (simp add: distinct_map)
  with assms show ?thesis by (simp add: map_of_inject_set)
qed

lemma Encode_url_chars:
  assumes "c \<in> set (Encode q)"
  shows "c \<noteq> CHR ''#'' \<and> \<not> control c"
proof -
  have "set (join_with d ws) \<subseteq> insert d (\<Union> (set ` set ws))" for d ws
    by (induction d ws rule: join_with.induct) auto
  with assms have "c = CHR ''&'' \<or> (\<exists>k v. c \<in> set (QueryEscape k @ CHR ''='' # QueryEscape v))"
    unfolding Encode_def by fastforce
  then have "c = CHR ''&'' \<or> c = CHR ''='' \<or> unreserved c \<or> c = CHR ''+'' \<or> c = CHR ''%''"
    using QueryEscape_chars by auto
  with unreserved_not [of c] show ?thesis by (auto simp: control_def)
qed

text \<open>
  A listing request is accepted in both styles of addressing, and the service reads from it the
  prefix and the token it was made with.
\<close>

lemma list_query_params:
  "map_of (list_query full tok) ''list-type'' = Some ''2''" "map_of (list_query full tok) ''prefix'' = Some full"
  "map_of (list_query full tok) ''continuation-token'' = (if tok = [] then None else Some tok)"
  "distinct (map fst (list_query full tok))" "list_query full tok \<noteq> []"
  by (simp_all add: list_query_def set_value_def Let_def)

lemma list_query_plain:
  assumes "CHR '' '' \<notin> set full" and "CHR '' '' \<notin> set tok" and "(k, v) \<in> set (list_query full tok)"
  shows "list_all unreserved k \<and> CHR '' '' \<notin> set v"
proof -
  have n: "list_all unreserved ''list-type''" "list_all unreserved ''prefix''" "list_all unreserved ''continuation-token''"
    by code_simp+
  from assms(3) consider "k = ''list-type''" "v = ''2''" | "k = ''prefix''" "v = full" | "k = ''continuation-token''" "v = tok"
    by (auto simp: list_query_def set_value_def Let_def split: if_splits)
  then show ?thesis by cases (use n assms(1,2) in \<open>simp_all only:\<close>, simp_all)
qed

lemma s3_do_listing:
  assumes a: "plain_account a" and s: "NewS3 dflt (config_for sha a pfx ps) = Inr s"
    and sp: "CHR '' '' \<notin> set full" "CHR '' '' \<notin> set tok"
  shows "s3_do sha s ''GET'' (list_path s) (list_query full tok) [] w =
    (Inr (answer_listing a (objects w) (sort_key fst (list_query full tok))), w\<lparr>clock_pos := Suc (clock_pos w)\<rparr>)"
proof -
  let ?q = "list_query full tok"
  let ?h = "if ps then a_zone a else a_bucket a @ ''.'' @ a_zone a" and ?p = "if ps then ''/'' @ a_bucket a else ''/''"
  let ?u = "\<lparr>u_Scheme = ''https'', u_Host = ?h, u_Path = ?p, u_RawQuery = Encode ?q\<rparr>"
  let ?raw = "''https://'' @ ?h @ ?p @ CHR ''?'' # Encode ?q"
  have s': "s = \<lparr>s3_cfg = config_for sha a pfx ps, s3_host = ?h,
      s3_base = (if ps then ''https://'' @ a_zone a @ ''/'' @ a_bucket a else ''https://'' @ a_bucket a @ ''.'' @ a_zone a),
      s3_client = service sha a\<rparr>"
    using s NewS3_for [OF a, of dflt sha pfx ps] by simp
  have h: "plain_host ?h" using a plain_host_bucket [OF a] by (simp add: plain_account_def)
  have p: "plain_path ?p" "?p = [] \<or> hd ?p = CHR ''/''"
    using a by (auto simp: plain_path_def plain_account_def list_all_iff)
  have u: "url_Parse ?raw = Inr ?u"
    using Encode_url_chars by (intro url_Parse_https_query [OF h p]) auto
  have lp: "list_path s = ?p" by (simp add: list_path_def s' config_for_def)
  have raw: "raw_url s ?p ?q = ?raw" using list_query_params(5) [of full tok]
    by (simp add: raw_url_def s' config_for_def Let_def)
  let ?req = "sign sha s (clock w (clock_pos w)) (removeEmptyPort ?h)
    \<lparr>hr_Method = ''GET'', hr_URL = ?raw, hr_Header = [], hr_Body = []\<rparr> ?p ?q []"
  have d: "s3_do sha s ''GET'' (list_path s) ?q [] w = service sha a ?req (w\<lparr>clock_pos := Suc (clock_pos w)\<rparr>)"
    unfolding s3_do_def lp raw u bindE_lift_res sum.case by (simp add: time_now_def io) (simp add: s')
  have cq: "canonical_query (query_params (Encode ?q)) = Encode ?q"
    by (rule canonical_query_Encode) (rule list_query_plain [OF sp])
  have z: "removeEmptyPort (a_zone a) = a_zone a" using a by (intro removeEmptyPort_plain) (simp add: plain_account_def)
  have "accepts sha a ?req ?u"
    unfolding accepts_def sign_authorization sign_date sent_request_def
    using list_query_params(5) [of full tok] by (simp add: s' config_for_def cq z)
  moreover have "names_bucket a ?u" by (simp add: names_bucket_def)
  moreover have "map_of (query_params (Encode ?q)) ''list-type'' = Some ''2''"
    by (simp add: query_params_Encode map_of_sort_key list_query_params)
  ultimately show ?thesis
    using d u by (simp add: service_def query_params_Encode)
qed

text \<open>
  What a listing needs of the service: pages are not empty, tokens tell pages apart, are not empty
  and hold no spaces, and the decoder of a page's XML reads what was written for keys of the bucket.
\<close>

definition lists_well :: "account \<Rightarrow> (bytes \<Rightarrow> err + list_result) \<Rightarrow> (string \<rightharpoonup> bytes) \<Rightarrow> bool" where
  "lists_well a xml objs \<longleftrightarrow>
     finite (dom objs) \<and> 0 < a_page a \<and> inj (a_token a) \<and> (\<forall>i. a_token a i \<noteq> [] \<and> CHR '' '' \<notin> set (a_token a i)) \<and>
     (\<forall>ks t. set ks \<subseteq> dom objs \<and> t \<in> insert [] (range (a_token a)) \<longrightarrow>
        (let r = \<lparr>lr_Contents = ks, lr_IsTruncated = (t \<noteq> []), lr_NextToken = t\<rparr> in xml (a_render a r) = Inr r))"

lemma lists_wellD:
  assumes "lists_well a xml objs"
  shows "finite (dom objs)" "0 < a_page a" "a_token a i = a_token a j \<longleftrightarrow> i = j" "a_token a i \<noteq> []" "CHR '' '' \<notin> set (a_token a i)"
    "set ks \<subseteq> dom objs \<Longrightarrow> xml (a_render a (page a ks i)) = Inr (page a ks i)"
proof -
  from assms show "finite (dom objs)" "0 < a_page a" "a_token a i = a_token a j \<longleftrightarrow> i = j" and t: "a_token a i \<noteq> []" "CHR '' '' \<notin> set (a_token a i)" for i
    by (auto simp: lists_well_def inj_eq)
  have r: "xml (a_render a \<lparr>lr_Contents = ks, lr_IsTruncated = (t \<noteq> []), lr_NextToken = t\<rparr>) =
      Inr \<lparr>lr_Contents = ks, lr_IsTruncated = (t \<noteq> []), lr_NextToken = t\<rparr>"
    if "set ks \<subseteq> dom objs" "t \<in> insert [] (range (a_token a))" for ks t
    using assms that unfolding lists_well_def Let_def by blast
  assume "set ks \<subseteq> dom objs"
  then have "set (take (a_page a) (drop (i * a_page a) ks)) \<subseteq> dom objs"
    by (meson in_set_dropD in_set_takeD subset_code(1))
  with r [of _ "a_token a (Suc i)"] r [of _ "[]"] t(1) [of "Suc i"]
  show "xml (a_render a (page a ks i)) = Inr (page a ks i)"
    by (cases "Suc i * a_page a < length ks") (simp_all add: page_def)
qed

lemma page_asked_token:
  assumes "lists_well a xml objs" and "i < length ks"
  shows "page_asked a ks (Some (a_token a i)) = Some i"
proof -
  have "find (\<lambda>j. a_token a j = a_token a i) [0..<length ks] = Some i"
    unfolding find_Some_iff using assms lists_wellD(3) [OF assms(1)] by (intro exI [of _ i]) auto
  then show ?thesis by (simp add: page_asked_def)
qed

lemma s3_list_from_page:
  assumes a: "plain_account a" and s: "NewS3 dflt (config_for sha a pfx ps) = Inr s"
    and sp: "CHR '' '' \<notin> set (s3_key s p)" and ok: "lists_well a xml (objects w)"
    and ks: "ks = listed (objects w) (s3_key s p)" and i: "i = 0 \<or> i * a_page a < length ks"
  shows "s3_list_from sha xml s p keys (if i = 0 then [] else a_token a i) w =
    (let keys' = keys @ map (strip_key s) (take (a_page a) (drop (i * a_page a) ks)); w' = w\<lparr>clock_pos := Suc (clock_pos w)\<rparr> in
     if Suc i * a_page a < length ks then s3_list_from sha xml s p keys' (a_token a (Suc i)) w' else Some (Inr (sort keys'), w'))"
proof -
  let ?t = "if i = 0 then [] else a_token a i" and ?w = "w\<lparr>clock_pos := Suc (clock_pos w)\<rparr>"
  have t: "CHR '' '' \<notin> set ?t" using lists_wellD(5) [OF ok] by simp
  have N: "0 < a_page a" by (rule lists_wellD(2) [OF ok])
  have asked: "page_asked a ks (if ?t = [] then None else Some ?t) = Some i"
  proof (cases "i = 0")
    case False
    with i have "i * a_page a < length ks" by simp
    moreover have "i \<le> i * a_page a" using N by simp
    ultimately have "i < length ks" by linarith
    with False page_asked_token [OF ok] lists_wellD(4) [OF ok] show ?thesis by simp
  qed (simp add: page_asked_def)
  have sub: "set ks \<subseteq> dom (objects w)"
    unfolding ks listed_def using lists_wellD(1) [OF ok] by (subst set_sorted_list_of_set) auto
  have g: "s3_do sha s ''GET'' (list_path s) (list_query (s3_key s p) ?t) [] w = (Inr (answer 200 (a_render a (page a ks i))), ?w)"
    using s3_do_listing [OF a s sp t, of w] asked
    unfolding answer_listing_def map_of_sort_key [OF list_query_params(4)] list_query_params by (simp add: ks Let_def)
  have x: "xml (a_render a (page a ks i)) = Inr (page a ks i)" by (rule lists_wellD(6) [OF ok sub])
  show ?thesis
    by (subst s3_list_from.simps) (use g x lists_wellD(4) [OF ok, of "Suc i"] in \<open>simp add: answer_def page_def Let_def\<close>)
qed

lemma s3_list_from_pages:
  assumes a: "plain_account a" and s: "NewS3 dflt (config_for sha a pfx ps) = Inr s" and sp: "CHR '' '' \<notin> set (s3_key s p)"
    and "lists_well a xml (objects w)" and "i = 0 \<or> i * a_page a < length ks" and "ks = listed (objects w) (s3_key s p)"
  shows "\<exists>n. s3_list_from sha xml s p keys (if i = 0 then [] else a_token a i) w =
    Some (Inr (sort (keys @ map (strip_key s) (drop (i * a_page a) ks))), w\<lparr>clock_pos := clock_pos w + n\<rparr>)"
  using assms(4-6)
proof (induction "length ks - i * a_page a" arbitrary: i keys w rule: less_induct)
  case less
  note step = s3_list_from_page [OF a s sp less.prems(1,3,2), of keys]
  let ?w = "w\<lparr>clock_pos := Suc (clock_pos w)\<rparr>" and ?N = "a_page a"
  let ?keys = "keys @ map (strip_key s) (take ?N (drop (i * ?N) ks))"
  have N: "0 < ?N" by (rule lists_wellD(2) [OF less.prems(1)])
  show ?case
  proof (cases "Suc i * ?N < length ks")
    case True
    then have "length ks - Suc i * ?N < length ks - i * ?N" using N by simp
    from less.hyps [OF this, of ?w ?keys] less.prems(1,3) True obtain n where
      "s3_list_from sha xml s p ?keys (a_token a (Suc i)) ?w =
        Some (Inr (sort (?keys @ map (strip_key s) (drop (Suc i * ?N) ks))), ?w\<lparr>clock_pos := clock_pos ?w + n\<rparr>)" by auto
    moreover have "take ?N (drop (i * ?N) ks) @ drop (Suc i * ?N) ks = drop (i * ?N) ks"
      by (metis append_take_drop_id drop_drop mult_Suc)
    then have "?keys @ map (strip_key s) (drop (Suc i * ?N) ks) = keys @ map (strip_key s) (drop (i * ?N) ks)"
      by (metis append.assoc map_append)
    ultimately show ?thesis using step True by (intro exI [of _ "Suc n"]) (simp add: Let_def)
  next
    case False
    with step show ?thesis by (intro exI [of _ 1]) (simp add: Let_def)
  qed
qed

lemma listed_keys:
  assumes "finite (dom objs)" and "sc_Prefix (s3_cfg s) = [] \<or> trim_slashes (sc_Prefix (s3_cfg s)) \<noteq> []"
  shows "sort (map (strip_key s) (listed objs (s3_key s p))) = sorted_list_of_set {k. HasPrefix k p \<and> s3_key s k \<in> dom objs}"
proof -
  let ?K = "{k. HasPrefix k p \<and> s3_key s k \<in> dom objs}"
  have "\<exists>q. \<forall>k. s3_key s k = q @ k" by (auto simp: s3_key_def)
  then obtain q where q: "s3_key s k = q @ k" for k by blast
  have "{k \<in> dom objs. HasPrefix k (s3_key s p)} = s3_key s ` ?K"
    by (auto simp: HasPrefix_iff q image_iff)
  then have l: "listed objs (s3_key s p) = sorted_list_of_set (s3_key s ` ?K)" by (simp only: listed_def)
  have fin: "finite (s3_key s ` ?K)" by (rule finite_subset [OF _ assms(1)]) auto
  have d: "distinct (map (strip_key s) (listed objs (s3_key s p)))"
    unfolding l using fin by (auto simp: distinct_map inj_on_def strip_key_key [OF assms(2)])
  have "set (map (strip_key s) (listed objs (s3_key s p))) = ?K"
    unfolding l using fin by (simp add: image_image strip_key_key [OF assms(2)])
  with d sorted_list_of_set_sort_remdups show ?thesis by (metis distinct_remdups_id)
qed

text \<open>
  Property C28. Against a service that checks every signature, the query included, and that answers a
  listing with one page of the keys under the prefix the query names, from where the continuation
  token in the query says: \<open>List\<close> ends and returns exactly the keys stored under its argument, as the
  store's clients know them, without the store's own prefix, each once and sorted, whatever the
  page size, with host and with path-style addressing; it changes no object. The bucket and the
  endpoint's host have unreserved bytes; the store's prefix, the argument and the tokens hold no
  space (\<open>Encode\<close> writes a space as a plus sign and signs it so, which the specification of
  signatures does not), and the store's prefix is not made only of slashes.
\<close>

theorem S3_List_collects:
  assumes "plain_account a" and "NewS3 dflt (config_for sha a pfx ps) = Inr s" and "lists_well a xml (objects w)"
    and "CHR '' '' \<notin> set pfx" and "CHR '' '' \<notin> set p" and "pfx = [] \<or> trim_slashes pfx \<noteq> []"
  shows "\<exists>n. s3_List sha xml s p w =
    Some (Inr (sorted_list_of_set {k. HasPrefix k p \<and> s3_key s k \<in> dom (objects w)}), w\<lparr>clock_pos := clock_pos w + n\<rparr>)"
proof -
  note pfx = NewS3_prefix [OF assms(1,2)]
  have "set (trim_slashes pfx) \<subseteq> set pfx"
    unfolding trim_slashes_def using set_dropWhileD by fastforce
  then have "CHR '' '' \<notin> set (s3_key s p)" using assms(4,5) pfx by (auto simp: s3_key_def)
  from s3_list_from_pages [OF assms(1,2) this assms(3), of 0 _ "[]"] listed_keys [OF lists_wellD(1) [OF assms(3)], of s p]
  show ?thesis using assms(6) pfx by (simp add: s3_List_def)
qed

definition demo_xml :: "bytes \<Rightarrow> err + list_result" where
  "demo_xml b = (let ws = split_on (CHR 0x0A) b in
     Inr \<lparr>lr_Contents = butlast ws, lr_IsTruncated = (last ws \<noteq> []), lr_NextToken = last ws\<rparr>)"

definition demo_objects :: "string \<rightharpoonup> bytes" where
  "demo_objects = map_of [(''team/blobs/c'', ''3''), (''team/blobs/a'', ''1''), (''team/blobs/b'', ''2''), (''other/blobs/d'', ''4'')]"

lemma demo_objects_dom: "dom demo_objects = {''team/blobs/c'', ''team/blobs/a'', ''team/blobs/b'', ''other/blobs/d''}"
  by (simp add: demo_objects_def dom_map_of_conv_image_fst)

lemma demo_lists_well: "lists_well demo_account demo_xml demo_objects"
proof -
  have k: "CHR 0x0A \<notin> set k" if "k \<in> dom demo_objects" for k using that unfolding demo_objects_dom by auto
  have "demo_xml (demo_render r) = Inr r"
    if "set ks \<subseteq> dom demo_objects" "t \<in> insert [] (range (\<lambda>i. replicate (Suc i) (CHR ''t'')))"
      "r = \<lparr>lr_Contents = ks, lr_IsTruncated = (t \<noteq> []), lr_NextToken = t\<rparr>" for ks t r
  proof -
    have "split_on (CHR 0x0A) (demo_render r) = ks @ [t]"
      unfolding demo_render_def that(3) using that(1,2) k
      by (subst split_on_join_with) (auto simp: in_set_replicate)
    then show ?thesis by (simp add: demo_xml_def that(3))
  qed
  moreover have "inj (\<lambda>i. replicate (Suc i) (CHR ''t''))" by (rule injI) (metis Suc_inject length_replicate)
  ultimately show ?thesis unfolding lists_well_def demo_account_def Let_def by (simp add: demo_objects_dom)
qed

theorem S3_List_collects_witness:
  "\<exists>s n. NewS3 (service id demo_account) (config_for id demo_account ''team/'' True) = Inr s \<and>
    s3_List id demo_xml s ''blobs/'' (demo_sworld\<lparr>objects := demo_objects\<rparr>) =
      Some (Inr [''blobs/a'', ''blobs/b'', ''blobs/c''], demo_sworld\<lparr>objects := demo_objects, clock_pos := n\<rparr>)"
proof -
  let ?w = "demo_sworld\<lparr>objects := demo_objects\<rparr>"
  obtain s :: "sworld s3" where s: "NewS3 (service id demo_account) (config_for id demo_account ''team/'' True) = Inr s"
    using NewS3_for [OF demo_plain(1)] by blast
  have key: "s3_key s k = ''team/'' @ k" for k
    using NewS3_prefix [OF demo_plain(1) s] by (simp add: s3_key_def trim_slashes_def)
  have "{k. HasPrefix k ''blobs/'' \<and> s3_key s k \<in> dom demo_objects} = {''blobs/a'', ''blobs/b'', ''blobs/c''}"
    by (auto simp: key demo_objects_dom HasPrefix_iff)
  moreover have "sorted_list_of_set {''blobs/a'', ''blobs/b'', ''blobs/c''} = [''blobs/a'', ''blobs/b'', ''blobs/c'']" by code_simp
  moreover obtain n where "s3_List id demo_xml s ''blobs/'' ?w =
      Some (Inr (sorted_list_of_set {k. HasPrefix k ''blobs/'' \<and> s3_key s k \<in> dom (objects ?w)}), ?w\<lparr>clock_pos := clock_pos ?w + n\<rparr>)"
    using S3_List_collects [OF demo_plain(1) s, of demo_xml ?w "''blobs/''"] demo_lists_well by (auto simp: trim_slashes_def)
  ultimately show ?thesis using s by auto
qed

end
