(* ===== verification/S3Sync.thy ===== *)
theory S3Sync
  imports S3Props RemoteProps
begin

section \<open>Pushing to a bucket and pulling from it\<close>

text \<open>
  The second interpretation of \<open>object_map\<close>: a bucket addressed by host, behind a service that checks signatures. Requests
  read the clock, so every operation changes the world; keys are those of unreserved bytes, which ids and hashes are made of.
\<close>

definition bucket_ready :: "'z sworld_scheme http_client \<Rightarrow> hasher \<Rightarrow> account \<Rightarrow> string \<Rightarrow> 'z sworld_scheme s3 \<Rightarrow> bool" where
  "bucket_ready dflt sha a pfx s \<longleftrightarrow> plain_account a \<and> plain_path pfx \<and> NewS3 dflt (config_for sha a pfx False) = Inr s"

definition bucket_objs :: "'z sworld_scheme s3 \<Rightarrow> 'z sworld_scheme \<Rightarrow> string \<rightharpoonup> bytes" where
  "bucket_objs s w k = objects w (s3_key s k)"

lemma hex_digit_unreserved:
  assumes "n < 16"
  shows "unreserved (hex_digit n)"
proof (cases "n < 10")
  case True
  then show ?thesis by (simp add: unreserved_def hex_digit_def is_digit_def digit_val_def)
next
  case False
  with assms show ?thesis by (simp add: unreserved_def letter_def hex_digit_def less_eq_char_def)
qed

lemma plain_path_hex: "plain_path (hex_encode b)"
proof -
  have "of_char c div 16 < (16 :: nat)" for c :: char using nat_of_char_less_256 [of c] by linarith
  then show ?thesis by (induction b) (simp_all add: hex_encode_def plain_path_def hex_digit_unreserved)
qed

lemma plain_path_simps: "plain_path (p @ q) \<longleftrightarrow> plain_path p \<and> plain_path q" "plain_path (blobKey h) \<longleftrightarrow> plain_path h"
  "plain_path (checkpointKey i) \<longleftrightarrow> plain_path i" "plain_path (sandboxKey i) \<longleftrightarrow> plain_path i"
  by (simp_all add: plain_path_def blobKey_def checkpointKey_def sandboxKey_def unreserved_def letter_def)

interpretation bucket: object_map "S3Store sha xml s" root "bucket_objs s"
  "\<lambda>w. bucket_ready dflt sha a pfx s \<and> fs_ok (hfs w)" "{k. plain_path k}" for sha xml s root dflt a pfx
proof
  show "blobKey (hex_encode b) \<in> {k. plain_path k}" for b by (simp add: plain_path_simps plain_path_hex)
next
  fix w w' :: "'a sworld_scheme" and k d
  assume ok: "bucket_ready dflt sha a pfx s \<and> fs_ok (hfs w)"
  then have m: "s3_Put sha s k d w = (Inr (), w\<lparr>clock_pos := Suc (clock_pos w), objects := (objects w)(s3_key s k \<mapsto> d)\<rparr>)"
    "s3_Get sha s k w = ((case objects w (s3_key s k) of None \<Rightarrow> Inl ErrObjectNotFound | Some b \<Rightarrow> Inr b), w\<lparr>clock_pos := Suc (clock_pos w)\<rparr>)"
    "s3_Has sha s k w = (Inr (objects w (s3_key s k) \<noteq> None), w\<lparr>clock_pos := Suc (clock_pos w)\<rparr>)" if "k \<in> {k. plain_path k}"
    using that s3_map [of a dflt sha pfx s k d w] by (auto simp: bucket_ready_def)
  show "\<exists>w'. o_Put (S3Store sha xml s) k d w = (Inr (), w') \<and> (bucket_ready dflt sha a pfx s \<and> fs_ok (hfs w')) \<and>
      bucket_objs s w' = (bucket_objs s w)(k \<mapsto> d) \<and> local_same root w w'" if "k \<in> {k. plain_path k}"
    using m(1) [OF that] ok by (simp add: S3Store_def local_same_def bucket_objs_def s3_key_inject fun_eq_iff)
  show "\<exists>w'. o_Get (S3Store sha xml s) k w = ((case bucket_objs s w k of None \<Rightarrow> Inl ErrObjectNotFound | Some b \<Rightarrow> Inr b), w') \<and>
      (bucket_ready dflt sha a pfx s \<and> fs_ok (hfs w')) \<and> bucket_objs s w' = bucket_objs s w \<and> local_same root w w'"
    "\<exists>w'. o_Has (S3Store sha xml s) k w = (Inr (bucket_objs s w k \<noteq> None), w') \<and>
      (bucket_ready dflt sha a pfx s \<and> fs_ok (hfs w')) \<and> bucket_objs s w' = bucket_objs s w \<and> local_same root w w'"
    if "k \<in> {k. plain_path k}"
    using m(2,3) [OF that] ok by (simp_all add: S3Store_def local_same_def bucket_objs_def fun_eq_iff)
  show "(bucket_ready dflt sha a pfx s \<and> fs_ok (hfs w')) \<and> bucket_objs s w' = bucket_objs s w"
    if "fs_ok (hfs w')" "world.more w' = world.more w"
  proof -
    have "objects w' = objects w" using that(2) by (cases w; cases w') simp
    with ok that(1) show ?thesis by (simp add: bucket_objs_def fun_eq_iff)
  qed
qed

text \<open>
  Property C25. A history pushed to a bucket from one machine is pulled by another, where the bucket is addressed by host
  (with path style the service refuses every request) and prefix, ids and account are of unreserved bytes: against a service
  that checks every signature the push succeeds, and where the other machine sees the objects it left, every checkpoint of
  the history is pulled with its record, and every path reads the same as in the repository it came from.
\<close>

theorem S3_Push_then_Pull:
  assumes "plain_account a" and "plain_path pfx" and "NewS3 dflt (config_for sha a pfx False) = Inr s3"
    and "repo_ok sha root B w" and "addressed sha B (bucket_objs s3 w)"
    and "Sandbox root (hfs w) sid = Inr s" and "plain_path (s_id s)"
    and "History root (hfs w) (s_id s) = Some (Inr (map fst cs))"
    and "history_complete (blobs (root @ [''blobs'']) (hfs w)) cs"
    and "\<forall>c \<in> fst ` set cs. ckpt_ok c \<and> plain_path (c_id c) \<and> Checkpoint root (hfs w) (c_id c) = Inr c"
  shows "\<exists>st w1. Push root sid (S3Store sha xml s3) w = Some (Inr st, w1) \<and> ps_Checkpoints st = int (length cs) \<and>
    (\<forall>root' v c. repo_ok sha root' B v \<longrightarrow> objects v = objects w1 \<longrightarrow> c \<in> fst ` set cs \<longrightarrow>
      (\<exists>v'. Pull sha root' (S3Store sha xml s3) (c_id c) v = (Inr c, v') \<and> Checkpoint root' (hfs v') (c_id c) = Inr c \<and>
        (\<forall>p. ReadFileAt root' (hfs v') (c_id c) p = ReadFileAt root (hfs w) (c_id c) p)))"
proof -
  have ready: "bucket_ready dflt sha a pfx s3 \<and> fs_ok (hfs u)" if "repo_ok sha r B u" for r and u :: "'a sworld_scheme"
    using assms(1-3) repo_okD(4) [OF that] by (simp add: bucket_ready_def)
  have keys: "sandboxKey (s_id s) \<in> {k. plain_path k}" "\<forall>c \<in> fst ` set cs. checkpointKey (c_id c) \<in> {k. plain_path k}"
    using assms(7,10) by (auto simp: plain_path_simps)
  have ck: "\<forall>c \<in> fst ` set cs. ckpt_ok c \<and> Checkpoint root (hfs w) (c_id c) = Inr c" using assms(10) by blast
  from bucket.Push_ok [OF assms(4) ready [OF assms(4)] assms(6) keys(1) assms(8,9) keys(2)] obtain w1 st where
    w1: "Push root sid (S3Store sha xml s3) w = Some (Inr st, w1)" "ps_Checkpoints st = int (length cs)"
    "bucket_objs s3 w1 = (fold (pushed (blobs (root @ [''blobs'']) (hfs w))) cs (bucket_objs s3 w))(sandboxKey (s_id s) \<mapsto> marshal_sandbox s)"
    by blast
  have "\<exists>v'. Pull sha root' (S3Store sha xml s3) (c_id c) v = (Inr c, v') \<and> Checkpoint root' (hfs v') (c_id c) = Inr c \<and>
      (\<forall>p. ReadFileAt root' (hfs v') (c_id c) p = ReadFileAt root (hfs w) (c_id c) p)"
    if v: "repo_ok sha root' B v" "objects v = objects w1" "c \<in> fst ` set cs" for root' v c
  proof -
    have "bucket_objs s3 v = bucket_objs s3 w1" using v(2) by (simp add: bucket_objs_def fun_eq_iff)
    from bucket.pull_pushed [OF assms(4,5,9) ck v(3,1) ready [OF v(1)] trans [OF this w1(3)]] keys(2) v(3)
    show ?thesis by blast
  qed
  with w1(1,2) show ?thesis by blast
qed

theorem S3_Push_then_Pull_witness:
  "\<exists>(w :: sworld) w1 v' s3 st. Push [''v''] ''t'' (S3Store repo_sha (\<lambda>_. Inl (Errno EINVAL)) s3) w = Some (Inr st, w1) \<and> ps_Checkpoints st = 1 \<and>
    Pull repo_sha [''v''] (S3Store repo_sha (\<lambda>_. Inl (Errno EINVAL)) s3) ''a'' (w\<lparr>objects := objects w1\<rparr>) = (Inr root_ckpt, v') \<and>
    (\<forall>p. ReadFileAt [''v''] (hfs v') ''a'' p = ReadFileAt [''v''] (hfs w) ''a'' p)"
proof -
  obtain u :: world where u: "repo_ok repo_sha [''v''] (set repo_blobs) u" "Checkpoint [''v''] (hfs u) ''a'' = Inr root_ckpt"
    "getJSON [''v''] ''sandboxes'' ''t'' dec_sandbox (hfs u) = Inr (demo_sandbox ''t'' ''a'')"
    "complete (blobs [''v'', ''blobs''] (hfs u)) root_ckpt [file_entry] (\<lambda>_. [])" by (rule one_checkpoint)
  obtain s3 :: "sworld s3" where s3: "NewS3 (service repo_sha demo_account) (config_for repo_sha demo_account ''team'' False) = Inr s3"
    using NewS3_for [OF demo_plain(1)] by blast
  let ?w = "demo_sworld\<lparr>hfs := hfs u\<rparr>" and ?cs = "[(root_ckpt, [file_entry], \<lambda>_. [])]"
  have r: "repo_ok repo_sha [''v''] (set repo_blobs) (?w\<lparr>objects := m\<rparr>)" for m
    using u(1) by (simp add: repo_ok_def img_inv_def memo_ok_def demo_sworld_def)
  note t = Sandbox_found [OF u(3)]
  have p: "plain_path ''a''" "plain_path ''t''" "s_id (demo_sandbox ''t'' ''a'') = ''t''"
    by (simp_all add: plain_path_def unreserved_def letter_def demo_sandbox_def)
  have "addressed repo_sha (set repo_blobs) (bucket_objs s3 ?w)"
    by (simp add: addressed_def remote_blobs_def bucket_objs_def demo_sworld_def)
  from S3_Push_then_Pull [OF demo_plain(1,2) s3 r [of "objects ?w", simplified] this, of "''t''" "demo_sandbox ''t'' ''a''" ?cs "\<lambda>_. Inl (Errno EINVAL)"]
    t one_lineage [OF u(2) t] one_complete u(2,4) root_ckpt_ok p
  obtain st w1 where "Push [''v''] ''t'' (S3Store repo_sha (\<lambda>_. Inl (Errno EINVAL)) s3) ?w = Some (Inr st, w1)" "ps_Checkpoints st = 1"
    and pl: "\<forall>root' v. repo_ok repo_sha root' (set repo_blobs) v \<longrightarrow> objects v = objects w1 \<longrightarrow>
      (\<exists>v'. Pull repo_sha root' (S3Store repo_sha (\<lambda>_. Inl (Errno EINVAL)) s3) ''a'' v = (Inr root_ckpt, v') \<and>
        Checkpoint root' (hfs v') ''a'' = Inr root_ckpt \<and>
        (\<forall>p. ReadFileAt root' (hfs v') ''a'' p = ReadFileAt [''v''] (hfs ?w) ''a'' p))" by auto
  with pl [rule_format, OF r [of "objects w1"]] show ?thesis by force
qed

end
