(* ===== verification/Agent.thy ===== *)
theory Agent
  imports Backend
begin

unbundle bit_operations_syntax

section \<open>The guest agent (internal/agent/agent.go, internal/agent/client.go)\<close>

text \<open>
  The protocol between the host and the agent inside a machine: one request per connection, a line
  of JSON and for a write the file's bytes, answered by a line of JSON and for a read the
  file's bytes. The server's side is a function from the bytes it reads to the bytes it writes
  over the guest's world, the client's side a computation over a session that takes the bytes
  sent to the bytes answered. Running a command in the guest and the text of an error value
  (Go's \<open>Error\<close> methods) are parameters.
\<close>

subsection \<open>Requests and replies\<close>

text \<open>An \<open>Entry\<close> of the protocol has the fields and the tags of \<open>tree.Entry\<close>, so it is the same record.\<close>

record request =
  rq_Op :: string
  rq_Dir :: string
  rq_Env :: "string list"
  rq_Cmd :: "string list"
  rq_Path :: string
  rq_Mode :: mode
  rq_Size :: int
  rq_Link :: string
  rq_IsDir :: bool

record reply =
  rp_OK :: bool
  rp_Error :: string
  rp_Exit :: int
  rp_Stdout :: string
  rp_Stderr :: string
  rp_Entries :: "entry list"
  rp_Size :: int

definition no_request :: request where
  "no_request = \<lparr>rq_Op = [], rq_Dir = [], rq_Env = [], rq_Cmd = [], rq_Path = [], rq_Mode = 0, rq_Size = 0, rq_Link = [], rq_IsDir = False\<rparr>"

definition no_reply :: reply where
  "no_reply = \<lparr>rp_OK = False, rp_Error = [], rp_Exit = 0, rp_Stdout = [], rp_Stderr = [], rp_Entries = [], rp_Size = 0\<rparr>"

definition opt_int :: "string \<Rightarrow> int \<Rightarrow> (string \<times> json) list" where
  "opt_int name i = (if i = 0 then [] else [(name, JNum (itoa i))])"

definition opt_bool :: "string \<Rightarrow> bool \<Rightarrow> (string \<times> json) list" where
  "opt_bool name b = (if b then [(name, JBool True)] else [])"

definition opt_list :: "string \<Rightarrow> ('a \<Rightarrow> json) \<Rightarrow> 'a list \<Rightarrow> (string \<times> json) list" where
  "opt_list name enc xs = (if xs = [] then [] else [(name, JArr (map enc xs))])"

definition request_json :: "request \<Rightarrow> json" where
  "request_json r = JObj
     ([(''op'', JStr (rq_Op r))] @ opt_str ''dir'' (rq_Dir r) @ opt_list ''env'' JStr (rq_Env r) @
      opt_list ''cmd'' JStr (rq_Cmd r) @ opt_str ''path'' (rq_Path r) @ opt_int ''mode'' (uint (rq_Mode r)) @
      opt_int ''size'' (rq_Size r) @ opt_str ''link'' (rq_Link r) @ opt_bool ''is_dir'' (rq_IsDir r))"

definition dec_request :: "(string \<times> json) list \<Rightarrow> request option" where
  "dec_request fs =
     Option.bind (dec_str (member ''op'' fs)) (\<lambda>op.
     Option.bind (dec_str (member ''dir'' fs)) (\<lambda>dir.
     Option.bind (dec_list dec_str_elem (member ''env'' fs)) (\<lambda>env.
     Option.bind (dec_list dec_str_elem (member ''cmd'' fs)) (\<lambda>cmd.
     Option.bind (dec_str (member ''path'' fs)) (\<lambda>p.
     Option.bind (dec_int 0 (2 ^ 32 - 1) (member ''mode'' fs)) (\<lambda>m.
     Option.bind (dec_int64 (member ''size'' fs)) (\<lambda>sz.
     Option.bind (dec_str (member ''link'' fs)) (\<lambda>l.
     Option.bind (dec_bool (member ''is_dir'' fs)) (\<lambda>d.
     Some \<lparr>rq_Op = op, rq_Dir = dir, rq_Env = env, rq_Cmd = cmd, rq_Path = p, rq_Mode = word_of_int m, rq_Size = sz,
       rq_Link = l, rq_IsDir = d\<rparr>)))))))))"

definition reply_json :: "reply \<Rightarrow> json" where
  "reply_json r = JObj
     (opt_bool ''ok'' (rp_OK r) @ opt_str ''error'' (rp_Error r) @ [(''exit'', JNum (itoa (rp_Exit r)))] @
      opt_str ''stdout'' (rp_Stdout r) @ opt_str ''stderr'' (rp_Stderr r) @ opt_list ''entries'' entry_json (rp_Entries r) @
      opt_int ''size'' (rp_Size r))"

definition dec_reply :: "(string \<times> json) list \<Rightarrow> reply option" where
  "dec_reply fs =
     Option.bind (dec_bool (member ''ok'' fs)) (\<lambda>ok.
     Option.bind (dec_str (member ''error'' fs)) (\<lambda>er.
     Option.bind (dec_int64 (member ''exit'' fs)) (\<lambda>ex.
     Option.bind (dec_str (member ''stdout'' fs)) (\<lambda>so.
     Option.bind (dec_str (member ''stderr'' fs)) (\<lambda>se.
     Option.bind (dec_list dec_entry (member ''entries'' fs)) (\<lambda>es.
     Option.bind (dec_int64 (member ''size'' fs)) (\<lambda>sz.
     Some \<lparr>rp_OK = ok, rp_Error = er, rp_Exit = ex, rp_Stdout = so, rp_Stderr = se, rp_Entries = es, rp_Size = sz\<rparr>)))))))"

subsection \<open>The server (agent.go)\<close>

text \<open>A command in the guest: how it ended, what it wrote to its outputs, and the world after it.\<close>

type_synonym 's guest_runner = "path \<Rightarrow> string list \<Rightarrow> string list \<Rightarrow> 's \<Rightarrow> (cmd_end \<times> bytes \<times> bytes) \<times> 's"

text \<open>The server's answer: a header line and the bytes after it.\<close>

definition reply_line :: "reply \<Rightarrow> bytes" where
  "reply_line r = emit None (reply_json r) @ [CHR 0x0A]"

definition inside :: "path \<Rightarrow> string \<Rightarrow> err + path" where
  "inside root rel =
     (if rel = [] \<or> HasPrefix rel ''/'' \<or> Contains (''/'' @ rel @ ''/'') ''/../''
      then Inl (Errorf ''unsafe path %q'' [rel] None)
      else Inr (fp_join root rel))"

text \<open>\<open>run\<close>; a relative \<open>Dir\<close> is taken from the root, where the agent runs.\<close>

definition agent_run :: "'z eworld_scheme guest_runner \<Rightarrow> (err \<Rightarrow> string) \<Rightarrow> request \<Rightarrow> path \<Rightarrow> 'z eworld_scheme \<Rightarrow> reply \<times> 'z eworld_scheme" where
  "agent_run exec errText req root w =
     (if rq_Cmd req = [] then (no_reply\<lparr>rp_Exit := -1, rp_Stderr := ''empty command''\<rparr>, w)
      else
        let dir = (if rq_Dir req \<noteq> [] then fp_join [] (rq_Dir req) else root) in
        case exec dir (rq_Cmd req) (environ w @ rq_Env req) w of
          ((CmdExit code, out, errb), w') \<Rightarrow> (no_reply\<lparr>rp_Exit := code, rp_Stdout := out, rp_Stderr := errb\<rparr>, w')
        | ((CmdErr e, out, errb), w') \<Rightarrow> (no_reply\<lparr>rp_Exit := -1, rp_Stderr := errText e\<rparr>, w')
        | ((CmdOk, out, errb), w') \<Rightarrow> (no_reply\<lparr>rp_Exit := 0, rp_Stdout := out, rp_Stderr := errb\<rparr>, w'))"

text \<open>The visit of one path of \<open>list\<close>.\<close>

fun list_visit :: "hasher \<Rightarrow> fs \<Rightarrow> path \<Rightarrow> path \<times> inode \<Rightarrow> err + entry list" where
  "list_visit sha f root (r, Dir m) = Inr [no_entry\<lparr>e_path := rel_text r, e_mode := perm m, e_dir := True\<rparr>]"
| "list_visit sha f root (r, Link t) =
     (case Readlink f (root @ r) of
        Inl e \<Rightarrow> Inl e
      | Inr target \<Rightarrow> Inr [no_entry\<lparr>e_path := rel_text r, e_mode := mode_0777, e_link := target\<rparr>])"
| "list_visit sha f root (r, File m cs) =
     (case open_cells f (root @ r) of
        Inl e \<Rightarrow> Inl e
      | Inr cells \<Rightarrow> Inr [no_entry\<lparr>e_path := rel_text r, e_mode := perm m, e_size := int (length cells),
          e_hash := hashOf sha (fread cells)\<rparr>])"
| "list_visit sha f root (r, Special m) = Inr []"

fun list_walk :: "hasher \<Rightarrow> fs \<Rightarrow> path \<Rightarrow> (path \<times> inode) list \<Rightarrow> err + entry list" where
  "list_walk sha f root [] = Inr []"
| "list_walk sha f root (x # xs) =
     (case list_visit sha f root x of
        Inl e \<Rightarrow> Inl e
      | Inr es \<Rightarrow> (case list_walk sha f root xs of Inl e \<Rightarrow> Inl e | Inr es' \<Rightarrow> Inr (es @ es')))"

definition agent_list :: "hasher \<Rightarrow> fs \<Rightarrow> path \<Rightarrow> err + entry list" where
  "agent_list sha f root =
     (case WalkDir f root of
        Inl e \<Rightarrow> Inl e
      | Inr listing \<Rightarrow> (case list_walk sha f root listing of Inl e \<Rightarrow> Inl e | Inr out \<Rightarrow> Inr (sort_key e_path out)))"

text \<open>
  \<open>io.CopyN(f, r, n)\<close> into a file just opened: the file gets at most \<open>n\<close> of the bytes that follow,
  and the copy fails with \<open>io.EOF\<close> when there are fewer; a negative \<open>n\<close> copies nothing.
\<close>

definition copy_body :: "mode \<Rightarrow> path \<Rightarrow> mode \<Rightarrow> bytes \<Rightarrow> int \<Rightarrow> ('z world_scheme, unit) io" where
  "copy_body um p m body n =
     bindE (on_fs (WriteFile um p (take (nat n) body) m)) (\<lambda>_.
       if int (length body) < n then fail (Errorf ''EOF'' [] None) else ret ())"

definition agent_write :: "path \<Rightarrow> request \<Rightarrow> bytes \<Rightarrow> ('z world_scheme, unit) io" where
  "agent_write root req body =
     bindE (lift_res (inside root (rq_Path req))) (\<lambda>p.
     bindE (gets umask) (\<lambda>um.
       let m = (if rq_Mode req = 0 then mode_0644 else rq_Mode req) in
       if rq_IsDir req then on_fs (MkdirAll um p (dir_mode (m OR mode_0700)))
       else if rq_Link req \<noteq> [] then
         bindE (attempt (on_fs (MkdirAll um (butlast p) mode_0755))) (\<lambda>_.
         bindE (attempt (on_fs (Remove p))) (\<lambda>_.
         on_fs (Symlink (rq_Link req) p)))
       else
         bindE (on_fs (MkdirAll um (butlast p) mode_0755)) (\<lambda>_.
         copy_body um p (file_mode m) body (rq_Size req))))"

definition agent_clear :: "path \<Rightarrow> ('z world_scheme, unit) io" where
  "agent_clear root =
     bindE (gets hfs) (\<lambda>f.
     bindE (for_each (case ReadDir f root of Inl e \<Rightarrow> [] | Inr names \<Rightarrow> names) (\<lambda>n. RemoveAll_quiet (fp_join root n))) (\<lambda>_.
     bindE (gets umask) (\<lambda>um.
     bindE (attempt (on_fs (MkdirAll um root mode_0755))) (\<lambda>_. ret ()))))"

text \<open>A computation whose error becomes the reply.\<close>

definition or_error :: "(err \<Rightarrow> string) \<Rightarrow> ('s, 'a) io \<Rightarrow> ('a \<Rightarrow> bytes) \<Rightarrow> 's \<Rightarrow> bytes \<times> 's" where
  "or_error errText m out w =
     (case m w of
        (Inl e, w') \<Rightarrow> (reply_line (no_reply\<lparr>rp_Error := errText e\<rparr>), w')
      | (Inr x, w') \<Rightarrow> (out x, w'))"

definition serve :: "hasher \<Rightarrow> 'z eworld_scheme guest_runner \<Rightarrow> (err \<Rightarrow> string) \<Rightarrow> path \<Rightarrow> request \<Rightarrow> bytes \<Rightarrow>
    'z eworld_scheme \<Rightarrow> bytes \<times> 'z eworld_scheme" where
  "serve sha exec errText root req body w =
     (let op = (if rq_Op req = [] \<and> rq_Cmd req \<noteq> [] then ''exec'' else rq_Op req);
          ok = no_reply\<lparr>rp_OK := True\<rparr>
      in
      if op = ''ping'' then (reply_line ok, w)
      else if op = ''exec'' then (case agent_run exec errText req root w of (r, w') \<Rightarrow> (reply_line r, w'))
      else if op = ''tree'' then
        or_error errText (lift_res (agent_list sha (hfs w) root)) (\<lambda>es. reply_line (ok\<lparr>rp_Entries := es\<rparr>)) w
      else if op = ''read'' then
        or_error errText (bindE (lift_res (inside root (rq_Path req))) (\<lambda>p. lift_res (ReadFile (hfs w) p)))
          (\<lambda>b. reply_line (ok\<lparr>rp_Size := int (length b)\<rparr>) @ b) w
      else if op = ''write'' then or_error errText (agent_write root req body) (\<lambda>_. reply_line ok) w
      else if op = ''clear'' then or_error errText (agent_clear root) (\<lambda>_. reply_line ok) w
      else (reply_line (no_reply\<lparr>rp_Error := ''unknown op '' @ op\<rparr>), w))"

definition line_of :: "bytes \<Rightarrow> bytes" where
  "line_of s = takeWhile (\<lambda>c. c \<noteq> CHR 0x0A) s"

definition after_line :: "bytes \<Rightarrow> bytes" where
  "after_line s = drop (Suc (length (line_of s))) s"

definition Handle :: "hasher \<Rightarrow> 'z eworld_scheme guest_runner \<Rightarrow> (err \<Rightarrow> string) \<Rightarrow> path \<Rightarrow> bytes \<Rightarrow>
    'z eworld_scheme \<Rightarrow> bytes \<times> 'z eworld_scheme" where
  "Handle sha exec errText root input w =
     (if input = [] then ([], w)
      else case unmarshal_with dec_request (TrimSpace (line_of input)) of
        None \<Rightarrow> (reply_line (no_reply\<lparr>rp_Error := ''bad request: '' @ errText (Errorf ''json'' [] None)\<rparr>), w)
      | Some req \<Rightarrow> serve sha exec errText root req (after_line input) w)"

subsection \<open>The client (client.go)\<close>

text \<open>
  A connection: what the peer answers to the bytes sent, until it closes. Dialling a vsock socket
  of Firecracker sends one line and gets the first line of the answer and the connection.
\<close>

type_synonym 's session = "bytes \<Rightarrow> ('s, bytes) io"
type_synonym 's dialer = "path \<Rightarrow> bytes \<Rightarrow> ('s, bytes \<times> 's session) io"

definition agent_Port :: int where
  "agent_Port = 1024"

definition DialFirecracker :: "'s dialer \<Rightarrow> path \<Rightarrow> ('s, 's session) io" where
  "DialFirecracker dial udsPath =
     bindE (dial udsPath (''CONNECT '' @ itoa agent_Port @ [CHR 0x0A])) (\<lambda>(line, conn).
       if CHR 0x0A \<notin> set line \<or> \<not> HasPrefix line ''OK ''
       then fail (Errorf ''guest agent did not accept the connection (%q, %v)'' [TrimSpace line] None)
       else ret conn)"

definition Call :: "'s session \<Rightarrow> request \<Rightarrow> bytes \<Rightarrow> ('s, reply \<times> bytes) io" where
  "Call conn req body =
     bindE (conn (emit None (request_json req) @ [CHR 0x0A] @ body)) (\<lambda>out.
       if CHR 0x0A \<notin> set out then fail (Errorf ''reading agent reply: %w'' [] (Some (Errorf ''EOF'' [] None)))
       else case unmarshal_with dec_reply (line_of out) of
         None \<Rightarrow> fail (Errorf ''bad agent reply %q: %w'' [line_of out] (Some (Errorf ''json'' [] None)))
       | Some r \<Rightarrow>
           if rp_Error r \<noteq> [] then fail (Errorf ''guest agent: %s'' [rp_Error r] None)
           else if rq_Op req \<noteq> ''read'' then ret (r, [])
           else if rp_Size r < 0 then fail (Panic ''makeslice: len out of range'')
           else if int (length (after_line out)) < rp_Size r then fail (Errorf ''unexpected EOF'' [] None)
           else ret (r, take (nat (rp_Size r)) (after_line out)))"

end
