(* ===== verification/Firecracker.thy ===== *)
theory Firecracker
  imports Agent
begin

section \<open>The Firecracker backend (internal/fcvm/firecracker.go, internal/fcvm/guest.go)\<close>

text \<open>
  Each sandbox is a Firecracker microVM with a directory of its own. The driver keeps no state: it
  works on files, processes, a REST API and the guest agent. Files are those of the host's
  filesystem; what the operating system and Firecracker answer is a parameter, the record
  \<open>fc_host\<close>: whether a process is there, what \<open>/proc\<close> says of it, starting a detached process and
  killing one, dialling sockets, one API call, running a tool such as \<open>cp\<close>. Paths are absolute.
  A loop that runs until a deadline runs as often as the clock allows; that number is an input
  (\<open>h_api_tries\<close>, \<open>h_agent_tries\<close>), and sleeping has no effect.
\<close>

subsection \<open>The host\<close>

text \<open>
  \<open>h_kill\<close>: \<open>syscall.Kill\<close>; \<open>h_exists\<close>: whether signal 0 can be sent; \<open>h_proc\<close>: reading a file of
  \<open>/proc\<close>; \<open>h_start\<close>: starting a command in a directory, its output going to a log, which
  gives its process id; \<open>h_dial\<close>: whether a unix socket accepts; \<open>h_api\<close>: a request to the HTTP
  server on a socket, answered by a status code, a status text and a body; \<open>h_tool\<close>: running a
  command to its end.
\<close>

record 's fc_host =
  h_kill :: "int \<Rightarrow> int \<Rightarrow> ('s, unit) io"
  h_exists :: "int \<Rightarrow> 's \<Rightarrow> bool"
  h_proc :: "string \<Rightarrow> 's \<Rightarrow> err + bytes"
  h_start :: "string list \<Rightarrow> path \<Rightarrow> path \<Rightarrow> ('s, int) io"
  h_dial :: "path \<Rightarrow> ('s, unit) io"
  h_api :: "path \<Rightarrow> string \<Rightarrow> string \<Rightarrow> json \<Rightarrow> ('s, int \<times> string \<times> bytes) io"
  h_tool :: "string list \<Rightarrow> ('s, bytes) io"
  h_agent :: "'s dialer"
  h_api_tries :: nat
  h_agent_tries :: nat

subsection \<open>Configuration\<close>

text \<open>A path of the configuration that may be empty is an option. \<open>AgentTimeout\<close> is in nanoseconds.\<close>

record config =
  FirecrackerBin :: string
  KernelImage :: string
  RootFS :: "path option"
  RunDir :: "path option"
  VCPUs :: int
  MemMiB :: int
  BootArgs :: string
  AgentTimeout :: int
  DiskMode :: string
  UpperGiB :: int

definition DefaultBootArgs :: string where
  "DefaultBootArgs = ''console=ttyS0 reboot=k panic=1 pci=off init=/sbin/vit-init''"

definition or_str :: "string \<Rightarrow> string \<Rightarrow> string" where
  "or_str s d = (if s = [] then d else s)"

definition or_int :: "int \<Rightarrow> int \<Rightarrow> int" where
  "or_int i d = (if i = 0 then d else i)"

definition New :: "config \<Rightarrow> ('z eworld_scheme, config) io" where
  "New cfg =
     bindE (gets tempDir) (\<lambda>tmp.
       let run = (case RunDir cfg of None \<Rightarrow> fp_join tmp ''vit-fc'' | Some p \<Rightarrow> p) in
       bindE (gets umask) (\<lambda>um.
       bindE (on_fs (MkdirAll um run mode_0755)) (\<lambda>_.
       ret (cfg\<lparr>FirecrackerBin := or_str (FirecrackerBin cfg) ''firecracker'', VCPUs := or_int (VCPUs cfg) 1,
         MemMiB := or_int (MemMiB cfg) 512, BootArgs := or_str (BootArgs cfg) DefaultBootArgs,
         AgentTimeout := or_int (AgentTimeout cfg) (60 * 10 ^ 9), RunDir := Some run,
         DiskMode := or_str (DiskMode cfg) ''overlay'', UpperGiB := or_int (UpperGiB cfg) 8\<rparr>))))"

text \<open>The driver: its configuration, as \<open>New\<close> made it, and the host.\<close>

record 's fc =
  fc_cfg :: config
  fc_host :: "'s fc_host"

definition run_dir :: "'s fc \<Rightarrow> path" where
  "run_dir fc = (case RunDir (fc_cfg fc) of None \<Rightarrow> [] | Some p \<Rightarrow> p)"

definition vm_dir :: "'s fc \<Rightarrow> string \<Rightarrow> path" where
  "vm_dir fc i = fp_join (run_dir fc) i"

definition apiSock :: "'s fc \<Rightarrow> string \<Rightarrow> path" where
  "apiSock fc i = fp_join (vm_dir fc i) ''api.sock''"

definition vsock :: "'s fc \<Rightarrow> string \<Rightarrow> path" where
  "vsock fc i = fp_join (vm_dir fc i) ''v.sock''"

definition LogPath :: "'s fc \<Rightarrow> string \<Rightarrow> path" where
  "LogPath fc i = fp_join (vm_dir fc i) ''fc.log''"

definition baseFile :: "'s fc \<Rightarrow> string \<Rightarrow> path" where
  "baseFile fc i = fp_join (vm_dir fc i) ''base''"

subsection \<open>Processes\<close>

definition fc_pid :: "'z world_scheme fc \<Rightarrow> string \<Rightarrow> fs \<Rightarrow> int" where
  "fc_pid fc i f =
     (case ReadFile f (fp_join (vm_dir fc i) ''pid'') of
        Inl e \<Rightarrow> 0
      | Inr b \<Rightarrow> Atoi_value (TrimSpace b))"

text \<open>The byte two after the last closing parenthesis, where there is one.\<close>

definition proc_state :: "bytes \<Rightarrow> char option" where
  "proc_state stat =
     (let after = takeWhile (\<lambda>c. c \<noteq> CHR '')'') (rev stat) in
      if CHR '')'' \<in> set stat \<and> 1 < length after then Some (rev after ! 1) else None)"

definition alive :: "'s fc_host \<Rightarrow> int \<Rightarrow> 's \<Rightarrow> bool" where
  "alive h pid w =
     (if pid \<le> 0 \<or> \<not> h_exists h pid w then False
      else case h_proc h (''/proc/'' @ itoa pid @ ''/stat'') w of
        Inl e \<Rightarrow> False
      | Inr stat \<Rightarrow> (case proc_state stat of None \<Rightarrow> True | Some c \<Rightarrow> c \<noteq> CHR ''Z''))"

definition fc_Running :: "'z world_scheme fc \<Rightarrow> string \<Rightarrow> 'z world_scheme \<Rightarrow> bool" where
  "fc_Running fc i w =
     (let p = fc_pid fc i (hfs w) in
      alive (fc_host fc) p w \<and>
      Contains (case h_proc (fc_host fc) (''/proc/'' @ itoa p @ ''/cmdline'') w of Inl e \<Rightarrow> [] | Inr b \<Rightarrow> b)
        (path_text (apiSock fc i)))"

text \<open>The bodies of API calls are maps, which \<open>json.Marshal\<close> writes by key.\<close>

definition map_json :: "(string \<times> json) list \<Rightarrow> json" where
  "map_json kvs = JObj (sort_key fst kvs)"

definition api :: "'s fc \<Rightarrow> string \<Rightarrow> string \<Rightarrow> string \<Rightarrow> json \<Rightarrow> ('s, unit) io" where
  "api fc i verb p body =
     bindE (h_api (fc_host fc) (apiSock fc i) verb p body) (\<lambda>(code, status, msg).
       if code \<ge> 300
       then fail (Errorf ''firecracker %s %s: %s: %s'' [verb, p, status, TrimSpace (take 4096 msg)] None)
       else ret ())"

text \<open>\<open>os.OpenFile(p, O_CREATE|O_APPEND|O_WRONLY, m)\<close>: an existing file is left as it is.\<close>

definition open_append :: "mode \<Rightarrow> path \<Rightarrow> mode \<Rightarrow> (fs, unit) io" where
  "open_append um p m = (\<lambda>f.
     case Stat f p of
       Inr (File m' cs) \<Rightarrow> (Inr (), f)
     | Inr (Dir m') \<Rightarrow> (Inl (Errno EISDIR), f)
     | Inr i \<Rightarrow> (Inl (Errno ENXIO), f)
     | Inl e \<Rightarrow> WriteFile um p [] m f)"

definition SIGKILL :: int where
  "SIGKILL = 9"

definition ReplaceAll1 :: "string \<Rightarrow> char \<Rightarrow> char \<Rightarrow> string" where
  "ReplaceAll1 s a b = map (\<lambda>c. if c = a then b else c) s"

text \<open>The loop that waits for the API socket.\<close>

fun await_api :: "'s fc \<Rightarrow> string \<Rightarrow> int \<Rightarrow> nat \<Rightarrow> ('s, unit) io" where
  "await_api fc i pid 0 =
     bindE (attempt (h_kill (fc_host fc) pid SIGKILL)) (\<lambda>_.
     fail (Errorf ''firecracker API socket never came up for %s (see %s)'' [i, path_text (LogPath fc i)] None))"
| "await_api fc i pid (Suc n) =
     bindE (attempt (h_dial (fc_host fc) (apiSock fc i))) (\<lambda>r.
       case r of Inr _ \<Rightarrow> ret () | Inl e \<Rightarrow> await_api fc i pid n)"

definition spawn :: "'z world_scheme fc \<Rightarrow> string \<Rightarrow> ('z world_scheme, unit) io" where
  "spawn fc i =
     bindE (gets umask) (\<lambda>um.
     bindE (on_fs (MkdirAll um (vm_dir fc i) mode_0755)) (\<lambda>_.
     bindE (attempt (on_fs (Remove (apiSock fc i)))) (\<lambda>_.
     bindE (attempt (on_fs (Remove (vsock fc i)))) (\<lambda>_.
     bindE (on_fs (open_append um (LogPath fc i) mode_0644)) (\<lambda>_.
     bindE (attempt (h_start (fc_host fc) [FirecrackerBin (fc_cfg fc), ''--api-sock'', path_text (apiSock fc i), ''--id'',
         ReplaceAll1 i (CHR ''_'') (CHR ''-'')] (vm_dir fc i) (LogPath fc i))) (\<lambda>r.
       case r of
         Inl e \<Rightarrow> fail (Errorf ''starting firecracker: %w'' [] (Some e))
       | Inr pid \<Rightarrow>
           bindE (on_fs (WriteFile um (fp_join (vm_dir fc i) ''pid'') (itoa pid) mode_0644)) (\<lambda>_.
           await_api fc i pid (h_api_tries (fc_host fc)))))))))"

definition copyFile :: "'s fc \<Rightarrow> path \<Rightarrow> path \<Rightarrow> ('s, unit) io" where
  "copyFile fc src dst =
     bindE (attempt (h_tool (fc_host fc) [''cp'', ''--reflink=auto'', ''--sparse=always'', path_text src, path_text dst])) (\<lambda>r.
       case r of
         Inl e \<Rightarrow> fail (Errorf ''copying %s: %v: %s'' [path_text src] (Some e))
       | Inr _ \<Rightarrow> ret ())"

text \<open>\<open>os.Truncate\<close> of a regular file; what it grows by is a hole.\<close>

definition Truncate :: "path \<Rightarrow> int \<Rightarrow> (fs, unit) io" where
  "Truncate p n = (\<lambda>f.
     if n < 0 then (Inl (Errno EINVAL), f)
     else case namei f True p of
       Inl e \<Rightarrow> (Inl e, f)
     | Inr q \<Rightarrow> (case inode_at f q of
         None \<Rightarrow> (Inl (Errno ENOENT), f)
       | Some (File m cs) \<Rightarrow> (Inr (), fmupd q (File m (take (nat n) cs @ replicate (nat n - length cs) None)) f)
       | Some (Dir m) \<Rightarrow> (Inl (Errno EISDIR), f)
       | Some i \<Rightarrow> (Inl (Errno EINVAL), f)))"

definition upperTemplate :: "'z world_scheme fc \<Rightarrow> ('z world_scheme, path) io" where
  "upperTemplate fc =
     (let p = fp_join (run_dir fc) (''upper-'' @ itoa (UpperGiB (fc_cfg fc)) @ ''g.ext4'') in
      bindE (gets hfs) (\<lambda>f.
        if exists_at f p then ret p
        else
          bindE (gets umask) (\<lambda>um.
          bindE (on_fs (CreateTemp um (run_dir fc) ''.upper-'')) (\<lambda>tmp.
          bindE (on_fs (Truncate tmp (int64 (UpperGiB (fc_cfg fc) * 2 ^ 30)))) (\<lambda>_.
          bindE (attempt (h_tool (fc_host fc) [''mkfs.ext4'', ''-q'', ''-F'', ''-L'', ''vit-upper'', ''-E'',
              ''lazy_itable_init=1,lazy_journal_init=1'', path_text tmp])) (\<lambda>r.
            case r of
              Inl e \<Rightarrow>
                bindE (attempt (on_fs (Remove tmp))) (\<lambda>_. fail (Errorf ''making the writable disk: %v: %s'' [] (Some e)))
            | Inr _ \<Rightarrow> bindE (on_fs (Rename tmp p)) (\<lambda>_. ret p)))))))"

subsection \<open>Talking to the guest (guest.go)\<close>

definition fc_call :: "'s fc \<Rightarrow> string \<Rightarrow> request \<Rightarrow> bytes \<Rightarrow> ('s, reply \<times> bytes) io" where
  "fc_call fc i req body =
     bindE (attempt (DialFirecracker (h_agent (fc_host fc)) (vsock fc i))) (\<lambda>r.
       case r of
         Inl e \<Rightarrow> fail (Errorf ''reaching the agent in %s: %w'' [i] (Some e))
       | Inr c \<Rightarrow> Call c req body)"

fun await_agent :: "'s fc \<Rightarrow> string \<Rightarrow> err option \<Rightarrow> nat \<Rightarrow> ('s, unit) io" where
  "await_agent fc i lst 0 =
     fail (Errorf ''guest agent in %s did not answer within %s: %v (console: %s)''
       [i, itoa (AgentTimeout (fc_cfg fc)), path_text (LogPath fc i)] lst)"
| "await_agent fc i lst (Suc n) =
     bindE (attempt (fc_call fc i (no_request\<lparr>rq_Op := ''ping''\<rparr>) [])) (\<lambda>r.
       case r of Inr _ \<Rightarrow> ret () | Inl e \<Rightarrow> await_agent fc i (Some e) n)"

definition waitAgent :: "'s fc \<Rightarrow> string \<Rightarrow> ('s, unit) io" where
  "waitAgent fc i = await_agent fc i None (h_agent_tries (fc_host fc))"

definition hostOnly :: "string list" where
  "hostOnly = [''PATH='', ''HOME='', ''PWD='', ''OLDPWD='', ''SHLVL='', ''_='', ''TMPDIR='', ''SSH_'', ''XDG_'', ''DBUS_'', ''VIT_'']"

definition guestEnv :: "string list \<Rightarrow> string list" where
  "guestEnv env = filter (\<lambda>kv. \<not> list_ex (HasPrefix kv) hostOnly) env"

text \<open>The outputs of the command, which the caller prints, are left out.\<close>

definition fc_Exec :: "'s fc \<Rightarrow> string \<Rightarrow> path \<Rightarrow> string list \<Rightarrow> string list \<Rightarrow> ('s, int) io" where
  "fc_Exec fc i workDir command env =
     bindE (fc_call fc i (no_request\<lparr>rq_Op := ''exec'', rq_Cmd := command, rq_Env := guestEnv env\<rparr>) []) (\<lambda>(r, _).
     ret (rp_Exit r))"

definition fc_ListFiles :: "'s fc \<Rightarrow> string \<Rightarrow> ('s, entry list) io" where
  "fc_ListFiles fc i = bindE (fc_call fc i (no_request\<lparr>rq_Op := ''tree''\<rparr>) []) (\<lambda>(r, _). ret (rp_Entries r))"

definition fc_ReadFile :: "'s fc \<Rightarrow> string \<Rightarrow> string \<Rightarrow> ('s, bytes) io" where
  "fc_ReadFile fc i p = bindE (fc_call fc i (no_request\<lparr>rq_Op := ''read'', rq_Path := p\<rparr>) []) (\<lambda>(_, data). ret data)"

definition write_entry :: "'z world_scheme fc \<Rightarrow> string \<Rightarrow> blob_func \<Rightarrow> entry \<Rightarrow> ('z world_scheme, unit) io" where
  "write_entry fc i blob e =
     (let req = no_request\<lparr>rq_Op := ''write'', rq_Path := e_path e, rq_Mode := e_mode e, rq_Link := e_link e, rq_IsDir := e_dir e\<rparr> in
      bindE (gets hfs) (\<lambda>f.
      bindE (if \<not> e_dir e \<and> e_link e = []
             then bindE (lift_res (blob f (e_hash e))) (\<lambda>b. ret (b, req\<lparr>rq_Size := int (length b)\<rparr>))
             else ret ([], req)) (\<lambda>(body, req').
      bindE (attempt (fc_call fc i req' body)) (\<lambda>r.
        case r of
          Inl er \<Rightarrow> fail (Errorf ''writing %s into the guest: %w'' [e_path e] (Some er))
        | Inr _ \<Rightarrow> ret ()))))"

definition fc_WriteTree :: "'z world_scheme fc \<Rightarrow> string \<Rightarrow> tree \<Rightarrow> blob_func \<Rightarrow> ('z world_scheme, unit) io" where
  "fc_WriteTree fc i t blob =
     bindE (fc_call fc i (no_request\<lparr>rq_Op := ''clear''\<rparr>) []) (\<lambda>_. for_each t (write_entry fc i blob))"

subsection \<open>Machines\<close>

text \<open>The loop of \<open>kill\<close> waits at most 200 times for the process to be gone.\<close>

fun await_death :: "'s fc_host \<Rightarrow> int \<Rightarrow> nat \<Rightarrow> ('s, unit) io" where
  "await_death h p 0 = ret ()"
| "await_death h p (Suc n) = bindE (gets (alive h p)) (\<lambda>up. if up then await_death h p n else ret ())"

definition fc_kill :: "'z world_scheme fc \<Rightarrow> string \<Rightarrow> ('z world_scheme, unit) io" where
  "fc_kill fc i =
     bindE (gets (fc_Running fc i)) (\<lambda>up.
       if up then
         bindE (gets (\<lambda>w. fc_pid fc i (hfs w))) (\<lambda>p.
         bindE (attempt (h_kill (fc_host fc) p SIGKILL)) (\<lambda>_.
         await_death (fc_host fc) p 200))
       else ret ())"

definition fc_Shutdown :: "'z world_scheme fc \<Rightarrow> string \<Rightarrow> ('z world_scheme, unit) io" where
  "fc_Shutdown fc i =
     bindE (fc_kill fc i) (\<lambda>_. bindE (attempt (on_fs (RemoveAll (vm_dir fc i)))) (\<lambda>_. ret ()))"

definition overlay :: "'s fc \<Rightarrow> bool" where
  "overlay fc \<longleftrightarrow> DiskMode (fc_cfg fc) = ''overlay''"

definition drive :: "string \<Rightarrow> string \<Rightarrow> bool \<Rightarrow> bool \<Rightarrow> string \<times> string \<times> json" where
  "drive name path isRoot readOnly = (''PUT'', ''/drives/'' @ name, map_json
     [(''drive_id'', JStr name), (''path_on_host'', JStr path), (''is_root_device'', JBool isRoot), (''is_read_only'', JBool readOnly)])"

definition boot_steps :: "'s fc \<Rightarrow> (string \<times> string \<times> json) list" where
  "boot_steps fc =
     [(''PUT'', ''/boot-source'', map_json [(''kernel_image_path'', JStr (KernelImage (fc_cfg fc))), (''boot_args'', JStr (BootArgs (fc_cfg fc)))])] @
     (if overlay fc then [drive ''rootfs'' ''base.ext4'' True True, drive ''upper'' ''upper.ext4'' False False]
      else [drive ''rootfs'' ''rootfs.ext4'' True False]) @
     [(''PUT'', ''/machine-config'', map_json [(''vcpu_count'', JNum (itoa (VCPUs (fc_cfg fc)))),
        (''mem_size_mib'', JNum (itoa (MemMiB (fc_cfg fc)))), (''track_dirty_pages'', JBool True)]),
      (''PUT'', ''/vsock'', map_json [(''guest_cid'', JNum (itoa 3)), (''uds_path'', JStr ''v.sock'')]),
      (''PUT'', ''/actions'', map_json [(''action_type'', JStr ''InstanceStart'')])]"

text \<open>The loop over the steps: an error shuts the machine down.\<close>

definition boot_step :: "'z world_scheme fc \<Rightarrow> string \<Rightarrow> string \<times> string \<times> json \<Rightarrow> ('z world_scheme, unit) io" where
  "boot_step fc i s =
     (case s of (verb, p, body) \<Rightarrow>
        bindE (attempt (api fc i verb p body)) (\<lambda>r.
          case r of Inr _ \<Rightarrow> ret () | Inl e \<Rightarrow> bindE (attempt (fc_Shutdown fc i)) (\<lambda>_. fail e)))"

text \<open>The disks of a fresh machine.\<close>

definition boot_disks :: "'z world_scheme fc \<Rightarrow> path \<Rightarrow> path \<Rightarrow> ('z world_scheme, unit) io" where
  "boot_disks fc d rootfs =
     (if overlay fc then
        bindE (on_fs (Symlink (path_text rootfs) (fp_join d ''base.ext4''))) (\<lambda>_.
        bindE (upperTemplate fc) (\<lambda>tmpl. copyFile fc tmpl (fp_join d ''upper.ext4'')))
      else copyFile fc rootfs (fp_join d ''rootfs.ext4''))"

definition fc_Boot :: "'z world_scheme fc \<Rightarrow> string \<Rightarrow> path \<Rightarrow> ('z world_scheme, unit) io" where
  "fc_Boot fc i workDir =
     bindE (gets (fc_Running fc i)) (\<lambda>up.
       if up then ret ()
       else case RootFS (fc_cfg fc) of
         None \<Rightarrow> fail (Errorf ''firecracker backend needs a kernel and a root filesystem'' [] None)
       | Some rootfs \<Rightarrow>
           if KernelImage (fc_cfg fc) = [] then fail (Errorf ''firecracker backend needs a kernel and a root filesystem'' [] None)
           else
             bindE (attempt (on_fs (RemoveAll (vm_dir fc i)))) (\<lambda>_.
             bindE (gets umask) (\<lambda>um.
             bindE (on_fs (MkdirAll um (vm_dir fc i) mode_0755)) (\<lambda>_.
             bindE (boot_disks fc (vm_dir fc i) rootfs) (\<lambda>_.
             bindE (spawn fc i) (\<lambda>_.
             bindE (for_each (boot_steps fc) (boot_step fc i)) (\<lambda>_.
             waitAgent fc i)))))))"

definition fc_Rebase :: "'z world_scheme fc \<Rightarrow> string \<Rightarrow> string \<Rightarrow> ('z world_scheme, unit) io" where
  "fc_Rebase fc i base = bindE (gets umask) (\<lambda>um. on_fs (WriteFile um (baseFile fc i) base mode_0644))"

text \<open>A deferred call whose error is returned when nothing else failed.\<close>

definition deferring_err :: "('s, unit) io \<Rightarrow> ('s, 'a) io \<Rightarrow> ('s, 'a) io" where
  "deferring_err cleanup m =
     bindE (attempt m) (\<lambda>r. bindE (attempt cleanup) (\<lambda>c.
       case r of Inl e \<Rightarrow> fail e | Inr x \<Rightarrow> (case c of Inl e \<Rightarrow> fail e | Inr _ \<Rightarrow> ret x)))"

definition set_state :: "'s fc \<Rightarrow> string \<Rightarrow> string \<Rightarrow> ('s, unit) io" where
  "set_state fc i st = api fc i ''PATCH'' ''/vm'' (map_json [(''state'', JStr st)])"

text \<open>Whether the memory written is a diff against \<open>base\<close>: it is the image the machine was last resumed from or rebased onto.\<close>

definition is_diff :: "'s fc \<Rightarrow> string \<Rightarrow> string \<Rightarrow> fs \<Rightarrow> bool" where
  "is_diff fc i base f \<longleftrightarrow>
     base \<noteq> [] \<and> (case ReadFile f (baseFile fc i) of Inl e \<Rightarrow> [] | Inr b \<Rightarrow> b) = base"

text \<open>What happens between the pause and the resumption.\<close>

definition take_snapshot :: "'z world_scheme fc \<Rightarrow> string \<Rightarrow> path \<Rightarrow> bool \<Rightarrow> string \<Rightarrow> ('z world_scheme, image) io" where
  "take_snapshot fc i out diff base =
     (let mem = fp_join out ''mem''; st = fp_join out ''state''; disk = fp_join out ''disk'' in
      bindE (api fc i ''PUT'' ''/snapshot/create'' (map_json [(''snapshot_type'', JStr (if diff then ''Diff'' else ''Full'')),
        (''snapshot_path'', JStr (path_text st)), (''mem_file_path'', JStr (path_text mem))])) (\<lambda>_.
      bindE (gets hfs) (\<lambda>f.
        let link = Readlink f (fp_join (vm_dir fc i) ''base.ext4'');
            writable = fp_join (vm_dir fc i) (case link of Inr _ \<Rightarrow> ''upper.ext4'' | Inl _ \<Rightarrow> ''rootfs.ext4'');
            img = \<lparr>img_Memory = mem, img_State = st, img_Disk = Some disk,
              img_BaseDisk = (case link of Inr t \<Rightarrow> Some (fp_join [] t) | Inl _ \<Rightarrow> None),
              img_MemoryIsDiff = diff, img_Base = (if diff then base else [])\<rparr>
        in bindE (copyFile fc writable disk) (\<lambda>_. ret img))))"

definition fc_Snapshot :: "'z world_scheme fc \<Rightarrow> string \<Rightarrow> path \<Rightarrow> string \<Rightarrow> ('z world_scheme, image) io" where
  "fc_Snapshot fc i out base =
     bindE (gets (fc_Running fc i)) (\<lambda>up.
       if \<not> up then fail (Errorf ''sandbox %s is not running'' [i] None)
       else
         bindE (gets (\<lambda>w. is_diff fc i base (hfs w))) (\<lambda>diff.
         bindE (set_state fc i ''Paused'') (\<lambda>_.
         deferring_err (set_state fc i ''Resumed'') (take_snapshot fc i out diff base))))"

text \<open>The disks of a resumed machine, laid out the way the snapshot recorded them.\<close>

definition resume_disks :: "'z world_scheme fc \<Rightarrow> path \<Rightarrow> path \<Rightarrow> path option \<Rightarrow> ('z world_scheme, unit) io" where
  "resume_disks fc d disk base =
     (case base of
        Some b \<Rightarrow>
          bindE (on_fs (Symlink (path_text b) (fp_join d ''base.ext4''))) (\<lambda>_. copyFile fc disk (fp_join d ''upper.ext4''))
      | None \<Rightarrow> copyFile fc disk (fp_join d ''rootfs.ext4''))"

definition load_body :: "image \<Rightarrow> string \<Rightarrow> json" where
  "load_body img flag = map_json
     [(''snapshot_path'', JStr (path_text (img_State img))),
      (''mem_backend'', map_json [(''backend_type'', JStr ''File''), (''backend_path'', JStr (path_text (img_Memory img)))]),
      (flag, JBool True), (''resume_vm'', JBool True)]"

text \<open>\<open>err.Error()\<close> mentions the flag an older Firecracker does not know: the text is the host's.\<close>

definition load_image :: "'z world_scheme fc \<Rightarrow> (err \<Rightarrow> string) \<Rightarrow> string \<Rightarrow> image \<Rightarrow> ('z world_scheme, unit) io" where
  "load_image fc errText i img =
     bindE (attempt (api fc i ''PUT'' ''/snapshot/load'' (load_body img ''track_dirty_pages''))) (\<lambda>r.
       case r of
         Inr _ \<Rightarrow> ret ()
       | Inl e \<Rightarrow>
           if \<not> Contains (errText e) ''track_dirty_pages'' then bindE (attempt (fc_Shutdown fc i)) (\<lambda>_. fail e)
           else
             bindE (fc_kill fc i) (\<lambda>_.
             bindE (spawn fc i) (\<lambda>_.
             bindE (attempt (api fc i ''PUT'' ''/snapshot/load'' (load_body img ''enable_diff_snapshots''))) (\<lambda>r2.
               case r2 of
                 Inr _ \<Rightarrow> ret ()
               | Inl e2 \<Rightarrow> bindE (attempt (fc_Shutdown fc i)) (\<lambda>_. fail e2)))))"

definition fc_Resume :: "'z world_scheme fc \<Rightarrow> (err \<Rightarrow> string) \<Rightarrow> string \<Rightarrow> path \<Rightarrow> image \<Rightarrow> ('z world_scheme, unit) io" where
  "fc_Resume fc errText i workDir img =
     bindE (attempt (fc_Shutdown fc i)) (\<lambda>_.
     bindE (attempt (on_fs (RemoveAll (vm_dir fc i)))) (\<lambda>_.
     bindE (gets umask) (\<lambda>um.
     bindE (on_fs (MkdirAll um (vm_dir fc i) mode_0755)) (\<lambda>_.
       case img_Disk img of
         None \<Rightarrow> fail (Errorf ''a firecracker image needs its disk'' [] None)
       | Some disk \<Rightarrow>
           bindE (resume_disks fc (vm_dir fc i) disk (img_BaseDisk img)) (\<lambda>_.
           bindE (spawn fc i) (\<lambda>_.
           bindE (load_image fc errText i img) (\<lambda>_.
           bindE (fc_Rebase fc i (img_Base img)) (\<lambda>_.
           waitAgent fc i))))))))"

text \<open>\<open>Firecracker\<close> as the interfaces of the engine see it.\<close>

definition firecracker :: "'z world_scheme fc \<Rightarrow> (err \<Rightarrow> string) \<Rightarrow> 'z world_scheme backend" where
  "firecracker fc errText =
     \<lparr>b_Name = ''firecracker'', b_Exec = fc_Exec fc,
      b_mem = Some \<lparr>m_Boot = fc_Boot fc, m_Running = fc_Running fc, m_Snapshot = fc_Snapshot fc, m_Rebase = fc_Rebase fc,
        m_Resume = fc_Resume fc errText, m_Shutdown = fc_Shutdown fc\<rparr>,
      b_guest = Some \<lparr>g_ListFiles = fc_ListFiles fc, g_ReadFile = fc_ReadFile fc, g_WriteTree = fc_WriteTree fc\<rparr>\<rparr>"

end
