(* ===== verification/CliConfig.thy ===== *)
theory CliConfig
  imports S3 Firecracker
begin

section \<open>Flags and configuration of the command line (cmd/vit/flags.go, cmd/vit/config.go)\<close>

text \<open>
  The command line's world adds to the engine's the working directory, a physical path, and what
  was written to the standard outputs. What is outside the program is a record \<open>outside\<close>:
  the hash, running a process, the host of the Firecracker driver, the HTTP client and the decoding
  of a listing, the text of an error value. A path stays text until it is used; a relative one is
  taken from the working directory. \<open>strings.ToUpper\<close> is that of ASCII text.
\<close>

record cworld = eworld +
  cwd :: path
  out :: string
  errout :: string

record 's outside =
  x_sha :: hasher
  x_run :: "'s runner"
  x_fc :: "'s fc_host"
  x_http :: "'s http_client"
  x_xml :: "bytes \<Rightarrow> err + list_result"
  x_text :: "err \<Rightarrow> string"

subsection \<open>Text and paths\<close>

text \<open>\<open>utf8.RuneCountInString\<close>.\<close>

function rune_count :: "string \<Rightarrow> nat" where
  "rune_count s = (if s = [] then 0 else Suc (rune_count (drop (max 1 (rune_len s)) s)))"
  by pat_completeness auto
termination by (relation "measure length") auto

declare rune_count.simps [simp del]

text \<open>\<open>%-nd\<close> and \<open>%-ns\<close>.\<close>

definition pad_right :: "nat \<Rightarrow> string \<Rightarrow> string" where
  "pad_right n s = s @ replicate (n - rune_count s) (CHR '' '')"

definition print :: "string \<Rightarrow> ('z cworld_scheme, unit) io" where
  "print s = modify (\<lambda>w. w\<lparr>out := out w @ s\<rparr>)"

definition nl :: string where
  "nl = [CHR 0x0A]"

text \<open>\<open>filepath.Clean\<close> and \<open>filepath.Join\<close> on text.\<close>

fun clean_parts :: "bool \<Rightarrow> string list \<Rightarrow> string list \<Rightarrow> string list" where
  "clean_parts rooted acc [] = rev acc"
| "clean_parts rooted acc (c # cs) =
     (if c = [] \<or> c = ''.'' then clean_parts rooted acc cs
      else if c = ''..'' then
        (case acc of
           [] \<Rightarrow> clean_parts rooted (if rooted then [] else [''..'']) cs
         | a # as \<Rightarrow> if a = ''..'' then clean_parts rooted (''..'' # acc) cs else clean_parts rooted as cs)
      else clean_parts rooted (c # acc) cs)"

definition Clean :: "string \<Rightarrow> string" where
  "Clean s =
     (let rooted = HasPrefix s ''/''; ps = clean_parts rooted [] (split_on (CHR ''/'') s) in
      if rooted then CHR ''/'' # join_with (CHR ''/'') ps
      else if ps = [] then ''.'' else join_with (CHR ''/'') ps)"

definition Join :: "string list \<Rightarrow> string" where
  "Join ps = (let qs = filter (\<lambda>p. p \<noteq> []) ps in if qs = [] then [] else Clean (join_with (CHR ''/'') qs))"

text \<open>Where a path, as text, leads from the working directory.\<close>

definition path_of :: "path \<Rightarrow> string \<Rightarrow> path" where
  "path_of d s = fp_join (if HasPrefix s ''/'' then [] else d) s"

subsection \<open>Flags (flags.go)\<close>

record flagset =
  fl_opts :: "string \<rightharpoonup> string"
  fl_rest :: "string list"

fun index_from :: "int \<Rightarrow> string \<Rightarrow> char \<Rightarrow> int" where
  "index_from i [] b = -1"
| "index_from i (c # cs) b = (if c = b then i else index_from (i + 1) cs b)"

definition indexByte :: "string \<Rightarrow> char \<Rightarrow> int" where
  "indexByte s b = index_from 0 s b"

fun parse_args :: "string list \<Rightarrow> flagset \<Rightarrow> flagset" where
  "parse_args [] f = f"
| "parse_args (a # args) f =
     (if 2 < length a \<and> take 2 a = ''--'' then
        let key = drop 2 a; eq = indexByte key (CHR ''='') in
        if 0 \<le> eq then parse_args args (f\<lparr>fl_opts := (fl_opts f)(take (nat eq) key \<mapsto> drop (nat eq + 1) key)\<rparr>)
        else (case args of
                v # rest \<Rightarrow> parse_args rest (f\<lparr>fl_opts := (fl_opts f)(key \<mapsto> v)\<rparr>)
              | [] \<Rightarrow> f\<lparr>fl_opts := (fl_opts f)(key \<mapsto> [])\<rparr>)
      else parse_args args (f\<lparr>fl_rest := fl_rest f @ [a]\<rparr>))"

definition parseFlags :: "string list \<Rightarrow> flagset" where
  "parseFlags args = parse_args args \<lparr>fl_opts = Map.empty, fl_rest = []\<rparr>"

definition fl_str :: "flagset \<Rightarrow> string \<Rightarrow> string" where
  "fl_str f key = (case fl_opts f key of None \<Rightarrow> [] | Some v \<Rightarrow> v)"

subsection \<open>Configuration (config.go)\<close>

definition configKeys :: "(string \<times> string) list" where
  "configKeys =
     [(''backend'', ''backend for new sandboxes: process (default) or firecracker''),
      (''firecracker.bin'', ''path to the firecracker binary (default: firecracker on PATH)''),
      (''firecracker.kernel'', ''guest kernel (uncompressed vmlinux)''),
      (''firecracker.rootfs'', ''base root filesystem (scripts/build-rootfs.sh)''),
      (''firecracker.vcpus'', ''guest vCPUs (default 1)''),
      (''firecracker.mem_mib'', ''guest memory in MiB (default 512)''),
      (''firecracker.run_dir'', ''where running VMs keep their sockets and disks (default /tmp/vit-fc)''),
      (''firecracker.bootargs'', ''guest kernel command line (default starts the vit agent)''),
      (''firecracker.disk_mode'', ''overlay (default: shared read-only base + small writable disk) or copy''),
      (''firecracker.upper_gib'', ''size of the sparse writable disk in overlay mode (default 8)'')]"

text \<open>The map of settings, as its bindings; \<open>None\<close> is the nil map, which \<open>null\<close> in the file makes.\<close>

record vit_config =
  cf_path :: string
  cf_kv :: "(string \<times> string) list option"

definition dec_settings :: "bytes \<Rightarrow> (string \<times> string) list option option" where
  "dec_settings b =
     (case parse_json b of
        Some (JObj ms) \<Rightarrow>
          map_option (\<lambda>vs. Some (fold (\<lambda>(k, v) m. aput k v m) (zip (map fst ms) vs) []))
            (all_some (map (dec_str_elem \<circ> snd) ms))
      | Some JNull \<Rightarrow> Some None
      | _ \<Rightarrow> None)"

definition loadConfig :: "string \<Rightarrow> ('z cworld_scheme, vit_config) io" where
  "loadConfig root =
     (let p = Join [root, ''config.json''] in
      bindE (gets (\<lambda>w. ReadFile (hfs w) (path_of (cwd w) p))) (\<lambda>r.
        case r of
          Inl e \<Rightarrow> if e = Errno ENOENT then ret \<lparr>cf_path = p, cf_kv = Some []\<rparr> else fail e
        | Inr b \<Rightarrow>
            if b = [] then ret \<lparr>cf_path = p, cf_kv = Some []\<rparr>
            else (case dec_settings b of
                    None \<Rightarrow> fail (Errorf ''%s: %w'' [p] (Some (Errorf ''json'' [] None)))
                  | Some kv \<Rightarrow> ret \<lparr>cf_path = p, cf_kv = kv\<rparr>)))"

definition upper :: "char \<Rightarrow> char" where
  "upper c = (if CHR ''a'' \<le> c \<and> c \<le> CHR ''z'' then char_of (of_char c - 32 :: nat) else c)"

definition envName :: "string \<Rightarrow> string" where
  "envName key = ''VIT_'' @ map (\<lambda>c. upper (if c = CHR ''.'' \<or> c = CHR ''-'' then CHR ''_'' else c)) key"

definition cf_get :: "string list \<Rightarrow> vit_config \<Rightarrow> string \<Rightarrow> string" where
  "cf_get env c key =
     (let v = Getenv (envName key) env in
      if v \<noteq> [] then v
      else case Option.bind (cf_kv c) (\<lambda>m. map_of m key) of None \<Rightarrow> [] | Some x \<Rightarrow> x)"

text \<open>\<open>set\<close> returns the changed configuration: its map is shared with the caller. Storing in a nil map panics.\<close>

definition settings_json :: "(string \<times> string) list option \<Rightarrow> json" where
  "settings_json kv = (case kv of None \<Rightarrow> JNull | Some m \<Rightarrow> known_json m)"

definition cf_set :: "vit_config \<Rightarrow> string \<Rightarrow> string \<Rightarrow> ('z cworld_scheme, vit_config) io" where
  "cf_set c key v =
     (if key \<notin> fst ` set configKeys then fail (Errorf ''unknown key %q (see `vit config`)'' [key] None)
      else if v \<noteq> [] \<and> cf_kv c = None then fail (Panic ''assignment to entry in nil map'')
      else
        let kv = map_option (\<lambda>m. if v = [] then filter (\<lambda>x. fst x \<noteq> key) m else aput key v m) (cf_kv c) in
        bindE (gets umask) (\<lambda>um.
        bindE (gets cwd) (\<lambda>d.
        bindE (on_fs (WriteFile um (path_of d (cf_path c)) (emit (Some 0) (settings_json kv) @ nl) mode_0644)) (\<lambda>_.
        ret (c\<lparr>cf_kv := kv\<rparr>)))))"

definition cf_intv :: "string list \<Rightarrow> vit_config \<Rightarrow> string \<Rightarrow> int" where
  "cf_intv env c key = Atoi_value (cf_get env c key)"

text \<open>\<open>abs\<close>: nothing for the empty text.\<close>

definition cf_abs :: "path \<Rightarrow> string \<Rightarrow> path option" where
  "cf_abs d p = (if p = [] then None else Some (path_of d p))"

definition fc_config :: "string list \<Rightarrow> path \<Rightarrow> vit_config \<Rightarrow> config" where
  "fc_config env d c =
     \<lparr>FirecrackerBin = cf_get env c ''firecracker.bin'',
      KernelImage = (case cf_abs d (cf_get env c ''firecracker.kernel'') of None \<Rightarrow> [] | Some p \<Rightarrow> path_text p),
      RootFS = cf_abs d (cf_get env c ''firecracker.rootfs''),
      RunDir = cf_abs d (cf_get env c ''firecracker.run_dir''),
      VCPUs = cf_intv env c ''firecracker.vcpus'', MemMiB = cf_intv env c ''firecracker.mem_mib'',
      BootArgs = cf_get env c ''firecracker.bootargs'', AgentTimeout = 0,
      DiskMode = cf_get env c ''firecracker.disk_mode'', UpperGiB = cf_intv env c ''firecracker.upper_gib''\<rparr>"

definition cf_backend :: "'z cworld_scheme outside \<Rightarrow> vit_config \<Rightarrow> string \<Rightarrow> ('z cworld_scheme, 'z cworld_scheme backend) io" where
  "cf_backend x c name =
     (if name = [] \<or> name = ''process'' then ret (ProcessBackend (x_run x))
      else if name = ''firecracker'' then
        bindE os_Environ (\<lambda>env.
        bindE (gets cwd) (\<lambda>d.
        bindE (New (fc_config env d c)) (\<lambda>cfg.
        ret (firecracker \<lparr>fc_cfg = cfg, fc_host = x_fc x\<rparr> (x_text x)))))
      else fail (Errorf ''unknown backend %q (process or firecracker)'' [name] None))"

definition defaultBackend :: "string list \<Rightarrow> vit_config \<Rightarrow> string" where
  "defaultBackend env c =
     (if cf_get env c ''backend'' \<noteq> [] then cf_get env c ''backend''
      else if cf_get env c ''firecracker.kernel'' \<noteq> [] \<and> cf_get env c ''firecracker.rootfs'' \<noteq> [] then ''firecracker''
      else ''process'')"

text \<open>The lines \<open>vit config\<close> prints.\<close>

definition config_line :: "string list \<Rightarrow> vit_config \<Rightarrow> string \<times> string \<Rightarrow> string" where
  "config_line env c kd =
     (let v = cf_get env c (fst kd) in
      pad_right 22 (fst kd) @ '' '' @ pad_right 40 (if v = [] then ''-'' else v) @ '' '' @ snd kd @ nl)"

definition config_listing :: "string list \<Rightarrow> vit_config \<Rightarrow> string" where
  "config_listing env c = concat (map (config_line env c) (sort_key fst configKeys))"

end
