(* ===== verification/Cli.thy ===== *)
theory Cli
  imports CliConfig
begin

section \<open>The command line (cmd/vit/main.go, cmd/vit/remote.go)\<close>

text \<open>
  Every command of \<open>vit\<close> as a computation over the world: it finds the repository, builds an
  engine with the sandbox's backend and prints. \<open>log\<close> and \<open>push\<close> follow a history and may not return,
  so they have an optional result. A panic is an error that no caller handles; it ends the process
  with status 2 (its trace is left out).
\<close>

definition is_panic :: "err \<Rightarrow> bool" where
  "is_panic e \<longleftrightarrow> (case e of Panic m \<Rightarrow> True | _ \<Rightarrow> False)"

definition usage_lines :: "string list" where
  "usage_lines =
     [''vit: git for virtual machines. Sandboxes that checkpoint at every step.'',
      [],
      ''  vit init                         create a repo (.vit) in the current directory'',
      ''  vit config [KEY [VALUE]]         show or set configuration'',
      ''  vit new [NAME] [--backend B]     start a sandbox (process or firecracker)'',
      ''  vit run -- CMD...                run a command; the result is a checkpoint'',
      ''  vit log [SANDBOX]                the checkpoints of a sandbox, newest first'',
      ''  vit ls                           list sandboxes'',
      ''  vit status                       the current sandbox and its head'',
      ''  vit use SANDBOX                  make a sandbox current'',
      ''  vit checkout CHECKPOINT          rewind the current sandbox to a checkpoint'',
      ''  vit diff CK [CK2]                what changed at a checkpoint, or between two'',
      ''  vit show CHECKPOINT PATH         print a file as it was at a checkpoint'',
      ''  vit fork CHECKPOINT [NAME]       branch a new sandbox from any checkpoint'',
      ''  vit stop [SANDBOX]               shut a sandbox's machine down (history kept)'',
      ''  vit push [SANDBOX] --to URL      upload a sandbox's checkpoints to a remote'',
      ''  vit pull CHECKPOINT --from URL   pull a checkpoint and fork it here'',
      [],
      ''On the firecracker backend a checkpoint holds the machine's memory and disk as'',
      ''well as its files: fork and checkout resume the live machine. Remotes are'',
      ''s3://bucket/prefix, dir:///path or a path. See docs/.'']"

definition usage :: "('z cworld_scheme, unit) io" where
  "usage = print (concat (map (\<lambda>l. l @ nl) usage_lines))"

subsection \<open>Finding the repository\<close>

function repo_up :: "fs \<Rightarrow> path \<Rightarrow> err + path" where
  "repo_up f dir =
     (case Stat f (dir @ [''.vit'']) of
        Inr (Dir m) \<Rightarrow> Inr (dir @ [''.vit''])
      | _ \<Rightarrow> if dir = [] then Inl (Errorf ''not a vit repo (run `vit init` first)'' [] None)
             else repo_up f (butlast dir))"
  by pat_completeness auto
termination by (relation "measure (length \<circ> snd)") auto

declare repo_up.simps [simp del]

definition repoDir :: "('z cworld_scheme, string) io" where
  "repoDir =
     bindE os_Environ (\<lambda>env.
       let v = Getenv ''VIT_DIR'' env in
       if v \<noteq> [] then ret v
       else bindE (gets (\<lambda>w. repo_up (hfs w) (cwd w))) (\<lambda>r. bindE (lift_res r) (\<lambda>p. ret (path_text p))))"

definition openRepo :: "('z cworld_scheme, string \<times> vit_config) io" where
  "openRepo =
     bindE repoDir (\<lambda>root.
     bindE (gets cwd) (\<lambda>d.
     bindE (OpenRepo (path_of d root)) (\<lambda>_.
     bindE (loadConfig root) (\<lambda>cfg.
     ret (root, cfg)))))"

definition engineFor :: "'z cworld_scheme outside \<Rightarrow> string \<Rightarrow> vit_config \<Rightarrow> string \<Rightarrow> ('z cworld_scheme, 'z cworld_scheme engine) io" where
  "engineFor x root cfg backend =
     bindE (cf_backend x cfg backend) (\<lambda>b.
     bindE (gets cwd) (\<lambda>d.
     ret \<lparr>e_repo = path_of d root, e_backend = b\<rparr>))"

definition currentSandbox :: "string \<Rightarrow> 'z cworld_scheme \<Rightarrow> string" where
  "currentSandbox root w =
     TrimSpace (case ReadFile (hfs w) (path_of (cwd w) (Join [root, ''CURRENT''])) of Inl e \<Rightarrow> [] | Inr b \<Rightarrow> b)"

definition setCurrent :: "string \<Rightarrow> string \<Rightarrow> ('z cworld_scheme, unit) io" where
  "setCurrent root i =
     bindE (gets umask) (\<lambda>um.
     bindE (gets cwd) (\<lambda>d.
     on_fs (WriteFile um (path_of d (Join [root, ''CURRENT''])) (i @ nl) mode_0644)))"

definition sandboxEngine :: "'z cworld_scheme outside \<Rightarrow> string \<Rightarrow> ('z cworld_scheme, 'z cworld_scheme engine \<times> sandbox \<times> string) io" where
  "sandboxEngine x i0 =
     bindE openRepo (\<lambda>(root, cfg).
     bindE (gets (\<lambda>w. if i0 = [] then currentSandbox root w else i0)) (\<lambda>i.
       if i = [] then fail (Errorf ''no current sandbox (run `vit new`)'' [] None)
       else
         bindE (gets (\<lambda>w. Sandbox (path_of (cwd w) root) (hfs w) i)) (\<lambda>r.
         bindE (lift_res r) (\<lambda>s.
         bindE (engineFor x root cfg (s_backend s)) (\<lambda>e.
         ret (e, s, root))))))"

subsection \<open>Helpers\<close>

definition machineTag :: "ckpt \<Rightarrow> string" where
  "machineTag c = (if HasMemory c then '' +machine'' else [])"

definition changeSummary :: "ckpt \<Rightarrow> string" where
  "changeSummary c =
     (if c_added c = 0 \<and> c_modified c = 0 \<and> c_deleted c = 0 then ''no file changes''
      else join_with (CHR '' '')
        ((if 0 < c_added c then [''+'' @ itoa (c_added c)] else []) @
         (if 0 < c_modified c then [''~'' @ itoa (c_modified c)] else []) @
         (if 0 < c_deleted c then [''-'' @ itoa (c_deleted c)] else [])))"

definition commandOrNote :: "ckpt \<Rightarrow> string" where
  "commandOrNote c = (if c_command c \<noteq> [] then join_with (CHR '' '') (c_command c) else ''('' @ c_note c @ '')'')"

definition exitLabel :: "ckpt \<Rightarrow> string" where
  "exitLabel c = (if c_command c = [] then [] else ''exit '' @ itoa (c_exit_code c))"

definition dash :: "string \<Rightarrow> string" where
  "dash s = (if s = [] then ''-'' else s)"

definition arg0 :: "string list \<Rightarrow> string" where
  "arg0 args = (case args of [] \<Rightarrow> [] | a # _ \<Rightarrow> a)"

definition machineState :: "'z cworld_scheme outside \<Rightarrow> vit_config \<Rightarrow> sandbox \<Rightarrow> ('z cworld_scheme, string) io" where
  "machineState x cfg s =
     bindE (attempt (cf_backend x cfg (s_backend s))) (\<lambda>r.
       case r of
         Inl e \<Rightarrow> ret ''?''
       | Inr b \<Rightarrow>
           (case b_mem b of
              None \<Rightarrow> ret ''-''
            | Some mb \<Rightarrow> gets (\<lambda>w. if m_Running mb (s_id s) w then ''running'' else ''stopped'')))"

subsection \<open>Commands\<close>

definition cmdInit :: "string list \<Rightarrow> ('z cworld_scheme, unit) io" where
  "cmdInit args =
     (let root = Join [if args \<noteq> [] then hd args else ''.'', ''.vit''] in
      bindE (gets cwd) (\<lambda>d.
      bindE (OpenRepo (path_of d root)) (\<lambda>_.
      print (''initialised a vit repo at '' @ path_text (path_of d root) @ nl))))"

definition cmdConfig :: "string list \<Rightarrow> ('z cworld_scheme, unit) io" where
  "cmdConfig args =
     bindE openRepo (\<lambda>(root, cfg).
     bindE os_Environ (\<lambda>env.
       case args of
         [] \<Rightarrow> print (config_listing env cfg)
       | [k] \<Rightarrow> print (cf_get env cfg k @ nl)
       | k # v # _ \<Rightarrow> bindE (cf_set cfg k v) (\<lambda>_. ret ())))"

definition cmdNew :: "'z cworld_scheme outside \<Rightarrow> string list \<Rightarrow> ('z cworld_scheme, unit) io" where
  "cmdNew x args =
     (let fs = parseFlags args in
      bindE openRepo (\<lambda>(root, cfg).
      bindE os_Environ (\<lambda>env.
        let backend = (if fl_str fs ''backend'' = [] then defaultBackend env cfg else fl_str fs ''backend'') in
        bindE (engineFor x root cfg backend) (\<lambda>e.
        bindE (Create (x_sha x) e (arg0 (fl_rest fs))) (\<lambda>s.
        bindE (setCurrent root (s_id s)) (\<lambda>_.
        print (''created sandbox '' @ s_name s @ '' ('' @ s_id s @ '') on '' @ s_backend s @ '', now current'' @ nl)))))))"

definition cmdRun :: "'z cworld_scheme outside \<Rightarrow> string list \<Rightarrow> ('z cworld_scheme, unit) io" where
  "cmdRun x args0 =
     (let args = (if args0 \<noteq> [] \<and> hd args0 = ''--'' then tl args0 else args0) in
      if args = [] then fail (Errorf ''a command is required: vit run -- CMD...'' [] None)
      else
        bindE (sandboxEngine x []) (\<lambda>(e, s, root).
        bindE (Run (x_sha x) e s args) (\<lambda>(c, s').
        print (nl @ ''['' @ c_id c @ '' step '' @ itoa (c_seq c) @ ''] exit '' @ itoa (c_exit_code c) @ '', '' @
          changeSummary c @ machineTag c @ nl))))"

definition log_line :: "sandbox \<Rightarrow> ckpt \<Rightarrow> string" where
  "log_line s c =
     (if c_id c = s_head s then ''* '' else ''  '') @ c_id c @ ''  step '' @ pad_right 3 (itoa (c_seq c)) @ '' '' @
     pad_right 8 (exitLabel c) @ '' '' @ changeSummary c @ machineTag c @ ''  '' @ commandOrNote c @ nl"

definition log_text :: "sandbox \<Rightarrow> ckpt list \<Rightarrow> string" where
  "log_text s hist =
     ''sandbox '' @ s_name s @ '' ('' @ s_id s @ '') on '' @ s_backend s @
     (if s_forked_from s \<noteq> [] then '', forked from '' @ s_forked_from s else []) @ nl @
     concat (map (log_line s) hist)"

definition cmdLog :: "'z cworld_scheme outside \<Rightarrow> string list \<Rightarrow> 'z cworld_scheme \<Rightarrow> ((err + unit) \<times> 'z cworld_scheme) option" where
  "cmdLog x args w =
     (case sandboxEngine x (arg0 args) w of
        (Inl e, w1) \<Rightarrow> Some (Inl e, w1)
      | (Inr (e, s, root), w1) \<Rightarrow>
          (case History (e_repo e) (hfs w1) (s_id s) of
             None \<Rightarrow> None
           | Some (Inl er) \<Rightarrow> Some (Inl er, w1)
           | Some (Inr hist) \<Rightarrow> Some (print (log_text s hist) w1)))"

text \<open>
  \<open>text/tabwriter\<close> with two spaces of padding: a cell that a tab ends is as wide as the widest of
  its column in the lines around it that have that cell.
\<close>

definition tab_width :: "nat \<Rightarrow> string list list \<Rightarrow> string list \<Rightarrow> string list list \<Rightarrow> nat" where
  "tab_width j before row rows =
     foldl max 0 (map (\<lambda>r. rune_count (r ! j))
       (takeWhile (\<lambda>r. Suc j < length r) (rev before) @ [row] @ takeWhile (\<lambda>r. Suc j < length r) rows)) + 2"

fun tab_rows :: "string list list \<Rightarrow> string list list \<Rightarrow> string" where
  "tab_rows before [] = []"
| "tab_rows before (row # rows) =
     concat (map (\<lambda>j. if Suc j < length row then pad_right (tab_width j before row rows) (row ! j) else row ! j)
       [0..<length row]) @ (if rows = [] then [] else nl) @ tab_rows (before @ [row]) rows"

definition tabwriter :: "string \<Rightarrow> string" where
  "tabwriter text = tab_rows [] (map (split_on (CHR 0x09)) (split_on (CHR 0x0A) text))"

definition tabbed :: "string list \<Rightarrow> string" where
  "tabbed cells = join_with (CHR 0x09) cells"

definition rfc3339 :: "time \<Rightarrow> string" where
  "rfc3339 t = time_text (case t of At y mo d h mi s _ off \<Rightarrow> At y mo d h mi s 0 off)"

fun ls_rows :: "'z cworld_scheme outside \<Rightarrow> vit_config \<Rightarrow> string \<Rightarrow> sandbox list \<Rightarrow> ('z cworld_scheme, string) io" where
  "ls_rows x cfg cur [] = ret []"
| "ls_rows x cfg cur (s # ss) =
     bindE (machineState x cfg s) (\<lambda>m.
     bindE (ls_rows x cfg cur ss) (\<lambda>rest.
     ret (tabbed [if s_id s = cur then ''*'' else '' '', s_id s, s_name s, s_backend s, m, itoa (s_steps s),
       dash (s_forked_from s), rfc3339 (s_created s)] @ nl @ rest)))"

definition cmdLs :: "'z cworld_scheme outside \<Rightarrow> ('z cworld_scheme, unit) io" where
  "cmdLs x =
     bindE openRepo (\<lambda>(root, cfg).
     bindE (gets (currentSandbox root)) (\<lambda>cur.
     bindE (gets (\<lambda>w. Sandboxes (path_of (cwd w) root) (hfs w))) (\<lambda>r.
     bindE (lift_res r) (\<lambda>ss.
     bindE (ls_rows x cfg cur ss) (\<lambda>rows.
     print (tabwriter (tabbed [[], ''ID'', ''NAME'', ''BACKEND'', ''MACHINE'', ''STEPS'', ''FORKED FROM'', ''CREATED''] @ nl @ rows)))))))"

definition cmdStatus :: "'z cworld_scheme outside \<Rightarrow> ('z cworld_scheme, unit) io" where
  "cmdStatus x =
     bindE (attempt (sandboxEngine x [])) (\<lambda>r.
       case r of
         Inl e \<Rightarrow> if is_panic e then fail e else print (x_text x e @ nl)
       | Inr (e, s, root) \<Rightarrow>
           bindE (attempt openRepo) (\<lambda>r'.
           bindE (case r' of
                    Inl _ \<Rightarrow>
                      if s_backend s = ''firecracker'' then fail (Panic ''nil pointer dereference'')
                      else machineState x \<lparr>cf_path = [], cf_kv = None\<rparr> s
                  | Inr (_, cfg) \<Rightarrow> machineState x cfg s) (\<lambda>m.
           bindE (print (''on sandbox '' @ s_name s @ '' ('' @ s_id s @ ''), backend '' @ s_backend s @ '', machine '' @ m @ nl)) (\<lambda>_.
           bindE (print (''head '' @ s_head s @ '', '' @ itoa (s_steps s) @ '' step(s)'' @ nl)) (\<lambda>_.
             if s_backend s = ''process'' \<or> s_backend s = []
             then print (''files in '' @ Join [root, ''work'', s_id s] @ nl)
             else ret ())))))"

definition cmdCheckout :: "'z cworld_scheme outside \<Rightarrow> string list \<Rightarrow> ('z cworld_scheme, unit) io" where
  "cmdCheckout x args =
     (if args = [] then fail (Errorf ''usage: vit checkout CHECKPOINT'' [] None)
      else
        bindE (sandboxEngine x []) (\<lambda>(e, s, root).
        bindE (Checkout (x_sha x) e s (hd args)) (\<lambda>s'.
        bindE (gets (\<lambda>w. Checkpoint (e_repo e) (hfs w) (hd args))) (\<lambda>r.
          let how = (case r of
                Inl _ \<Rightarrow> ''files restored''
              | Inr c \<Rightarrow> if HasMemory c then ''machine resumed from that step'' else ''files restored'')
          in print (''checked out '' @ hd args @ ''; '' @ how @ nl)))))"

fun kind_sym :: "kind \<Rightarrow> string" where
  "kind_sym added = ''+''"
| "kind_sym modified = ''~''"
| "kind_sym deleted = ''-''"

definition cmdDiff :: "'z cworld_scheme outside \<Rightarrow> string list \<Rightarrow> ('z cworld_scheme, unit) io" where
  "cmdDiff x args =
     (if args = [] then fail (Errorf ''usage: vit diff CK [CK2]'' [] None)
      else
        bindE openRepo (\<lambda>(root, cfg).
        bindE (engineFor x root cfg ''process'') (\<lambda>e.
        bindE (gets hfs) (\<lambda>f.
          let (from, to) =
            (case args of
               a # b # _ \<Rightarrow> (a, b)
             | _ \<Rightarrow> (case Checkpoint (e_repo e) f (hd args) of Inr c \<Rightarrow> (c_parent c, hd args) | Inl _ \<Rightarrow> ([], hd args)))
          in bindE (lift_res (DiffAt (e_repo e) f from to)) (\<lambda>changes.
            if changes = [] then print (''no changes'' @ nl)
            else print (concat (map (\<lambda>(p, k). kind_sym k @ '' '' @ p @ nl) changes)))))))"

definition cmdShow :: "'z cworld_scheme outside \<Rightarrow> string list \<Rightarrow> ('z cworld_scheme, unit) io" where
  "cmdShow x args =
     (if length args < 2 then fail (Errorf ''usage: vit show CHECKPOINT PATH'' [] None)
      else
        bindE openRepo (\<lambda>(root, cfg).
        bindE (engineFor x root cfg ''process'') (\<lambda>e.
        bindE (gets (\<lambda>w. ReadFileAt (e_repo e) (hfs w) (args ! 0) (args ! 1))) (\<lambda>r.
        bindE (lift_res r) print))))"

definition cmdFork :: "'z cworld_scheme outside \<Rightarrow> string list \<Rightarrow> ('z cworld_scheme, unit) io" where
  "cmdFork x args =
     (let fs = parseFlags args in
      if fl_rest fs = [] then fail (Errorf ''usage: vit fork CHECKPOINT [NAME] [--backend B]'' [] None)
      else
        bindE openRepo (\<lambda>(root, cfg).
        bindE (gets cwd) (\<lambda>d.
        bindE (gets hfs) (\<lambda>f.
        bindE os_Environ (\<lambda>env.
        bindE (lift_res (Checkpoint (path_of d root) f (fl_rest fs ! 0))) (\<lambda>src.
        bindE (if fl_str fs ''backend'' \<noteq> [] then ret (fl_str fs ''backend'')
               else case Sandbox (path_of d root) f (c_sandbox src) of
                 Inr s \<Rightarrow> ret (s_backend s)
               | Inl e \<Rightarrow> if is_panic e then fail e else ret (defaultBackend env cfg)) (\<lambda>backend.
        bindE (engineFor x root cfg backend) (\<lambda>e.
        bindE (Fork (x_sha x) e (c_id src) (if 2 \<le> length (fl_rest fs) then fl_rest fs ! 1 else [])) (\<lambda>s.
        bindE (setCurrent root (s_id s)) (\<lambda>_.
          let how = (if backend = ''firecracker'' \<and> HasMemory src then ''warm, the machine resumed from that step''
                     else ''cold, from its files'')
          in print (''forked '' @ c_id src @ '' into sandbox '' @ s_name s @ '' ('' @ s_id s @ '') on '' @ backend @ '', '' @
               how @ ''; now current'' @ nl)))))))))))"

definition cmdStop :: "'z cworld_scheme outside \<Rightarrow> string list \<Rightarrow> ('z cworld_scheme, unit) io" where
  "cmdStop x args =
     bindE (sandboxEngine x (arg0 args)) (\<lambda>(e, s, root).
     bindE (Stop e s) (\<lambda>_.
     print (''stopped '' @ s_name s @ ''; the next run resumes from '' @ s_head s @ nl)))"

definition cmdUse :: "string list \<Rightarrow> ('z cworld_scheme, unit) io" where
  "cmdUse args =
     (if args = [] then fail (Errorf ''usage: vit use SANDBOX'' [] None)
      else
        bindE openRepo (\<lambda>(root, cfg).
        bindE (gets (\<lambda>w. Sandbox (path_of (cwd w) root) (hfs w) (hd args))) (\<lambda>r.
        bindE (lift_res r) (\<lambda>s.
        bindE (setCurrent root (s_id s)) (\<lambda>_.
        print (''now on sandbox '' @ s_name s @ '' ('' @ s_id s @ '')'' @ nl))))))"

subsection \<open>Remotes (remote.go)\<close>

fun firstEnv :: "string list \<Rightarrow> string list \<Rightarrow> string" where
  "firstEnv env [] = []"
| "firstEnv env (k # ks) = (if Getenv k env \<noteq> [] then Getenv k env else firstEnv env ks)"

text \<open>A directory store at a path, as text; the empty text names no directory.\<close>

definition dir_remote :: "string \<Rightarrow> ('z cworld_scheme, 'z cworld_scheme object_store) io" where
  "dir_remote p =
     (if p = [] then fail (Errno ENOENT)
      else bindE (gets cwd) (\<lambda>d. bindE (NewDirStore (path_of d p)) (\<lambda>q. ret (DirStore q))))"

definition s3_remote :: "'z cworld_scheme outside \<Rightarrow> string list \<Rightarrow> string \<Rightarrow> err + 'z cworld_scheme object_store" where
  "s3_remote x env target =
     (let rest = TrimPrefix target ''s3://'';
          bucket = cut_before (CHR ''/'') rest;
          ak = Getenv ''AWS_ACCESS_KEY_ID'' env;
          sk = Getenv ''AWS_SECRET_ACCESS_KEY'' env;
          region = firstEnv env [''AWS_REGION'', ''AWS_DEFAULT_REGION'']
      in
      if bucket = [] then Inl (Errorf ''s3 target needs a bucket: s3://bucket/prefix'' [] None)
      else if ak = [] \<or> sk = [] then Inl (Errorf ''set AWS_ACCESS_KEY_ID and AWS_SECRET_ACCESS_KEY for s3'' [] None)
      else case NewS3 (x_http x)
          \<lparr>sc_Endpoint = firstEnv env [''AWS_ENDPOINT_URL'', ''S3_ENDPOINT_URL''],
           sc_Region = (if region = [] then ''us-east-1'' else region), sc_Bucket = bucket,
           sc_Prefix = cut_after (CHR ''/'') rest, sc_AccessKey = ak, sc_SecretKey = sk,
           sc_PathStyle = (Getenv ''VIT_S3_PATH_STYLE'' env \<noteq> []), sc_HTTP = None\<rparr> of
        Inl e \<Rightarrow> Inl e
      | Inr s \<Rightarrow> Inr (S3Store (x_sha x) (x_xml x) s))"

definition parseRemote :: "'z cworld_scheme outside \<Rightarrow> string \<Rightarrow> ('z cworld_scheme, 'z cworld_scheme object_store) io" where
  "parseRemote x target =
     (if HasPrefix target ''s3://'' then bindE os_Environ (\<lambda>env. lift_res (s3_remote x env target))
      else if HasPrefix target ''dir://'' then dir_remote (TrimPrefix target ''dir://'')
      else if HasPrefix target ''/'' \<or> HasPrefix target ''./'' \<or> HasPrefix target ''../'' then dir_remote target
      else fail (Errorf ''unknown remote %q (use s3://bucket/prefix, dir:///path, or a filesystem path)'' [target] None))"

definition cmdPush :: "'z cworld_scheme outside \<Rightarrow> string list \<Rightarrow> 'z cworld_scheme \<Rightarrow> ((err + unit) \<times> 'z cworld_scheme) option" where
  "cmdPush x args w =
     (let fs = parseFlags args; to = fl_str fs ''to'' in
      if to = [] then Some (Inl (Errorf ''usage: vit push [SANDBOX] --to s3://bucket/prefix'' [] None), w)
      else
        (case bindE (sandboxEngine x (arg0 (fl_rest fs))) (\<lambda>(e, s, root). bindE (parseRemote x to) (\<lambda>store. ret (e, s, store))) w of
           (Inl er, w1) \<Rightarrow> Some (Inl er, w1)
         | (Inr (e, s, store), w1) \<Rightarrow>
             (case Push (e_repo e) (s_id s) store w1 of
                None \<Rightarrow> None
              | Some (Inl er, w2) \<Rightarrow> Some (Inl er, w2)
              | Some (Inr st, w2) \<Rightarrow>
                  Some (print (''pushed '' @ s_name s @ '' to '' @ to @ '': '' @ itoa (ps_Checkpoints st) @ '' checkpoints, '' @
                    itoa (ps_Blobs st) @ '' blobs uploaded, '' @ itoa (ps_BlobsSkipped st) @ '' already there'' @ nl) w2))))"

definition cmdPull :: "'z cworld_scheme outside \<Rightarrow> string list \<Rightarrow> ('z cworld_scheme, unit) io" where
  "cmdPull x args =
     (let fs = parseFlags args; from = fl_str fs ''from'' in
      if fl_rest fs = [] \<or> from = []
      then fail (Errorf ''usage: vit pull CHECKPOINT --from s3://bucket/prefix [--as NAME] [--backend B]'' [] None)
      else
        bindE openRepo (\<lambda>(root, cfg).
        bindE (parseRemote x from) (\<lambda>store.
        bindE os_Environ (\<lambda>env.
          let backend = (if fl_str fs ''backend'' = [] then defaultBackend env cfg else fl_str fs ''backend'') in
          bindE (engineFor x root cfg backend) (\<lambda>e.
          bindE (Pull (x_sha x) (e_repo e) store (hd (fl_rest fs))) (\<lambda>c.
          bindE (print (''pulled checkpoint '' @ c_id c @ nl)) (\<lambda>_.
          bindE (Fork (x_sha x) e (c_id c) (fl_str fs ''as'')) (\<lambda>fork.
          bindE (attempt (setCurrent root (s_id fork))) (\<lambda>_.
          print (''forked into sandbox '' @ s_name fork @ '' ('' @ s_id fork @ '') on '' @ s_backend fork @ '', now current'' @ nl))))))))))"

subsection \<open>Dispatch\<close>

definition version :: string where
  "version = ''0.2.0''"

definition always :: "('s, 'a) io \<Rightarrow> 's \<Rightarrow> ((err + 'a) \<times> 's) option" where
  "always m w = Some (m w)"

definition commands :: "'z cworld_scheme outside \<Rightarrow> string \<rightharpoonup> string list \<Rightarrow> 'z cworld_scheme \<Rightarrow> ((err + unit) \<times> 'z cworld_scheme) option" where
  "commands x = map_of
     [(''init'', \<lambda>a. always (cmdInit a)), (''config'', \<lambda>a. always (cmdConfig a)), (''new'', \<lambda>a. always (cmdNew x a)),
      (''run'', \<lambda>a. always (cmdRun x a)), (''log'', cmdLog x), (''ls'', \<lambda>a. always (cmdLs x)),
      (''status'', \<lambda>a. always (cmdStatus x)), (''checkout'', \<lambda>a. always (cmdCheckout x a)),
      (''diff'', \<lambda>a. always (cmdDiff x a)), (''show'', \<lambda>a. always (cmdShow x a)), (''fork'', \<lambda>a. always (cmdFork x a)),
      (''stop'', \<lambda>a. always (cmdStop x a)), (''use'', \<lambda>a. always (cmdUse a)), (''push'', cmdPush x),
      (''pull'', \<lambda>a. always (cmdPull x a))]"

definition complain :: "string \<Rightarrow> 'z cworld_scheme \<Rightarrow> 'z cworld_scheme" where
  "complain s w = w\<lparr>errout := errout w @ s\<rparr>"

text \<open>\<open>main\<close>: the arguments after the program's name to the exit status and the world left behind.\<close>

definition vit_main :: "'z cworld_scheme outside \<Rightarrow> string list \<Rightarrow> 'z cworld_scheme \<Rightarrow> (int \<times> 'z cworld_scheme) option" where
  "vit_main x argv w =
     (case argv of
        [] \<Rightarrow> Some (2, snd (usage w))
      | cmd # args \<Rightarrow>
          if cmd = ''version'' then Some (0, snd (print (''vit '' @ version @ nl) w))
          else if cmd = ''-h'' \<or> cmd = ''--help'' \<or> cmd = ''help'' then Some (0, snd (usage w))
          else case commands x cmd of
            None \<Rightarrow> Some (2, snd (usage (complain (x_text x (Errorf ''unknown command %q'' [cmd] None) @ nl @ nl) w)))
          | Some run \<Rightarrow>
              (case run args w of
                 None \<Rightarrow> None
               | Some (Inl e, w') \<Rightarrow>
                   if is_panic e then Some (2, w') else Some (1, complain (''vit: '' @ x_text x e @ nl) w')
               | Some (Inr _, w') \<Rightarrow> Some (0, w')))"

end
