(* ===== verification/CliProps.thy ===== *)
theory CliProps
  imports Cli
begin

text \<open>
  Flags are read as they were written, the repository found is the nearest one, and a setting
  that is stored is the one the next start reads.
\<close>

section \<open>Properties of the command line\<close>

subsection \<open>Flags\<close>

text \<open>What a user writes: \<open>--key=value\<close>, \<open>--key value\<close>, or a positional argument.\<close>

datatype flag_item = Eq string string | Sep string string | Pos string

fun written :: "flag_item \<Rightarrow> string list" where
  "written (Eq k v) = [''--'' @ k @ ''='' @ v]"
| "written (Sep k v) = [''--'' @ k, v]"
| "written (Pos a) = [a]"

fun item_ok :: "flag_item \<Rightarrow> bool" where
  "item_ok (Eq k v) \<longleftrightarrow> CHR ''='' \<notin> set k"
| "item_ok (Sep k v) \<longleftrightarrow> k \<noteq> [] \<and> CHR ''='' \<notin> set k"
| "item_ok (Pos a) \<longleftrightarrow> \<not> (HasPrefix a ''--'' \<and> a \<noteq> ''--'')"

fun meaning :: "flag_item \<Rightarrow> flagset \<Rightarrow> flagset" where
  "meaning (Eq k v) f = f\<lparr>fl_opts := (fl_opts f)(k \<mapsto> v)\<rparr>"
| "meaning (Sep k v) f = f\<lparr>fl_opts := (fl_opts f)(k \<mapsto> v)\<rparr>"
| "meaning (Pos a) f = f\<lparr>fl_rest := fl_rest f @ [a]\<rparr>"

lemma index_from_found: "b \<notin> set k \<Longrightarrow> index_from i (k @ b # v) b = i + int (length k)"
  by (induction k arbitrary: i) auto

lemma index_from_none: "b \<notin> set k \<Longrightarrow> index_from i k b = -1"
  by (induction k arbitrary: i) auto

lemma parse_args_item:
  assumes "item_ok it"
  shows "parse_args (written it @ args) f = parse_args args (meaning it f)"
proof (cases it)
  case (Eq k v)
  with assms index_from_found [of "CHR ''=''" k 0 v] show ?thesis by (simp add: indexByte_def)
next
  case (Sep k v)
  with assms index_from_none [of "CHR ''=''" k 0] show ?thesis by (simp add: indexByte_def)
next
  case (Pos a)
  have "\<not> (2 < length a \<and> take 2 a = ''--'')"
  proof
    assume "2 < length a \<and> take 2 a = ''--''"
    with assms Pos have "a = ''--''" by (simp add: HasPrefix_def numeral_2_eq_2)
    then show False using \<open>2 < length a \<and> _\<close> by simp
  qed
  with Pos show ?thesis by auto
qed

text \<open>
  A command line is such items, and at its end perhaps one \<open>--key\<close> with no value left for it. Every list of
  arguments has one such reading.
\<close>

fun bare :: "string option \<Rightarrow> string list" where
  "bare None = []"
| "bare (Some k) = [''--'' @ k]"

fun bare_ok :: "string option \<Rightarrow> bool" where
  "bare_ok None \<longleftrightarrow> True"
| "bare_ok (Some k) \<longleftrightarrow> k \<noteq> [] \<and> CHR ''='' \<notin> set k"

definition positional :: "flag_item list \<Rightarrow> string list" where
  "positional items = concat (map (\<lambda>it. case it of Pos a \<Rightarrow> [a] | _ \<Rightarrow> []) items)"

definition options :: "flag_item list \<Rightarrow> (string \<times> string) list" where
  "options items = concat (map (\<lambda>it. case it of Pos a \<Rightarrow> [] | Eq k v \<Rightarrow> [(k, v)] | Sep k v \<Rightarrow> [(k, v)]) items)"

lemma parse_args_bare: "bare_ok b \<Longrightarrow> parse_args (bare b) f =
    (case b of None \<Rightarrow> f | Some k \<Rightarrow> f\<lparr>fl_opts := (fl_opts f)(k \<mapsto> [])\<rparr>)"
  by (cases b) (auto simp: indexByte_def index_from_none)

lemma parse_args_line:
  "list_all item_ok items \<Longrightarrow> parse_args (concat (map written items) @ args) f = parse_args args (fold meaning items f)"
  by (induction items arbitrary: f) (simp_all add: parse_args_item)

lemma fold_meaning:
  "fl_rest (fold meaning items f) = fl_rest f @ positional items"
  "fl_opts (fold meaning items f) = fl_opts f ++ map_of (rev (options items))"
  by (induction items arbitrary: f) (auto split: flag_item.split simp: positional_def options_def map_add_upd_left)

text \<open>How an argument that starts with two dashes is read.\<close>

lemma dashed_arg:
  assumes "HasPrefix a ''--''" and "a \<noteq> ''--''"
  shows "\<exists>k. a = ''--'' @ k \<and> k \<noteq> [] \<and> (CHR ''='' \<in> set k \<longrightarrow> (\<exists>v k'. written (Eq k' v) = [a] \<and> item_ok (Eq k' v)))"
proof -
  from assms(1) have "a = ''--'' @ drop 2 a"
    using append_take_drop_id [of 2 a] by (simp add: HasPrefix_def numeral_2_eq_2)
  moreover from this assms(2) have "drop 2 a \<noteq> []" by auto
  moreover have "\<exists>v k'. written (Eq k' v) = [a] \<and> item_ok (Eq k' v)" if e: "CHR ''='' \<in> set (drop 2 a)"
  proof -
    from split_list_first [OF e] obtain k' v where k: "drop 2 a = k' @ CHR ''='' # v" "CHR ''='' \<notin> set k'" by blast
    have "written (Eq k' v) = [''--'' @ drop 2 a]" using k(1) by simp
    also have "\<dots> = [a]" by (simp only: \<open>a = ''--'' @ drop 2 a\<close> [symmetric])
    finally show ?thesis using k(2) by auto
  qed
  ultimately show ?thesis by blast
qed

lemma every_line: "\<exists>items b. list_all item_ok items \<and> bare_ok b \<and> args = concat (map written items) @ bare b"
proof (induction "length args" arbitrary: args rule: less_induct)
  case less
  have more: ?case if "args = written it @ rest" "item_ok it" for it rest
  proof -
    have "written it \<noteq> []" by (cases it) auto
    with that(1) have "length rest < length args" by simp
    from less [OF this] obtain items b where "list_all item_ok items" "bare_ok b" "rest = concat (map written items) @ bare b"
      by blast
    with that show ?thesis by (intro exI [of _ "it # items"] exI [of _ b]) simp
  qed
  show ?case
  proof (cases args)
    case Nil
    then show ?thesis by (intro exI [of _ "[]"] exI [of _ None]) simp
  next
    case (Cons a rest)
    show ?thesis
    proof (cases "HasPrefix a ''--'' \<and> a \<noteq> ''--''")
      case False
      with Cons more [of "Pos a" rest] show ?thesis by auto
    next
      case True
      then obtain k where k: "a = ''--'' @ k" "k \<noteq> []"
        "CHR ''='' \<in> set k \<longrightarrow> (\<exists>v k'. written (Eq k' v) = [a] \<and> item_ok (Eq k' v))"
        using dashed_arg [of a] by blast
      show ?thesis
      proof (cases "CHR ''='' \<in> set k")
        case True
        with k(3) obtain v k' where "written (Eq k' v) = [a]" "item_ok (Eq k' v)" by blast
        with Cons more [of "Eq k' v" rest] show ?thesis by simp
      next
        case False
        show ?thesis
        proof (cases rest)
          case Nil
          with Cons k(1,2) False show ?thesis by (intro exI [of _ "[]"] exI [of _ "Some k"]) simp
        next
          case (Cons v rest')
          with \<open>args = a # rest\<close> k(1,2) False more [of "Sep k v" rest'] show ?thesis by simp
        qed
      qed
    qed
  qed
qed

text \<open>
  Property C36. \<open>parseFlags\<close> on every command line: the arguments are items \<open>--key=value\<close>, \<open>--key value\<close> (whatever
  the value looks like) and positional ones, and at the end perhaps one bare \<open>--key\<close>, which is an option with the
  empty value and not positional. Of the options the last one with a key counts, however it was spelled, and the
  positional arguments are kept in order; every list of arguments can be read this way.
\<close>

theorem parseFlags_reads:
  "(\<forall>items b. list_all item_ok items \<and> bare_ok b \<longrightarrow>
      fl_rest (parseFlags (concat (map written items) @ bare b)) = positional items \<and>
      fl_opts (parseFlags (concat (map written items) @ bare b)) =
        map_of (rev (options items @ (case b of None \<Rightarrow> [] | Some k \<Rightarrow> [(k, [])])))) \<and>
   (\<forall>args. \<exists>items b. list_all item_ok items \<and> bare_ok b \<and> args = concat (map written items) @ bare b)"
proof (intro conjI allI impI)
  fix items :: "flag_item list" and b assume ok: "list_all item_ok items \<and> bare_ok b"
  have p: "parseFlags (concat (map written items) @ bare b) =
      (case b of None \<Rightarrow> fold meaning items \<lparr>fl_opts = Map.empty, fl_rest = []\<rparr>
       | Some k \<Rightarrow> (fold meaning items \<lparr>fl_opts = Map.empty, fl_rest = []\<rparr>)
           \<lparr>fl_opts := (fl_opts (fold meaning items \<lparr>fl_opts = Map.empty, fl_rest = []\<rparr>))(k \<mapsto> [])\<rparr>)"
    using ok by (simp add: parseFlags_def parse_args_line parse_args_bare)
  then show "fl_rest (parseFlags (concat (map written items) @ bare b)) = positional items"
    by (simp add: fold_meaning split: option.split)
  show "fl_opts (parseFlags (concat (map written items) @ bare b)) =
      map_of (rev (options items @ (case b of None \<Rightarrow> [] | Some k \<Rightarrow> [(k, [])])))"
    by (simp add: p fold_meaning split: option.split)
qed (rule every_line)

theorem parseFlags_reads_witness:
  "fl_rest (parseFlags [''ck-1'', ''--backend'', ''process'', ''--backend=firecracker'', ''--'', ''me'', ''--all'']) = [''ck-1'', ''--'', ''me''] \<and>
   fl_opts (parseFlags [''ck-1'', ''--backend'', ''process'', ''--backend=firecracker'', ''--'', ''me'', ''--all'']) ''backend'' = Some ''firecracker'' \<and>
   fl_opts (parseFlags [''ck-1'', ''--backend'', ''process'', ''--backend=firecracker'', ''--'', ''me'', ''--all'']) ''all'' = Some []"
  using conjunct1 [OF parseFlags_reads, THEN spec, of "[Pos ''ck-1'', Sep ''backend'' ''process'', Eq ''backend'' ''firecracker'', Pos ''--'', Pos ''me'']",
      THEN spec, of "Some ''all''"]
  by (simp add: HasPrefix_def positional_def options_def)

subsection \<open>The repository\<close>

definition has_repo :: "fs \<Rightarrow> path \<Rightarrow> bool" where
  "has_repo f d \<longleftrightarrow> (\<exists>m. Stat f (d @ [''.vit'']) = Inr (Dir m))"

lemma repo_up_step:
  "repo_up f d =
     (if has_repo f d then Inr (d @ [''.vit''])
      else if d = [] then Inl (Errorf ''not a vit repo (run `vit init` first)'' [] None) else repo_up f (butlast d))"
  by (subst repo_up.simps) (auto simp: has_repo_def split: sum.split inode.split)

text \<open>
  Looking for the repository ends: it finds the \<open>.vit\<close> directory of the nearest directory at or above
  the working directory that has one, and reports an error exactly when there is none.
\<close>

lemma repo_up_nearest:
  "repo_up f d =
     (case filter (has_repo f) (rev (prefixes d)) of
        [] \<Rightarrow> Inl (Errorf ''not a vit repo (run `vit init` first)'' [] None)
      | a # _ \<Rightarrow> Inr (a @ [''.vit'']))"
proof (induction d rule: rev_induct)
  case Nil
  show ?case by (subst repo_up_step) simp
next
  case (snoc x d)
  show ?case by (subst repo_up_step) (simp add: prefixes_snoc snoc)
qed

subsection \<open>Paths as text\<close>

lemma ok_path_split: "list_all ok_name p \<Longrightarrow> split_on (CHR ''/'') (path_text p) = [] # (if p = [] then [[]] else p)"
  using split_on_join_with [of p "CHR ''/''"] by (auto simp: path_text_def list_all_iff dest: ok_nameD)

lemma path_of_path_text:
  assumes "list_all ok_name p"
  shows "path_of d (path_text p) = p"
proof -
  have "HasPrefix (path_text p) ''/''" by (simp add: HasPrefix_def path_text_def)
  with clean_from_names [of p "[]"] assms show ?thesis
    unfolding path_of_def fp_join_def ok_path_split [OF assms] by (simp add: list_all_iff)
qed

lemma clean_parts_names: "list_all ok_name p \<Longrightarrow> clean_parts r acc p = rev acc @ p"
  by (induction p arbitrary: acc) (auto dest: ok_nameD)

lemma Join_path_text:
  assumes "list_all ok_name p" and "ok_name n"
  shows "Join [path_text p, n] = path_text (p @ [n])"
proof -
  have n: "n \<noteq> []" "CHR ''/'' \<notin> set n" using assms(2) by (auto dest: ok_nameD)
  have j: "join_with (CHR ''/'') (q @ [n]) = (if q = [] then n else join_with (CHR ''/'') q @ ''/'' @ n)" for q
    by (induction q rule: induct_list012) auto
  have "join_with (CHR ''/'') [path_text p, n] = (if p = [] then ''//'' @ n else path_text (p @ [n]))"
    by (simp add: path_text_def j)
  moreover have "clean_parts True [] (split_on (CHR ''/'') (path_text (p @ [n]))) = p @ [n]"
    using assms by (subst ok_path_split) (simp_all add: clean_parts_names del: split_on.simps)
  moreover have "clean_parts True [] (split_on (CHR ''/'') (''//'' @ n)) = [n]"
    using assms(2) n by (simp add: split_on_no_sep) (auto dest: ok_nameD)
  ultimately show ?thesis
    by (simp add: Join_def Clean_def path_text_def HasPrefix_def Let_def n(1) del: split_on.simps)
qed

subsection \<open>Settings\<close>

lemma parse_emit_nl: "json_ok j \<Longrightarrow> parse_json (emit d j @ nl) = Some j"
proof -
  assume "json_ok j"
  moreover have "stops nl" by (simp add: stops_def nl_def num_char_def is_digit_def digit_val_def)
  moreover have "scan nl = Some []" by (simp add: nl_def is_ws_def)
  ultimately have "scan (emit d j @ nl) = Some (toks j)" using lex_emit [of j nl d] by simp
  with parse_toks [of j] show ?thesis by (simp add: parse_json_def)
qed

definition settings_ok :: "(string \<times> string) list \<Rightarrow> bool" where
  "settings_ok m \<longleftrightarrow> distinct (map fst m) \<and> list_all (\<lambda>(k, v). valid_utf8 k \<and> valid_utf8 v) m"

lemma map_of_drop_key: "map_of (filter (\<lambda>x. fst x \<noteq> k) m) = (map_of m)(k := None)"
  by (induction m) (auto simp: fun_eq_iff)

lemma map_of_aput: "map_of (aput k v m) = (map_of m)(k \<mapsto> v)"
  by (simp only: aput_def map_of.simps map_of_drop_key fst_conv snd_conv fun_upd_upd)

lemma map_of_fold_aput: "map_of (fold (\<lambda>(k, v) m. aput k v m) xs m) = map_of m ++ map_of (rev xs)"
proof (induction xs arbitrary: m)
  case (Cons x xs)
  obtain k v where x: "x = (k, v)" by (cases x)
  show ?case unfolding x using Cons [of "aput k v m"] 
    by (simp add: map_of_aput map_add_def fun_upd_def fun_eq_iff split: option.splits)
qed simp

lemma settings_read_back:
  assumes "settings_ok m"
  shows "\<exists>m'. dec_settings (emit (Some 0) (settings_json (Some m)) @ nl) = Some (Some m') \<and> map_of m' = map_of m"
proof -
  let ?ms = "map (\<lambda>(k, v). (k, JStr v)) (sort_key fst m)"
  have ok: "json_ok (known_json m)"
    using assms by (auto simp: known_json_def settings_ok_def list_all_iff)
  have vs: "all_some (map (dec_str_elem \<circ> snd) (map (\<lambda>(k, v). (k, JStr v)) xs)) = Some (map snd xs)" for xs :: "(string \<times> string) list"
    by (induction xs) (auto simp: dec_str_elem_def)
  have zip: "zip (map fst (map (\<lambda>(k, v). (k, JStr v)) xs)) (map snd xs) = xs" for xs :: "(string \<times> string) list"
    by (induction xs) auto
  have "distinct (map fst (rev (sort_key fst m)))" "set (rev (sort_key fst m)) = set m"
    using assms by (simp_all add: settings_ok_def rev_map distinct_map)
  then have "map_of (rev (sort_key fst m)) = map_of m"
    using assms by (simp add: settings_ok_def map_of_inject_set)
  then show ?thesis
    using parse_emit_nl [OF ok, of "Some 0"]
    by (simp only: settings_json_def option.case dec_settings_def known_json_def json.case vs zip option.map)
      (simp add: map_of_fold_aput)
qed

text \<open>Where the configuration of a repository at an absolute path is: a file or nothing yet.\<close>

definition config_place :: "path \<Rightarrow> fs \<Rightarrow> bool" where
  "config_place root f \<longleftrightarrow> fs_ok f \<and> list_all ok_name root \<and> is_dir_at f root \<and>
     (\<forall>i. fmlookup f (root @ [''config.json'']) = Some i \<longrightarrow> (\<exists>m cs. i = File m cs))"

lemma config_json_ok: "ok_name ''config.json''"
  by (simp add: ok_name_def)


text \<open>
  Property C37. A setting that \<open>vit config KEY VALUE\<close> stores is what the next start reads, unless its environment
  variable overrides it; every other setting is read as before. An empty value removes the setting.
\<close>

theorem config_set_get:
  assumes "config_place root (hfs w)" and "key \<in> fst ` set configKeys" and "valid_utf8 key" and "valid_utf8 v"
    and "settings_ok m"
  shows "\<exists>c' w' c''. cf_set \<lparr>cf_path = Join [path_text root, ''config.json''], cf_kv = Some m\<rparr> key v w = (Inr c', w') \<and>
    loadConfig (path_text root) w' = (Inr c'', w') \<and> config_place root (hfs w') \<and>
    (\<forall>env k. cf_get env c'' k =
       (if k = key \<and> Getenv (envName k) env = [] then v
        else cf_get env \<lparr>cf_path = Join [path_text root, ''config.json''], cf_kv = Some m\<rparr> k))"
proof -
  let ?p = "root @ [''config.json'']"
  let ?m = "if v = [] then filter (\<lambda>x. fst x \<noteq> key) m else aput key v m"
  let ?b = "emit (Some 0) (settings_json (Some ?m)) @ nl"
  from assms(1) have ok: "fs_ok (hfs w)" "list_all ok_name root" "is_dir_at (hfs w) root"
    and regular: "\<And>i. fmlookup (hfs w) ?p = Some i \<Longrightarrow> \<exists>m cs. i = File m cs" by (auto simp: config_place_def)
  have p: "path_of d (Join [path_text root, ''config.json'']) = ?p" for d
    using Join_path_text [OF ok(2) config_json_ok] path_of_path_text [of ?p d] ok(2) config_json_ok by simp
  obtain md where wr: "WriteCells (umask w) ?p (fdata ?b) mode_0644 (hfs w) = (Inr (), fmupd ?p (File md (fdata ?b)) (hfs w))"
    using WriteCells_file [OF ok(1,3) config_json_ok regular] by blast
  define w' where "w' = w\<lparr>hfs := fmupd ?p (File md (fdata ?b)) (hfs w)\<rparr>"
  have "\<not> is_dir_at (hfs w) ?p"
    by (cases "fmlookup (hfs w) ?p") (auto simp: is_dir_at_def dest: regular)
  then have ok': "fs_ok (hfs w')"
    unfolding w'_def using ok slotI [OF ok(3) config_json_ok] by (auto intro!: fs_ok_fmupd)
  then have place: "config_place root (hfs w')"
    using ok by (simp add: config_place_def w'_def is_dir_at_fmupd)
  have set: "cf_set \<lparr>cf_path = Join [path_text root, ''config.json''], cf_kv = Some m\<rparr> key v w =
      (Inr \<lparr>cf_path = Join [path_text root, ''config.json''], cf_kv = Some ?m\<rparr>, w')"
    using assms(2) wr by (cases "v = []") (simp_all add: cf_set_def Let_def io p WriteFile_def on_fs_def w'_def)
  have "settings_ok ?m"
    using assms(3-5) by (auto simp: settings_ok_def aput_def list_all_iff distinct_map_filter)
  then obtain m' where m': "dec_settings ?b = Some (Some m')" "map_of m' = map_of ?m"
    using settings_read_back by blast
  have "ReadFile (hfs w') ?p = Inr ?b"
    using ReadFile_present [OF ok', of ?p md "fdata ?b"] by (simp add: w'_def)
  then have load: "loadConfig (path_text root) w' =
      (Inr \<lparr>cf_path = Join [path_text root, ''config.json''], cf_kv = Some m'\<rparr>, w')"
    using m'(1) by (simp add: loadConfig_def Let_def io p nl_def)
  have "map_of m' = (map_of m)(key := if v = [] then None else Some v)"
    unfolding m'(2) by (simp add: map_of_drop_key map_of_aput)
  then have "cf_get env \<lparr>cf_path = Join [path_text root, ''config.json''], cf_kv = Some m'\<rparr> k =
       (if k = key \<and> Getenv (envName k) env = [] then v
        else cf_get env \<lparr>cf_path = Join [path_text root, ''config.json''], cf_kv = Some m\<rparr> k)" for env k
    by (simp add: cf_get_def Let_def)
  with set load place show ?thesis by blast
qed


definition demo_cworld :: cworld where
  "demo_cworld = \<lparr>hfs = fmempty, umask = 0, lseek_ok = True, zeroHashes = Map.empty, rand_bytes = (\<lambda>_. CHR ''r''), rand_pos = 0,
     clock = (\<lambda>_. UTC 2024 5 6 7 8 9 0), clock_pos = 0, kstats = (\<lambda>_ _. \<lparr>k_dev = 0, k_ino = 0, k_blocks = 0, k_mtime = 0\<rparr>),
     kstat_pos = 0, tempDir = [''tmp''], environ = [''VIT_BACKEND=''], cwd = [], out = [], errout = []\<rparr>"

theorem config_set_get_witness:
  "\<exists>c' w' c''. cf_set \<lparr>cf_path = Join [path_text [], ''config.json''], cf_kv = Some []\<rparr> ''backend'' ''firecracker'' demo_cworld = (Inr c', w') \<and>
    loadConfig (path_text []) w' = (Inr c'', w') \<and> cf_get [''VIT_BACKEND=''] c'' ''backend'' = ''firecracker'' \<and>
    cf_get [''VIT_BACKEND=process''] c'' ''backend'' = ''process''"
proof -
  have "config_place [] (hfs demo_cworld)" by (simp add: config_place_def demo_cworld_def fs_ok_def)
  moreover have "valid_utf8 ''backend''" "valid_utf8 ''firecracker''" by code_simp+
  moreover have "Getenv (envName ''backend'') [''VIT_BACKEND=''] = []" "Getenv (envName ''backend'') [''VIT_BACKEND=process''] = ''process''"
    by code_simp+
  moreover have "\<exists>c' w' c''. cf_set \<lparr>cf_path = Join [path_text [], ''config.json''], cf_kv = Some []\<rparr> ''backend'' ''firecracker'' demo_cworld = (Inr c', w') \<and>
    loadConfig (path_text []) w' = (Inr c'', w') \<and> config_place [] (hfs w') \<and>
    (\<forall>env k. cf_get env c'' k =
       (if k = ''backend'' \<and> Getenv (envName k) env = [] then ''firecracker''
        else cf_get env \<lparr>cf_path = Join [path_text [], ''config.json''], cf_kv = Some []\<rparr> k))"
    by (rule config_set_get) (use calculation in \<open>simp_all add: configKeys_def settings_ok_def\<close>)
  ultimately obtain c' w' c'' where
    "cf_set \<lparr>cf_path = Join [path_text [], ''config.json''], cf_kv = Some []\<rparr> ''backend'' ''firecracker'' demo_cworld = (Inr c', w')"
    "loadConfig (path_text []) w' = (Inr c'', w')" and env: "Getenv (envName ''backend'') [''VIT_BACKEND=''] = []"
    "Getenv (envName ''backend'') [''VIT_BACKEND=process''] = ''process''" and
    get: "\<And>env k. cf_get env c'' k = (if k = ''backend'' \<and> Getenv (envName k) env = [] then ''firecracker''
        else cf_get env \<lparr>cf_path = Join [path_text [], ''config.json''], cf_kv = Some []\<rparr> k)" by blast
  moreover have "cf_get [''VIT_BACKEND=''] c'' ''backend'' = ''firecracker''" "cf_get [''VIT_BACKEND=process''] c'' ''backend'' = ''process''"
    unfolding get using env by (simp_all add: cf_get_def)
  ultimately show ?thesis by blast
qed

end
