(* ===== verification/Guest.thy ===== *)
theory Guest
  imports Agent
begin

unbundle bit_operations_syntax

section \<open>The guest's init and agent process (cmd/vit-guest/main.go, cmd/vit-guest/vsock\_linux.go)\<close>

text \<open>
  Inside a machine \<open>vit-guest\<close> is process 1: it mounts what is needed, moves into an overlay over the
  read-only base where there is a second disk, and starts itself again as the agent for as long as the
  machine lives, reaping every child. The agent accepts connections on a vsock port and serves
  each with \<open>Handle\<close> in a goroutine, whose work is one step here. The kernel's calls are a parameter, the record \<open>kernel\<close>; a mount may change the whole
  tree, so it acts on the world. The loops that never end are step relations.
\<close>

subsection \<open>The kernel\<close>

text \<open>How \<open>wait4\<close> ends: a child that is gone, an interruption, no children, another error.\<close>

datatype waited = Gone int | Interrupted | No_child | Wait_error

text \<open>
  \<open>k_input\<close> is what the peer of a connection sends, \<open>k_say\<close> writes a line to the standard output
  (1) or the standard error (2).
\<close>

record 's kernel =
  k_pid :: int
  k_mount :: "string \<Rightarrow> string \<Rightarrow> string \<Rightarrow> string \<Rightarrow> string \<Rightarrow> ('s, unit) io"
  k_pivot_root :: "string \<Rightarrow> string \<Rightarrow> ('s, unit) io"
  k_chdir :: "string \<Rightarrow> ('s, unit) io"
  k_unmount :: "string \<Rightarrow> string \<Rightarrow> ('s, unit) io"
  k_sethostname :: "string \<Rightarrow> ('s, unit) io"
  k_start :: "string \<Rightarrow> string list \<Rightarrow> ('s, int) io"
  k_wait :: "'s \<Rightarrow> waited \<times> 's"
  k_say :: "nat \<Rightarrow> string \<Rightarrow> ('s, unit) io"
  k_socket :: "int \<Rightarrow> ('s, int) io"
  k_bind :: "int \<Rightarrow> bytes \<Rightarrow> ('s, unit) io"
  k_listen :: "int \<Rightarrow> int \<Rightarrow> ('s, unit) io"
  k_accept :: "int \<Rightarrow> ('s, int) io"
  k_read :: "int \<Rightarrow> nat \<Rightarrow> ('s, bytes) io"
  k_write :: "int \<Rightarrow> bytes \<Rightarrow> ('s, nat) io"
  k_close :: "int \<Rightarrow> ('s, unit) io"
  k_input :: "int \<Rightarrow> 's \<Rightarrow> bytes"

text \<open>A call whose error is ignored; an absolute path given as text.\<close>

definition ignoring :: "('s, 'a) io \<Rightarrow> ('s, unit) io" where
  "ignoring m = bindE (attempt m) (\<lambda>_. ret ())"

definition abs_path :: "string \<Rightarrow> path" where
  "abs_path p = fp_join [] p"

definition mkdir_quiet :: "string \<Rightarrow> mode \<Rightarrow> ('z world_scheme, unit) io" where
  "mkdir_quiet p m = bindE (gets umask) (\<lambda>um. ignoring (on_fs (MkdirAll um (abs_path p) m)))"

subsection \<open>Mounts (main.go)\<close>

definition work :: string where
  "work = ''/work''"

text \<open>A wrapped error of a call that must succeed.\<close>

definition must :: "string \<Rightarrow> string list \<Rightarrow> ('s, unit) io \<Rightarrow> ('s, unit) io" where
  "must fmt args m =
     bindE (attempt m) (\<lambda>r. case r of Inl e \<Rightarrow> fail (Errorf fmt args (Some e)) | Inr _ \<Rightarrow> ret ())"

definition scratch_dir :: "fs \<Rightarrow> string option" where
  "scratch_dir f =
     find (\<lambda>d. case Stat f (abs_path d) of Inr (Dir m) \<Rightarrow> True | _ \<Rightarrow> False) [''/mnt'', ''/tmp'', ''/media'']"

definition overlay_opts :: "string \<Rightarrow> string" where
  "overlay_opts upper = ''lowerdir=/,upperdir='' @ upper @ ''/upper,workdir='' @ upper @ ''/work''"

definition overlayRoot :: "'z world_scheme kernel \<Rightarrow> ('z world_scheme, unit) io" where
  "overlayRoot k =
     bindE (gets (\<lambda>w. scratch_dir (hfs w))) (\<lambda>sc.
       case sc of
         None \<Rightarrow> fail (Errorf ''the base image has no /mnt, /tmp or /media to work in'' [] None)
       | Some scratch \<Rightarrow>
           let upper = scratch @ ''/upper''; root = scratch @ ''/root'' in
           bindE (must ''tmpfs on %s: %w'' [scratch] (k_mount k ''tmpfs'' scratch ''tmpfs'' [] ''mode=0755'')) (\<lambda>_.
           bindE (mkdir_quiet upper mode_0755) (\<lambda>_.
           bindE (mkdir_quiet root mode_0755) (\<lambda>_.
           bindE (must ''mounting the writable disk: %w'' [] (k_mount k ''/dev/vdb'' upper ''ext4'' [] ''noinit_itable'')) (\<lambda>_.
           bindE (mkdir_quiet (upper @ ''/upper'') mode_0755) (\<lambda>_.
           bindE (mkdir_quiet (upper @ ''/work'') mode_0755) (\<lambda>_.
           bindE (must ''overlay: %w'' [] (k_mount k ''overlay'' root ''overlay'' [] (overlay_opts upper))) (\<lambda>_.
           bindE (for_each [''/proc'', ''/sys'', ''/dev'']
             (\<lambda>m. must ''moving %s: %w'' [m] (k_mount k m (root @ m) [] ''MS_MOVE'' []))) (\<lambda>_.
           bindE (mkdir_quiet (root @ ''/.oldroot'') mode_0700) (\<lambda>_.
           bindE (must ''pivot_root: %w'' [] (k_pivot_root k root (root @ ''/.oldroot''))) (\<lambda>_.
           bindE (k_chdir k ''/'') (\<lambda>_.
           bindE (ignoring (k_unmount k ''/.oldroot'' ''MNT_DETACH'')) (\<lambda>_.
           ignoring (on_fs (Remove (abs_path ''/.oldroot''))))))))))))))))"

text \<open>\<open>initMain\<close> up to its loop.\<close>

definition prepare :: "'z world_scheme kernel \<Rightarrow> (err \<Rightarrow> string) \<Rightarrow> ('z world_scheme, unit) io" where
  "prepare k errText =
     bindE (for_each [(''proc'', ''/proc'', ''proc''), (''sysfs'', ''/sys'', ''sysfs''), (''devtmpfs'', ''/dev'', ''devtmpfs'')]
       (\<lambda>(src, dst, t). ignoring (k_mount k src dst t [] []))) (\<lambda>_.
     bindE (gets (\<lambda>w. exists_at (hfs w) (abs_path ''/dev/vdb''))) (\<lambda>second.
     bindE (if second then
              bindE (attempt (overlayRoot k)) (\<lambda>r.
                case r of Inl e \<Rightarrow> ignoring (k_say k 2 (''vit-guest: overlay root: '' @ errText e)) | Inr _ \<Rightarrow> ret ())
            else ret ()) (\<lambda>_.
     bindE (for_each [(''tmpfs'', ''/dev/shm'', ''tmpfs''), (''devpts'', ''/dev/pts'', ''devpts''), (''tmpfs'', ''/run'', ''tmpfs'')]
       (\<lambda>(src, dst, t). bindE (mkdir_quiet dst mode_0755) (\<lambda>_. ignoring (k_mount k src dst t [] [])))) (\<lambda>_.
     bindE (mkdir_quiet work mode_0755) (\<lambda>_.
     ignoring (k_sethostname k ''vit''))))))"

subsection \<open>Supervising the agent\<close>

text \<open>The two loops of \<open>initMain\<close>: about to start the agent, or waiting for children while it runs.\<close>

datatype 's init_state = Starting 's | Reaping int 's

definition start_agent :: "'z eworld_scheme kernel \<Rightarrow> ('z eworld_scheme, int) io" where
  "start_agent k = bindE os_Environ (\<lambda>env. k_start k ''/proc/self/exe'' (env @ [''VIT_AGENT_CHILD=1'']))"

inductive init_step :: "'z eworld_scheme kernel \<Rightarrow> (err \<Rightarrow> string) \<Rightarrow> 'z eworld_scheme init_state \<Rightarrow> 'z eworld_scheme init_state \<Rightarrow> bool"
  for k errText where
  start: "start_agent k w = (Inr pid, w') \<Longrightarrow> init_step k errText (Starting w) (Reaping pid w')"
| start_fails: "start_agent k w = (Inl e, w') \<Longrightarrow>
    init_step k errText (Starting w) (Starting (snd (ignoring (k_say k 2 (''vit-guest: starting agent: '' @ errText e)) w')))"
| interrupted: "k_wait k w = (Interrupted, w') \<Longrightarrow> init_step k errText (Reaping pid w) (Reaping pid w')"
| agent_gone: "k_wait k w = (Gone pid, w') \<Longrightarrow> init_step k errText (Reaping pid w) (Starting w')"
| no_child: "k_wait k w = (No_child, w') \<Longrightarrow> init_step k errText (Reaping pid w) (Starting w')"
| orphan: "k_wait k w = (Gone q, w') \<Longrightarrow> q \<noteq> pid \<Longrightarrow> init_step k errText (Reaping pid w) (Reaping pid w')"
| wait_error: "k_wait k w = (Wait_error, w') \<Longrightarrow> init_step k errText (Reaping pid w) (Reaping pid w')"

inductive_cases StartingE: "init_step k errText (Starting w) t"
inductive_cases ReapingE: "init_step k errText (Reaping pid w) t"

subsection \<open>Vsock connections (vsock\_linux.go)\<close>

definition afVSOCK :: "32 word" where
  "afVSOCK = 40"

definition low_byte :: "32 word \<Rightarrow> char" where
  "low_byte x = char_of (unat (x AND 0xFF))"

definition sockaddr :: "32 word \<Rightarrow> bytes" where
  "sockaddr port =
     [low_byte afVSOCK, low_byte (drop_bit 8 afVSOCK), CHR 0x00, CHR 0x00,
      low_byte port, low_byte (drop_bit 8 port), low_byte (drop_bit 16 port), low_byte (drop_bit 24 port),
      CHR 0xFF, CHR 0xFF, CHR 0xFF, CHR 0xFF, CHR 0x00, CHR 0x00, CHR 0x00, CHR 0x00]"

text \<open>A failed step of \<open>listenVsock\<close> after the socket was made: it is closed.\<close>

definition or_close :: "'s kernel \<Rightarrow> int \<Rightarrow> string \<Rightarrow> ('s, unit) io \<Rightarrow> ('s, unit) io" where
  "or_close k fd fmt m =
     bindE (attempt m) (\<lambda>r.
       case r of Inr _ \<Rightarrow> ret () | Inl e \<Rightarrow> bindE (ignoring (k_close k fd)) (\<lambda>_. fail (Errorf fmt [] (Some e))))"

definition listenVsock :: "'s kernel \<Rightarrow> 32 word \<Rightarrow> ('s, int) io" where
  "listenVsock k port =
     bindE (attempt (k_socket k (uint afVSOCK))) (\<lambda>r.
       case r of
         Inl e \<Rightarrow> fail (Errorf ''socket: %w'' [] (Some e))
       | Inr fd \<Rightarrow>
           bindE (or_close k fd ''bind vsock: %w'' (k_bind k fd (sockaddr port))) (\<lambda>_.
           bindE (or_close k fd ''listen: %w'' (k_listen k fd 16)) (\<lambda>_.
           ret fd)))"

definition vsock_Accept :: "'s kernel \<Rightarrow> int \<Rightarrow> ('s, int) io" where
  "vsock_Accept k fd = k_accept k fd"

text \<open>\<open>Read\<close> into a buffer of \<open>n\<close> bytes: no bytes and no error is the end of the file.\<close>

definition vsock_Read :: "'s kernel \<Rightarrow> int \<Rightarrow> nat \<Rightarrow> ('s, bytes) io" where
  "vsock_Read k fd n =
     bindE (k_read k fd n) (\<lambda>b. if b = [] then fail (Errorf ''EOF'' [] None) else ret b)"

text \<open>\<open>Write\<close> returns the bytes written and the error, if any; a kernel that accepts nothing keeps it going.\<close>

partial_function (option) vsock_Write :: "'s kernel \<Rightarrow> int \<Rightarrow> nat \<Rightarrow> bytes \<Rightarrow> 's \<Rightarrow> ((nat \<times> err option) \<times> 's) option" where
  "vsock_Write k fd done p w =
     (if done \<ge> length p then Some ((done, None), w)
      else case k_write k fd (drop done p) w of
        (Inl e, w') \<Rightarrow> Some ((done, Some e), w')
      | (Inr n, w') \<Rightarrow> vsock_Write k fd (done + n) p w')"

definition vsock_Close :: "'s kernel \<Rightarrow> int \<Rightarrow> ('s, unit) io" where
  "vsock_Close k fd = k_close k fd"

subsection \<open>Serving\<close>

definition serve_start :: "'s kernel \<Rightarrow> (err \<Rightarrow> string) \<Rightarrow> ('s, int) io" where
  "serve_start k errText =
     bindE (attempt (listenVsock k (word_of_int agent_Port))) (\<lambda>r.
       case r of
         Inl e \<Rightarrow> bindE (ignoring (k_say k 2 (''vit-guest: vsock: '' @ errText e))) (\<lambda>_. fail e)
       | Inr fd \<Rightarrow>
           bindE (ignoring (k_say k 1 (''vit-guest: agent listening on vsock port '' @ itoa agent_Port))) (\<lambda>_. ret fd))"

text \<open>The goroutine of one connection: the request is answered, then the connection closed.\<close>

definition serve_conn :: "hasher \<Rightarrow> 'z eworld_scheme guest_runner \<Rightarrow> (err \<Rightarrow> string) \<Rightarrow> 'z eworld_scheme kernel \<Rightarrow> int \<Rightarrow>
    'z eworld_scheme \<Rightarrow> 'z eworld_scheme option" where
  "serve_conn sha exec errText k fd w =
     (case Handle sha exec errText (abs_path work) (k_input k fd w) w of
        (reply, w1) \<Rightarrow>
          map_option (\<lambda>(_, w2). snd (vsock_Close k fd w2)) (vsock_Write k fd 0 reply w1))"

text \<open>The accept loop with the goroutines it started: \<open>live\<close> are the connections not yet served.\<close>

inductive serve_step :: "hasher \<Rightarrow> 'z eworld_scheme guest_runner \<Rightarrow> (err \<Rightarrow> string) \<Rightarrow> 'z eworld_scheme kernel \<Rightarrow> int \<Rightarrow>
    int list \<times> 'z eworld_scheme \<Rightarrow> int list \<times> 'z eworld_scheme \<Rightarrow> bool"
  for sha exec errText k ln where
  accepted: "vsock_Accept k ln w = (Inr fd, w') \<Longrightarrow> serve_step sha exec errText k ln (live, w) (live @ [fd], w')"
| accept_fails: "vsock_Accept k ln w = (Inl e, w') \<Longrightarrow> serve_step sha exec errText k ln (live, w) (live, w')"
| served: "serve_conn sha exec errText k fd w = Some w' \<Longrightarrow>
    serve_step sha exec errText k ln (xs @ fd # ys, w) (xs @ ys, w')"

text \<open>\<open>main\<close>: \<open>os.Setenv\<close>, then either role, up to its loop.\<close>

fun set_env :: "string \<Rightarrow> string \<Rightarrow> string list \<Rightarrow> string list" where
  "set_env key v [] = [key @ ''='' @ v]"
| "set_env key v (s # ss) =
     (if HasPrefix s (key @ ''='') then (key @ ''='' @ v) # filter (\<lambda>t. \<not> HasPrefix t (key @ ''='')) ss
      else s # set_env key v ss)"

definition Setenv :: "string \<Rightarrow> string \<Rightarrow> ('z eworld_scheme, unit) io" where
  "Setenv key v = modify (\<lambda>w. w\<lparr>environ := set_env key v (environ w)\<rparr>)"

datatype role = Init | Agent int

definition guest_main :: "'z eworld_scheme kernel \<Rightarrow> (err \<Rightarrow> string) \<Rightarrow> ('z eworld_scheme, role) io" where
  "guest_main k errText =
     bindE (Setenv ''PATH'' ''/usr/local/sbin:/usr/local/bin:/usr/sbin:/usr/bin:/sbin:/bin'') (\<lambda>_.
     bindE os_Environ (\<lambda>env.
       if k_pid k = 1 \<and> Getenv ''VIT_AGENT_CHILD'' env = []
       then bindE (prepare k errText) (\<lambda>_. ret Init)
       else bindE (serve_start k errText) (\<lambda>fd. ret (Agent fd))))"

end
