(* ===== verification/GuestProps.thy ===== *)
theory GuestProps
  imports Guest
begin

text \<open>
  What the guest's init promises over every run of its supervision, and what a connection's \<open>Write\<close> hands to the kernel.
\<close>

section \<open>Properties of the guest's init\<close>

subsection \<open>One agent at a time\<close>

text \<open>
  A kernel that accounts for the agents: \<open>agents\<close> are the processes started as agents that \<open>wait4\<close> has not reported, and
  \<open>k_wait\<close> says there are no children only where there are none of them either.
\<close>

definition accounts :: "'s kernel \<Rightarrow> ('s \<Rightarrow> int set) \<Rightarrow> bool" where
  "accounts k agents \<longleftrightarrow>
     (\<forall>exe env w. agents (snd (k_start k exe env w)) =
        (case fst (k_start k exe env w) of Inl e \<Rightarrow> agents w | Inr pid \<Rightarrow> insert pid (agents w))) \<and>
     (\<forall>w. case k_wait k w of
        (Gone q, w') \<Rightarrow> agents w' = agents w - {q}
      | (No_child, w') \<Rightarrow> agents w = {} \<and> agents w' = {}
      | (_, w') \<Rightarrow> agents w' = agents w) \<and>
     (\<forall>n line w. agents (snd (k_say k n line w)) = agents w)"

lemma accounts_wait:
  assumes "accounts k agents"
  shows "k_wait k w = (Gone q, w') \<Longrightarrow> agents w' = agents w - {q}"
    and "k_wait k w = (No_child, w') \<Longrightarrow> agents w' = {}"
    and "k_wait k w = (Interrupted, w') \<Longrightarrow> agents w' = agents w"
    and "k_wait k w = (Wait_error, w') \<Longrightarrow> agents w' = agents w"
proof -
  have *: "case k_wait k w of (Gone q, w') \<Rightarrow> agents w' = agents w - {q}
      | (No_child, w') \<Rightarrow> agents w = {} \<and> agents w' = {} | (_, w') \<Rightarrow> agents w' = agents w"
    using assms by (simp add: accounts_def)
  show "k_wait k w = (Gone q, w') \<Longrightarrow> agents w' = agents w - {q}" "k_wait k w = (No_child, w') \<Longrightarrow> agents w' = {}"
    "k_wait k w = (Interrupted, w') \<Longrightarrow> agents w' = agents w" "k_wait k w = (Wait_error, w') \<Longrightarrow> agents w' = agents w"
    using * by simp_all
qed

lemma accounts_start:
  assumes "accounts k agents" and "start_agent k w = (r, w')"
  shows "agents w' = (case r of Inl e \<Rightarrow> agents w | Inr pid \<Rightarrow> insert pid (agents w))"
proof -
  from assms(2) obtain env where "k_start k ''/proc/self/exe'' env w = (r, w')"
    by (auto simp: start_agent_def os_Environ_def io)
  moreover have "agents (snd (k_start k ''/proc/self/exe'' env w)) =
      (case fst (k_start k ''/proc/self/exe'' env w) of Inl e \<Rightarrow> agents w | Inr pid \<Rightarrow> insert pid (agents w))"
    using assms(1) unfolding accounts_def by blast
  ultimately show ?thesis by simp
qed

lemma accounts_say: "accounts k agents \<Longrightarrow> agents (snd (ignoring (k_say k n line) w)) = agents w"
  unfolding accounts_def by (simp add: ignoring_def io)

text \<open>The agents a state of the supervision allows.\<close>

fun supervised :: "('s \<Rightarrow> int set) \<Rightarrow> 's init_state \<Rightarrow> bool" where
  "supervised agents (Starting w) \<longleftrightarrow> agents w = {}"
| "supervised agents (Reaping pid w) \<longleftrightarrow> agents w \<subseteq> {pid}"

lemma init_step_supervised:
  assumes "init_step k errText s t" and "accounts k agents" and "supervised agents s"
  shows "supervised agents t"
  using assms(1,3)
proof cases
  case (start w pid w')
  with assms(3) accounts_start [OF assms(2) start(3)] show ?thesis by simp
next
  case (start_fails w e w')
  with assms(3) accounts_start [OF assms(2) start_fails(3)] show ?thesis by (simp add: accounts_say [OF assms(2)])
next
  case (agent_gone w pid w')
  with assms(3) accounts_wait(1) [OF assms(2) agent_gone(3)] show ?thesis by auto
next
  case (orphan w q w' pid)
  with assms(3) accounts_wait(1) [OF assms(2) orphan(3)] show ?thesis by auto
qed (use assms(3) accounts_wait(2-4) [OF assms(2)] in auto)

text \<open>
  Property C33. However the children of the guest's init come and go, it never has two agents: before it starts one, none it
  started is left, and while it reaps, the only one is the one it waits for.
\<close>

theorem guest_one_agent:
  assumes "accounts k agents" and "agents w = {}" and "(init_step k errText)\<^sup>*\<^sup>* (Starting w) s"
  shows "case s of Starting v \<Rightarrow> agents v = {} | Reaping pid v \<Rightarrow> agents v \<subseteq> {pid}"
proof -
  have "supervised agents s"
    using assms(3)
  proof (induction rule: rtranclp_induct)
    case base
    with assms(2) show ?case by simp
  next
    case (step t u)
    with init_step_supervised [OF step(2) assms(1)] show ?case by blast
  qed
  then show ?thesis by (cases s) simp_all
qed

subsection \<open>Writing to a connection\<close>

text \<open>A kernel that takes at least one byte of what it is given, and hands over what it took.\<close>

definition takes_bytes :: "'s kernel \<Rightarrow> int \<Rightarrow> ('s \<Rightarrow> bytes) \<Rightarrow> bool" where
  "takes_bytes k fd sent \<longleftrightarrow> (\<forall>b w. b \<noteq> [] \<longrightarrow>
     (\<exists>n w'. k_write k fd b w = (Inr n, w') \<and> 0 < n \<and> n \<le> length b \<and> sent w' = sent w @ take n b))"

text \<open>
  Property C34. Over a kernel that accepts some bytes of every write, however few, \<open>Write\<close> returns with all of them
  written, in their order and once each.
\<close>

theorem vsock_Write_all:
  assumes "takes_bytes k fd sent"
  shows "\<exists>w'. vsock_Write k fd 0 p w = Some ((length p, None), w') \<and> sent w' = sent w @ p"
proof -
  have "\<exists>w'. vsock_Write k fd m p w = Some ((length p, None), w') \<and> sent w' = sent w @ drop m p" if "m \<le> length p" for m
    using that
  proof (induction "length p - m" arbitrary: m w rule: less_induct)
    case less
    show ?case
    proof (cases "m = length p")
      case True
      then show ?thesis by (simp add: vsock_Write.simps)
    next
      case False
      with less.prems have "drop m p \<noteq> []" by simp
      with assms obtain n w1 where k: "k_write k fd (drop m p) w = (Inr n, w1)" "0 < n" "n \<le> length (drop m p)"
        "sent w1 = sent w @ take n (drop m p)" unfolding takes_bytes_def by blast
      have "length p - (m + n) < length p - m" "m + n \<le> length p" using k(2,3) less.prems False by auto
      from less.hyps [OF this, of w1] obtain w' where
        "vsock_Write k fd (m + n) p w1 = Some ((length p, None), w')" "sent w' = sent w1 @ drop (m + n) p" by blast
      moreover have "take n (drop m p) @ drop (m + n) p = drop m p" by (metis add.commute append_take_drop_id drop_drop)
      ultimately show ?thesis using k less.prems False by (subst vsock_Write.simps) simp
    qed
  qed
  from this [of 0] show ?thesis by simp
qed

subsection \<open>A kernel\<close>

text \<open>The kernel of the witnesses: every agent has the process id 7, writes take one byte.\<close>

record gworld = eworld +
  procs :: "int set"
  outbox :: bytes

definition demo_kernel :: "gworld kernel" where
  "demo_kernel = \<lparr>k_pid = 1, k_mount = \<lambda>a b c d e. ret (), k_pivot_root = \<lambda>a b. ret (), k_chdir = \<lambda>a. ret (), k_unmount = \<lambda>a b. ret (),
     k_sethostname = \<lambda>a. ret (), k_start = \<lambda>exe env w. (Inr 7, w\<lparr>procs := insert 7 (procs w)\<rparr>),
     k_wait = \<lambda>w. if 7 \<in> procs w then (Gone 7, w\<lparr>procs := procs w - {7}\<rparr>) else if procs w = {} then (No_child, w) else (Wait_error, w),
     k_say = \<lambda>n line. ret (), k_socket = \<lambda>f. ret 3, k_bind = \<lambda>fd a. ret (), k_listen = \<lambda>fd n. ret (), k_accept = \<lambda>fd. ret 4,
     k_read = \<lambda>fd n. ret [], k_write = \<lambda>fd b w. (Inr 1, w\<lparr>outbox := outbox w @ take 1 b\<rparr>), k_close = \<lambda>fd. ret (), k_input = \<lambda>fd w. []\<rparr>"

definition demo_gworld :: gworld where
  "demo_gworld = \<lparr>hfs = fmempty, umask = 0, lseek_ok = True, zeroHashes = Map.empty, rand_bytes = (\<lambda>_. CHR ''r''), rand_pos = 0,
     clock = (\<lambda>_. zero_time), clock_pos = 0, kstats = (\<lambda>_ _. \<lparr>k_dev = 0, k_ino = 0, k_blocks = 0, k_mtime = 0\<rparr>),
     kstat_pos = 0, tempDir = [], environ = [], procs = {}, outbox = []\<rparr>"

theorem guest_one_agent_witness:
  "\<exists>v. (init_step demo_kernel (\<lambda>_. []))\<^sup>*\<^sup>* (Starting demo_gworld) (Reaping 7 v) \<and> procs v = {7} \<and> procs v \<subseteq> {7}"
proof -
  have k: "accounts demo_kernel procs" by (simp add: accounts_def demo_kernel_def io)
  let ?v = "demo_gworld\<lparr>procs := {7}\<rparr>"
  have "start_agent demo_kernel demo_gworld = (Inr 7, ?v)"
    by (simp add: start_agent_def os_Environ_def io demo_kernel_def) (simp add: demo_gworld_def)
  then have s: "(init_step demo_kernel (\<lambda>_. []))\<^sup>*\<^sup>* (Starting demo_gworld) (Reaping 7 ?v)" by (intro r_into_rtranclp init_step.start)
  from guest_one_agent [OF k _ s] have "procs ?v \<subseteq> {7}" by (simp add: demo_gworld_def)
  with s show ?thesis by (intro exI [of _ ?v]) simp
qed

theorem vsock_Write_all_witness:
  "\<exists>w'. vsock_Write demo_kernel 4 0 ''{}'' demo_gworld = Some ((2, None), w') \<and> outbox w' = ''{}''"
proof -
  have "takes_bytes demo_kernel 4 outbox" by (auto simp: takes_bytes_def demo_kernel_def Suc_le_eq)
  from vsock_Write_all [OF this, of "''{}''" demo_gworld] show ?thesis by (simp add: demo_gworld_def numeral_2_eq_2)
qed

end
