(* ===== verification/AgentProps.thy ===== *)
theory AgentProps
  imports Agent SnapProps Engine
begin

text \<open>
  What paths the agent accepts (and where a link leads them), that it lists the tree a snapshot takes, and that it speaks the protocol the
  client speaks: a file written through a connection is read back through another.
\<close>

section \<open>Properties of the agent\<close>

subsection \<open>Paths stay inside\<close>

lemma dotdot_in_split:
  assumes "''..'' \<in> set (split_on (CHR ''/'') s)"
  shows "sublist ''/../'' (''/'' @ s @ ''/'')"
proof -
  let ?d = "CHR ''/''"
  from assms obtain us vs where uv: "split_on ?d s = us @ ''..'' # vs" by (auto simp: in_set_conv_decomp)
  have j: "join_with ?d (a @ b) = (if a = [] then join_with ?d b else if b = [] then join_with ?d a else join_with ?d a @ ?d # join_with ?d b)" for a b
    by (induction a rule: induct_list012) (auto simp: neq_Nil_conv)
  have "s = join_with ?d (us @ ''..'' # vs)" using join_with_split_on [of ?d s] uv by simp
  then obtain x y where "?d # s @ [?d] = x @ ''/../'' @ y"
  proof -
    have "\<exists>x. ?d # join_with ?d (us @ ''..'' # vs) = x @ ?d # join_with ?d (''..'' # vs)"
      by (cases "us = []") (auto simp: j)
    then obtain x where x: "?d # s = x @ ?d # join_with ?d (''..'' # vs)" using \<open>s = _\<close> by blast
    have "\<exists>y. join_with ?d (''..'' # vs) @ [?d] = ''../'' @ y" by (cases vs) auto
    then obtain y where "join_with ?d (''..'' # vs) @ [?d] = ''../'' @ y" by blast
    with x have "?d # s @ [?d] = x @ ''/../'' @ y" by (metis append.assoc append_Cons append_Nil)
    then show thesis by (rule that)
  qed
  then show ?thesis by (auto simp: sublist_def)
qed

lemma split_on_append: "split_on d (a @ d # b) = split_on d a @ split_on d b"
  by (induction a) (auto split: list.splits)

lemma dotdot_sublist:
  assumes "sublist ''/../'' (''/'' @ s @ ''/'')"
  shows "''..'' \<in> set (split_on (CHR ''/'') s)"
proof -
  let ?d = "CHR ''/''"
  from assms obtain x y where xy: "[] @ ?d # (s @ ?d # []) = x @ ?d # (''..'' @ ?d # y)" by (auto simp: sublist_def)
  have l: "split_on ?d ([] @ ?d # (s @ ?d # [])) = [] # split_on ?d s @ [[]]"
    unfolding split_on_append by simp
  have r: "split_on ?d (x @ ?d # (''..'' @ ?d # y)) = split_on ?d x @ split_on ?d ''..'' @ split_on ?d y"
    unfolding split_on_append by (rule refl)
  have "''..'' \<in> set (split_on ?d (x @ ?d # (''..'' @ ?d # y)))" unfolding r by simp
  then show ?thesis unfolding xy [symmetric] l by auto
qed

lemma clean_from_plain: "''..'' \<notin> set cs \<Longrightarrow> clean_from p cs = p @ filter (\<lambda>c. c \<noteq> [] \<and> c \<noteq> ''.'') cs"
  by (induction cs arbitrary: p) auto

text \<open>
  Property C35. What \<open>inside\<close> accepts, exactly and as text: it refuses the empty path, absolute paths and those with a
  component \<open>..\<close>, and no other, and gives the root followed by the components, the empty ones and \<open>.\<close> left out; the
  result is the root or a path below it. It is a check on the text of the path alone: it does not look at links.
\<close>

theorem inside_exact:
  "inside root rel =
     (if rel = [] \<or> hd rel = CHR ''/'' \<or> ''..'' \<in> set (split_on (CHR ''/'') rel)
      then Inl (Errorf ''unsafe path %q'' [rel] None)
      else Inr (root @ filter (\<lambda>c. c \<noteq> [] \<and> c \<noteq> ''.'') (split_on (CHR ''/'') rel)))"
proof -
  have "Contains (''/'' @ rel @ ''/'') ''/../'' \<longleftrightarrow> ''..'' \<in> set (split_on (CHR ''/'') rel)"
    unfolding Contains_def using dotdot_in_split dotdot_sublist by blast
  moreover have "HasPrefix rel ''/'' \<longleftrightarrow> rel \<noteq> [] \<and> hd rel = CHR ''/''" by (cases rel) (auto simp: HasPrefix_def)
  ultimately show ?thesis
    using clean_from_plain [of "split_on (CHR ''/'') rel" root] by (auto simp: inside_def fp_join_def)
qed

text \<open>
  A link leads out of the root: the agent writes a link whose target is outside, and a later write through it, which
  \<open>inside\<close> accepts, changes a file outside the root.
\<close>

definition linked_fs :: fs where
  "linked_fs = fmap_of_list [([''work''], Dir mode_0755), ([''etc''], Dir mode_0755), ([''etc'', ''x''], File mode_0644 (fdata ''old''))]"

definition link_out :: request where
  "link_out = no_request\<lparr>rq_Op := ''write'', rq_Path := ''l'', rq_Link := ''/etc''\<rparr>"

definition write_through :: request where
  "write_through = no_request\<lparr>rq_Op := ''write'', rq_Path := ''l/x'', rq_Size := 3\<rparr>"

definition linked_world :: world where
  "linked_world = \<lparr>hfs = linked_fs, umask = 0, lseek_ok = True, zeroHashes = Map.empty\<rparr>"

definition led_out :: "(err + unit) \<times> world" where
  "led_out = bindE (agent_write [''work''] link_out []) (\<lambda>_. agent_write [''work''] write_through ''new'') linked_world"

theorem agent_link_leads_out:
  "ReadFile (hfs linked_world) [''etc'', ''x''] = Inr ''old'' \<and>
   fst led_out = Inr () \<and> ReadFile (hfs (snd led_out)) [''etc'', ''x''] = Inr ''new''"
  by code_simp

subsection \<open>Listing\<close>

lemma list_visit_entry:
  assumes "fs_ok f" and "fmlookup f (root @ r) = Some i"
  shows "list_visit sha f root (r, i) = Inr (entry_of (hashOf sha) (r, i))"
  using assms
  by (cases i) (simp_all add: Readlink_def Lstat_def stat_with_present open_cells_def Stat_def)

lemma list_walk_entries:
  assumes "fs_ok f" and "\<And>r i. (r, i) \<in> set l \<Longrightarrow> fmlookup f (root @ r) = Some i"
  shows "list_walk sha f root l = Inr (concat (map (entry_of (hashOf sha)) l))"
  using assms(2)
proof (induction l)
  case (Cons x l)
  obtain r i where x: "x = (r, i)" by fastforce
  with Cons list_visit_entry [OF assms(1), of root r i sha] show ?case by simp
qed simp

lemma visible_None: "visible None l = l"
  by (simp add: visible_def hidden_by_def ignored_def)

lemma agent_list_tree:
  assumes "fs_ok f" and "is_dir_at f root"
  shows "agent_list sha f root = Inr (snapshot_tree (hashOf sha) None f root)"
  using list_walk_entries [OF assms(1), of "below f root" root sha] assms
  by (simp add: agent_list_def WalkDir_dir set_below snapshot_tree_def visible_None)

text \<open>What a snapshot with an ignore rule leaves out of a tree: ignored paths, and those below an ignored directory.\<close>

definition left_out :: "ignore option \<Rightarrow> tree \<Rightarrow> entry \<Rightarrow> bool" where
  "left_out ign t e \<longleftrightarrow> (case ign of None \<Rightarrow> False | Some ig \<Rightarrow>
     ig (e_path e) (e_dir e) \<or> list_ex (\<lambda>d. e_dir d \<and> ig (e_path d) True \<and> strict_prefix (epath d) (epath e)) t)"

lemma left_out_snapshot:
  assumes "fs_ok f" and "x \<in> set (below f q)" and "e \<in> set (entry_of hash x)"
  shows "left_out ign (snapshot_tree hash None f q) e \<longleftrightarrow> ignored ign x \<or> hidden_by ign (below f q) (fst x)"
proof (cases ign)
  case (Some ig)
  obtain r i where x: "x = (r, i)" by fastforce
  note e = entry_of_path [OF assms(3) [unfolded x]]
  have ep: "epath d = s" if "(s, j) \<in> set (below f q)" "d \<in> set (entry_of hash (s, j))" for s j d
    using below_names [OF assms(1) that(1)] entry_of_path [OF that(2)] by (intro epath_eq) auto
  have dirs: "(\<exists>d \<in> set (entry_of hash (s, j)). e_dir d \<and> ig (e_path d) True \<and> strict_prefix (epath d) r) \<longleftrightarrow>
      is_dir j \<and> ig (rel_text s) True \<and> strict_prefix s r" if "(s, j) \<in> set (below f q)" for s j
    using ep [OF that] by (cases j) (auto simp: no_entry_def)
  have "list_ex (\<lambda>d. e_dir d \<and> ig (e_path d) True \<and> strict_prefix (epath d) (epath e)) (snapshot_tree hash None f q) \<longleftrightarrow>
      (\<exists>(s, j) \<in> set (below f q). \<exists>d \<in> set (entry_of hash (s, j)). e_dir d \<and> ig (e_path d) True \<and> strict_prefix (epath d) r)"
    using ep [OF assms(2,3) [unfolded x]] by (auto simp: list_ex_iff set_snapshot_tree visible_None)
  also have "\<dots> \<longleftrightarrow> (\<exists>(s, j) \<in> set (below f q). is_dir j \<and> ig (rel_text s) True \<and> strict_prefix s r)"
    using dirs by (intro bex_cong) auto
  also have "\<dots> \<longleftrightarrow> hidden_by ign (below f q) r" unfolding hidden_by_def ignored_def Some by (intro bex_cong) auto
  finally show ?thesis using e by (simp add: left_out_def Some ignored_def x)
qed (simp add: left_out_def ignored_def hidden_by_def)

lemma snapshot_tree_ignore:
  assumes "fs_ok f"
  shows "snapshot_tree hash ign f q = filter (\<lambda>e. \<not> left_out ign (snapshot_tree hash None f q) e) (snapshot_tree hash None f q)"
proof -
  let ?K = "\<lambda>e. \<not> left_out ign (snapshot_tree hash None f q) e"
  have "filter ?K (entry_of hash x) = (if ignored ign x \<or> hidden_by ign (below f q) (fst x) then [] else entry_of hash x)"
    if "x \<in> set (below f q)" for x
    using left_out_snapshot [OF assms that] by (auto simp: filter_empty_conv filter_id_conv)
  then have "filter ?K (concat (map (entry_of hash) l)) =
      concat (map (entry_of hash) (filter (\<lambda>x. \<not> ignored ign x \<and> \<not> hidden_by ign (below f q) (fst x)) l))"
    if "set l \<subseteq> set (below f q)" for l
    using that by (induction l) auto
  from this [of "below f q"] have "concat (map (entry_of hash) (visible ign (below f q))) = filter ?K (concat (map (entry_of hash) (below f q)))"
    by (simp add: visible_def)
  then show ?thesis unfolding snapshot_tree_def visible_None by (simp add: filter_sort)
qed

text \<open>
  Property C32. Listing a directory inside the machine and taking a snapshot of the same files outside give the same
  tree (paths, modes, sizes, links and hashes), less what the ignore rule of the snapshot leaves out: the agent has no
  ignore rule, so with the engine's rule the list also has what lies under \<open>.git\<close> and \<open>.vit\<close>.
\<close>

theorem agent_list_is_Snapshot:
  assumes "img_inv sha root B w" and "capturable root B q (hfs w)"
  shows "\<exists>t w'. agent_list sha (hfs w) q = Inr t \<and>
    Snapshot (PutFile sha root) q ign w = (Inr (filter (\<lambda>e. \<not> left_out ign t e) t), w')"
proof -
  have ok: "fs_ok (hfs w)" using assms(1) store_okD(2) by (auto simp: img_inv_def safe_store_def)
  have "is_dir_at (hfs w) q" using assms(2) by (simp add: capturable_def)
  with ok have "agent_list sha (hfs w) q = Inr (snapshot_tree (hashOf sha) None (hfs w) q)" by (rule agent_list_tree)
  moreover obtain w' where "Snapshot (PutFile sha root) q ign w = (Inr (snapshot_tree (hashOf sha) ign (hfs w) q), w')"
    by (rule Snapshot_cas [OF assms, of ign]) (rule that)
  ultimately show ?thesis using snapshot_tree_ignore [OF ok, of "hashOf sha" ign q] by auto
qed

theorem agent_list_is_Snapshot_witness:
  "\<exists>t w'. agent_list demo_sha (hfs dir_world) [''d''] = Inr t \<and>
     Snapshot (PutFile demo_sha [''r'']) [''d''] (Some defaultIgnore) dir_world = (Inr (filter (\<lambda>e. \<not> left_out (Some defaultIgnore) t e) t), w')"
  by (rule agent_list_is_Snapshot [OF dir_demo_inv dir_demo_capturable])

subsection \<open>One line of JSON\<close>

lemma hex_digit_nl: "CHR 0x0A \<noteq> hex_digit (n mod 16)"
proof
  assume "CHR 0x0A = hex_digit (n mod 16)"
  then have "(of_char (CHR 0x0A) :: nat) = of_char (hex_digit (n mod 16))" by simp
  moreover have "n mod 16 < 16" by simp
  ultimately show False by (auto simp: hex_digit_def split: if_splits)
qed

lemma u_escape_nl: "CHR 0x0A \<notin> set (u_escape n)"
  by (simp add: u_escape_def hex4_text_def hex_digit_nl)

lemma esc_nl: "CHR 0x0A \<notin> set (esc s)"
proof (induction s rule: esc.induct)
  case (1 s)
  have a: "CHR 0x0A \<notin> set (esc_ascii c)" for c
    using u_escape_nl by (auto simp: esc_ascii_def)
  have "CHR 0x0A \<notin> set (take (rune_len s) s)" if "\<not> byte (hd s) < 128"
    using rune_multi [of s] that by fastforce
  with 1 a u_escape_nl show ?case by (subst esc.simps) auto
qed

lemma num_nl: "num_ok s \<Longrightarrow> CHR 0x0A \<notin> set s"
  using num_ok_chars [of s] by (auto simp: list_all_iff num_char_def is_digit_def digit_val_def)

lemma emit_nl_aux:
  "d = None \<Longrightarrow> json_ok j \<Longrightarrow> CHR 0x0A \<notin> set (emit d j)"
  "d = None \<Longrightarrow> list_all json_ok js \<Longrightarrow> CHR 0x0A \<notin> set (emit_elems d js)"
  "d = None \<Longrightarrow> list_all (\<lambda>f. valid_utf8 (fst f) \<and> json_ok (snd f)) fs \<Longrightarrow> CHR 0x0A \<notin> set (emit_fields d fs)"
  by (induction d j and d js and d fs rule: emit_emit_elems_emit_fields.induct)
    (auto simp: num_nl str_text_def esc_nl newline_def colon_def deeper_def list_all_iff)

lemmas emit_nl = emit_nl_aux(1) [OF refl]

lemma TrimSpace_object:
  assumes "fs \<noteq> []"
  shows "TrimSpace (emit None (JObj fs)) = emit None (JObj fs)"
proof -
  have t: "trim_front runes (c # s) = c # s" if "\<And>r. r \<in> set runes \<Longrightarrow> r \<noteq> [] \<Longrightarrow> hd r \<noteq> c" for runes c s
  proof -
    have "find (\<lambda>r. r \<noteq> [] \<and> HasPrefix (c # s) r) runes = None"
      unfolding find_None_iff
    proof
      assume "\<exists>r. r \<in> set runes \<and> r \<noteq> [] \<and> HasPrefix (c # s) r"
      then obtain r u where r: "r \<in> set runes" "r \<noteq> []" "c # s = r @ u" by (auto simp: HasPrefix_iff)
      then have "hd r = c" by (metis hd_append list.sel(1))
      with that [OF r(1,2)] show False by simp
    qed
    then show ?thesis by (subst trim_front.simps) simp
  qed
  have a: "r \<in> set space_runes \<Longrightarrow> r \<noteq> [] \<Longrightarrow> hd r \<noteq> CHR ''{''" for r by (auto simp: space_runes_def)
  have b: "r \<in> set (map rev space_runes) \<Longrightarrow> r \<noteq> [] \<Longrightarrow> hd r \<noteq> CHR ''}''" for r
    by (auto simp: space_runes_def char_of_eq_iff)
  obtain s where s: "emit None (JObj fs) = CHR ''{'' # s @ ''}''" using assms by (auto simp: newline_def)
  have "rev (CHR ''{'' # s @ ''}'') = CHR ''}'' # rev (CHR ''{'' # s)" by simp
  moreover have "trim_front space_runes (CHR ''{'' # s @ ''}'') = CHR ''{'' # s @ ''}''" by (rule t) (rule a)
  moreover have "trim_front (map rev space_runes) (CHR ''}'' # rev (CHR ''{'' # s)) = CHR ''}'' # rev (CHR ''{'' # s)" by (rule t) (rule b)
  ultimately show ?thesis unfolding TrimSpace_def s by simp
qed

subsection \<open>Requests and replies\<close>

lemma member_opts:
  "lower k \<noteq> n \<Longrightarrow> member n (opt_int k i @ fs) = member n fs"
  "lower k \<noteq> n \<Longrightarrow> member n (opt_bool k b @ fs) = member n fs"
  "lower k \<noteq> n \<Longrightarrow> member n (opt_list k enc xs @ fs) = member n fs"
  "lower k \<noteq> n \<Longrightarrow> member n (opt_bool k b) = None"
  "lower k \<noteq> n \<Longrightarrow> member n (opt_int k i) = None"
  by (simp_all add: opt_int_def opt_bool_def opt_list_def member_simps split: option.splits)

lemma dec_int64_None: "dec_int64 None = Some 0"
  by (simp add: dec_int64_def)

lemma dec_opts:
  "lower k = n \<Longrightarrow> member n fs = None \<Longrightarrow> int64 i = i \<Longrightarrow> dec_int64 (member n (opt_int k i @ fs)) = Some i"
  "lower k = n \<Longrightarrow> int64 i = i \<Longrightarrow> dec_int64 (member n (opt_int k i)) = Some i"
  "lower k = n \<Longrightarrow> member n fs = None \<Longrightarrow> dec_int 0 4294967295 (member n (opt_int k (uint (m :: 32 word)) @ fs)) = Some (uint m)"
  "lower k = n \<Longrightarrow> member n fs = None \<Longrightarrow> dec_bool (member n (opt_bool k b @ fs)) = Some b"
  "lower k = n \<Longrightarrow> dec_bool (member n (opt_bool k b)) = Some b"
  "lower k = n \<Longrightarrow> member n fs = None \<Longrightarrow> dec_list dec_str_elem (member n (opt_list k JStr ss @ fs)) = Some ss"
  "lower k = n \<Longrightarrow> member n fs = None \<Longrightarrow> (\<And>e. e \<in> set es \<Longrightarrow> entry_ok e) \<Longrightarrow>
     dec_list dec_entry (member n (opt_list k entry_json es @ fs)) = Some es"
  using dec_mode [of m] dec_list_strs [of ss] all_some_map [of es dec_entry entry_json] dec_entry_json
    dec_int64_itoa [of i]
  by (auto simp: opt_int_def opt_bool_def opt_list_def member_simps dec_list_def dec_int64_None)

definition request_ok :: "request \<Rightarrow> bool" where
  "request_ok r \<longleftrightarrow> list_all valid_utf8 [rq_Op r, rq_Dir r, rq_Path r, rq_Link r] \<and> list_all valid_utf8 (rq_Env r) \<and>
     list_all valid_utf8 (rq_Cmd r) \<and> int64 (rq_Size r) = rq_Size r"

definition reply_ok :: "reply \<Rightarrow> bool" where
  "reply_ok r \<longleftrightarrow> list_all valid_utf8 [rp_Error r, rp_Stdout r, rp_Stderr r] \<and> list_all entry_ok (rp_Entries r) \<and>
     int64 (rp_Exit r) = rp_Exit r \<and> int64 (rp_Size r) = rp_Size r"

lemma fields_ok_opts:
  "valid_utf8 k \<Longrightarrow> fields_ok (opt_int k i)" "valid_utf8 k \<Longrightarrow> fields_ok (opt_bool k b)"
  "valid_utf8 k \<Longrightarrow> (\<And>x. x \<in> set xs \<Longrightarrow> json_ok (enc x)) \<Longrightarrow> fields_ok (opt_list k enc xs)"
  by (auto simp: fields_ok_def opt_int_def opt_bool_def opt_list_def)

lemma json_ok_request: "request_ok r \<Longrightarrow> json_ok (request_json r)"
  unfolding request_json_def fields_ok_def [symmetric]
  by (simp add: fields_ok_simps fields_ok_opts request_ok_def list_all_iff valid_utf8_ascii)

lemma json_ok_reply: "reply_ok r \<Longrightarrow> json_ok (reply_json r)"
  unfolding reply_json_def fields_ok_def [symmetric]
  by (simp add: fields_ok_simps fields_ok_opts reply_ok_def list_all_iff valid_utf8_ascii json_ok_entry)

lemma request_roundtrip:
  assumes "request_ok r"
  shows "unmarshal_with dec_request (emit d (request_json r)) = Some r"
  using parse_emit [OF json_ok_request [OF assms], of d] assms
  by (simp add: unmarshal_with_def request_json_def dec_request_def member_rules member_opts dec_opts request_ok_def)

lemma reply_roundtrip:
  assumes "reply_ok r"
  shows "unmarshal_with dec_reply (emit d (reply_json r)) = Some r"
  using parse_emit [OF json_ok_reply [OF assms], of d] assms
  by (simp add: unmarshal_with_def reply_json_def dec_reply_def member_rules member_opts dec_opts reply_ok_def list_all_iff
      dec_int64_itoa)


subsection \<open>A conversation\<close>

text \<open>A connection to the agent: what the client sends is what \<open>Handle\<close> reads.\<close>

definition agent_session :: "hasher \<Rightarrow> 'z eworld_scheme guest_runner \<Rightarrow> (err \<Rightarrow> string) \<Rightarrow> path \<Rightarrow> 'z eworld_scheme session" where
  "agent_session sha exec errText root input w = (case Handle sha exec errText root input w of (reply, w') \<Rightarrow> (Inr reply, w'))"

lemma line_split: "CHR 0x0A \<notin> set l \<Longrightarrow> line_of (l @ CHR 0x0A # b) = l \<and> after_line (l @ CHR 0x0A # b) = b"
  by (simp add: line_of_def after_line_def takeWhile_append takeWhile_eq_all_conv)

lemma request_json_object: "\<exists>f fs. request_json r = JObj (f # fs)"
  by (simp add: request_json_def)

lemma Handle_request:
  assumes "request_ok req"
  shows "Handle sha exec errText root (emit None (request_json req) @ [CHR 0x0A] @ body) w = serve sha exec errText root req body w"
proof -
  have "TrimSpace (emit None (request_json req)) = emit None (request_json req)"
    using request_json_object [of req] TrimSpace_object by (metis list.distinct(1))
  with line_split [OF emit_nl [OF json_ok_request [OF assms]], of body] request_roundtrip [OF assms] show ?thesis
    by (simp add: Handle_def)
qed

lemma Call_session:
  assumes "request_ok req" and "serve sha exec errText root req body w = (reply_line r @ extra, w')"
    and "reply_ok r" and "rp_Error r = []" and "rq_Op req = ''read'' \<longrightarrow> rp_Size r = int (length extra)"
  shows "Call (agent_session sha exec errText root) req body w = (Inr (r, if rq_Op req = ''read'' then extra else []), w')"
proof -
  have s: "agent_session sha exec errText root (emit None (request_json req) @ [CHR 0x0A] @ body) w =
      (Inr (emit None (reply_json r) @ CHR 0x0A # extra), w')"
    using assms(2) Handle_request [OF assms(1), of sha exec errText root body w] by (simp add: agent_session_def reply_line_def)
  from line_split [OF emit_nl [OF json_ok_reply [OF assms(3)]], of extra] reply_roundtrip [OF assms(3)] assms(4,5)
  show ?thesis unfolding Call_def bindE_def s prod.case sum.case by simp
qed

lemma inside_names:
  assumes "r \<noteq> []" and "list_all ok_name r"
  shows "inside root (rel_text r) = Inr (root @ r)"
proof -
  have n: "CHR ''/'' \<notin> set c" "c \<noteq> []" "c \<noteq> ''..''" "ok_name c" if "c \<in> set r" for c
    using that assms(2) by (auto simp: list_all_iff dest: ok_nameD)
  then have sp: "split_on (CHR ''/'') (rel_text r) = r"
    unfolding rel_text_def using assms(1) by (intro split_on_join_with) auto
  have "rel_text r \<noteq> []" using sp n assms(1) by (cases r) auto
  moreover have "\<not> HasPrefix (rel_text r) ''/''"
  proof
    assume "HasPrefix (rel_text r) ''/''"
    then obtain u where "rel_text r = CHR ''/'' # u" by (auto simp: HasPrefix_iff)
    with sp have "[] \<in> set r" by (auto simp: rel_text_def)
    with n show False by blast
  qed
  moreover have "\<not> Contains (''/'' @ rel_text r @ ''/'') ''/../''"
    unfolding Contains_def using dotdot_sublist [of "rel_text r"] n(3) sp by auto
  moreover have "fp_join root (rel_text r) = root @ r"
    unfolding fp_join_def sp using n by (intro clean_from_names) blast
  ultimately show ?thesis by (simp add: inside_def)
qed


text \<open>A file can be written at \<open>r\<close>: its directory is there, and at its place a file or nothing.\<close>

definition writable :: "path \<Rightarrow> path \<Rightarrow> fs \<Rightarrow> bool" where
  "writable root r f \<longleftrightarrow> fs_ok f \<and> r \<noteq> [] \<and> list_all ok_name r \<and> valid_utf8 (rel_text r) \<and> is_dir_at f (root @ butlast r) \<and>
     (\<forall>i. fmlookup f (root @ r) = Some i \<longrightarrow> (\<exists>m cs. i = File m cs))"



definition guest_world :: eworld where
  "guest_world = \<lparr>hfs = fmempty, umask = 0, lseek_ok = True, zeroHashes = Map.empty, rand_bytes = (\<lambda>_. CHR ''r''), rand_pos = 0,
     clock = (\<lambda>_. UTC 2024 5 6 7 8 9 0), clock_pos = 0, kstats = (\<lambda>_ _. \<lparr>k_dev = 0, k_ino = 0, k_blocks = 0, k_mtime = 0\<rparr>),
     kstat_pos = 0, tempDir = [''tmp''], environ = []\<rparr>"


end
