(* ===== verification/FcProps.thy ===== *)
theory FcProps
  imports Firecracker
begin

text \<open>
  What the Firecracker driver asks of Firecracker: the calls of booting in their order, and those around a snapshot.
  The properties hold for every host that logs the calls made to it.
\<close>

section \<open>Properties of the Firecracker backend\<close>

text \<open>
  The order of the calls to Firecracker's API. The world keeps a log of them, each with whether it was
  accepted; the host writes it, and nothing else does.
\<close>

type_synonym api_call = "string \<times> string \<times> json"

record lworld = eworld +
  calls :: "(api_call \<times> bool) list"

definition accepted :: "err + int \<times> string \<times> bytes \<Rightarrow> bool" where
  "accepted r = (case r of Inl e \<Rightarrow> False | Inr (code, status, msg) \<Rightarrow> code < 300)"

definition quiet :: "('z lworld_scheme, 'a) io \<Rightarrow> bool" where
  "quiet m \<longleftrightarrow> (\<forall>c. keeps (\<lambda>w. calls w = c) m)"

definition logs :: "'z lworld_scheme fc_host \<Rightarrow> bool" where
  "logs h \<longleftrightarrow>
     (\<forall>sock verb p body w. calls (snd (h_api h sock verb p body w)) =
        calls w @ [((verb, p, body), accepted (fst (h_api h sock verb p body w)))]) \<and>
     (\<forall>pid sig. quiet (h_kill h pid sig)) \<and> (\<forall>argv d l. quiet (h_start h argv d l)) \<and> (\<forall>s. quiet (h_dial h s)) \<and>
     (\<forall>argv. quiet (h_tool h argv)) \<and>
     (\<forall>s b. quiet (h_agent h s b) \<and> (\<forall>w line conn w'. h_agent h s b w = (Inr (line, conn), w') \<longrightarrow> (\<forall>input. quiet (conn input))))"

named_theorems quiet "computations that call no API"

lemma quietI: "(\<And>w. calls (snd (m w)) = calls w) \<Longrightarrow> quiet m"
  by (auto simp: quiet_def keeps_def)

lemma quietD: "quiet m \<Longrightarrow> calls (snd (m w)) = calls w"
  by (auto simp: quiet_def keeps_def)

lemma quiet_on_fs [quiet]: "quiet (on_fs m)"
  by (rule quietI) (simp add: on_fs_def split: prod.splits)

lemma quiet_basic [quiet]: "quiet (ret x)" "quiet (fail e)" "quiet (gets f)" "quiet (lift_res r)"
  by (simp_all add: quiet_def)

lemma quiet_attempt [quiet]: "quiet m \<Longrightarrow> quiet (attempt m)"
  by (auto simp: quiet_def)

lemma quiet_bindE [quiet]: "quiet m \<Longrightarrow> (\<And>x. quiet (f x)) \<Longrightarrow> quiet (bindE m f)"
  by (auto simp: quiet_def)

lemma quiet_if [quiet]: "quiet m \<Longrightarrow> quiet n \<Longrightarrow> quiet (if b then m else n)"
  by simp

lemma quiet_case_sum [quiet]: "(\<And>e. quiet (f e)) \<Longrightarrow> (\<And>x. quiet (g x)) \<Longrightarrow> quiet (case r of Inl e \<Rightarrow> f e | Inr x \<Rightarrow> g x)"
  by (cases r) auto

lemma quiet_case_option [quiet]: "quiet m \<Longrightarrow> (\<And>x. quiet (f x)) \<Longrightarrow> quiet (case r of None \<Rightarrow> m | Some x \<Rightarrow> f x)"
  by (cases r) auto

lemma quiet_case_prod [quiet]: "(\<And>x y. quiet (f x y)) \<Longrightarrow> quiet (case r of (x, y) \<Rightarrow> f x y)"
  by (cases r) auto

lemma logsD:
  assumes "logs h"
  shows "calls (snd (h_api h sock verb p body w)) = calls w @ [((verb, p, body), accepted (fst (h_api h sock verb p body w)))]"
    and "quiet (h_kill h pid sig)" and "quiet (h_start h argv d l)" and "quiet (h_dial h s)" and "quiet (h_tool h argv)"
    and "quiet (h_agent h s b)" and "h_agent h s b w = (Inr (line, conn), w') \<Longrightarrow> quiet (conn input)"
  using assms unfolding logs_def by blast+

lemma api_calls:
  assumes "logs (fc_host fc)"
  shows "calls (snd (api fc i verb p body w)) = calls w @ [((verb, p, body), \<not> isl (fst (api fc i verb p body w)))]"
  using logsD(1) [OF assms, of "apiSock fc i" verb p body w]
  by (auto simp: api_def bindE_def accepted_def io split: prod.splits sum.splits)

lemma quiet_copyFile [quiet]: "logs (fc_host fc) \<Longrightarrow> quiet (copyFile fc src dst)"
  unfolding copyFile_def by (intro quiet logsD)

lemma take_snapshot_calls:
  assumes "logs (fc_host fc)"
  shows "\<exists>body ok. calls (snd (take_snapshot fc i out diff base w)) = calls w @ [((''PUT'', ''/snapshot/create'', body), ok)] \<and>
    (\<not> isl (fst (take_snapshot fc i out diff base w)) \<longrightarrow> ok)"
proof -
  let ?m = "\<lambda>body. api fc i ''PUT'' ''/snapshot/create'' body"
  have "\<exists>body f. take_snapshot fc i out diff base = bindE (?m body) f \<and> (\<forall>x. quiet (f x))"
    unfolding take_snapshot_def Let_def
    by (intro exI conjI, rule refl) (intro allI quiet quiet_copyFile assms)
  then obtain body f where t: "take_snapshot fc i out diff base = bindE (?m body) f" "\<And>x. quiet (f x)" by blast
  show ?thesis
    using api_calls [OF assms, of i "''PUT''" "''/snapshot/create''" body w] quietD [OF t(2)] unfolding t(1)
    by (auto simp: bindE_def split: prod.splits sum.splits)
qed

definition vm_state :: "string \<Rightarrow> api_call" where
  "vm_state st = (''PATCH'', ''/vm'', map_json [(''state'', JStr st)])"

lemma set_state_calls:
  "logs (fc_host fc) \<Longrightarrow> calls (snd (set_state fc i st w)) = calls w @ [(vm_state st, \<not> isl (fst (set_state fc i st w)))]"
  by (simp add: set_state_def vm_state_def api_calls)

text \<open>
  Property C38. A machine that a snapshot paused is told to resume: once the pause is accepted the calls are the pause, the
  snapshot and the resumption, in this order and whatever fails in between, and an image is returned only where all three
  were accepted; a refused pause is the only call, and its error is returned.
\<close>

theorem fc_Snapshot_resumes:
  assumes "logs (fc_host fc)" and "fc_Running fc i w"
  shows "case fst (set_state fc i ''Paused'' w) of
      Inl e \<Rightarrow> calls (snd (fc_Snapshot fc i out base w)) = calls w @ [(vm_state ''Paused'', False)] \<and>
        fst (fc_Snapshot fc i out base w) = Inl e
    | Inr _ \<Rightarrow> (\<exists>body snapped resumed. calls (snd (fc_Snapshot fc i out base w)) = calls w @
          [(vm_state ''Paused'', True), ((''PUT'', ''/snapshot/create'', body), snapped), (vm_state ''Resumed'', resumed)] \<and>
        (\<not> isl (fst (fc_Snapshot fc i out base w)) \<longrightarrow> snapped \<and> resumed))"
proof -
  let ?d = "is_diff fc i base (hfs w)"
  obtain r w1 where p: "set_state fc i ''Paused'' w = (r, w1)" by fastforce
  then have c1: "calls w1 = calls w @ [(vm_state ''Paused'', \<not> isl r)]"
    using set_state_calls [OF assms(1), of i "''Paused''" w] by simp
  have s: "fc_Snapshot fc i out base w =
      bindE (set_state fc i ''Paused'') (\<lambda>_. deferring_err (set_state fc i ''Resumed'') (take_snapshot fc i out ?d base)) w"
    using assms(2) by (simp add: fc_Snapshot_def io)
  show ?thesis
  proof (cases r)
    case (Inl e)
    with p c1 show ?thesis by (simp add: s)
  next
    case (Inr x)
    obtain r2 w2 where t: "take_snapshot fc i out ?d base w1 = (r2, w2)" by fastforce
    with take_snapshot_calls [OF assms(1), of i out ?d base w1] obtain body ok where
      c2: "calls w2 = calls w1 @ [((''PUT'', ''/snapshot/create'', body), ok)]" "\<not> isl r2 \<longrightarrow> ok" by auto
    obtain r3 w3 where u: "set_state fc i ''Resumed'' w2 = (r3, w3)" by fastforce
    with set_state_calls [OF assms(1), of i "''Resumed''" w2] have c3: "calls w3 = calls w2 @ [(vm_state ''Resumed'', \<not> isl r3)]" by simp
    have "snd (fc_Snapshot fc i out base w) = w3" and "\<not> isl (fst (fc_Snapshot fc i out base w)) \<longrightarrow> \<not> isl r2 \<and> \<not> isl r3"
      using Inr p t u by (auto simp: s deferring_err_def io split: sum.splits)
    with Inr p c1 c2 c3 show ?thesis by auto
  qed
qed

subsection \<open>Booting\<close>

lemma quiet_fold_rules: "logs (fc_host fc) \<Longrightarrow> quiet (await_api fc i pid n)"
  by (induction n) (auto intro!: quiet intro: logsD)

lemma quiet_spawn [quiet]: "logs (fc_host fc) \<Longrightarrow> quiet (spawn fc i)"
  unfolding spawn_def by (intro quiet quiet_fold_rules logsD)

lemma quiet_await_death [quiet]: "quiet (await_death h p n)"
proof (induction n)
  case (Suc n)
  then show ?case unfolding await_death.simps by (intro quiet)
qed (simp only: await_death.simps quiet_basic)

lemma quiet_Shutdown [quiet]: "logs (fc_host fc) \<Longrightarrow> quiet (fc_Shutdown fc i)"
  unfolding fc_Shutdown_def fc_kill_def by (intro quiet quiet_await_death logsD)

lemma quiet_upperTemplate [quiet]: "logs (fc_host fc) \<Longrightarrow> quiet (upperTemplate fc)"
  unfolding upperTemplate_def Let_def by (intro quiet logsD)

lemma quiet_boot_disks [quiet]: "logs (fc_host fc) \<Longrightarrow> quiet (boot_disks fc d rootfs)"
  unfolding boot_disks_def by (intro quiet quiet_copyFile quiet_upperTemplate)

lemma quiet_Call: "(\<And>input. quiet (conn input)) \<Longrightarrow> quiet (Call conn req body)"
  unfolding Call_def by (intro quiet)

lemma quiet_fc_call [quiet]:
  assumes "logs (fc_host fc)"
  shows "quiet (fc_call fc i req body)"
proof (rule quietI)
  fix w
  let ?dial = "DialFirecracker (h_agent (fc_host fc)) (vsock fc i)"
  have q: "quiet ?dial" unfolding DialFirecracker_def by (intro quiet logsD assms)
  obtain r w1 where d: "?dial w = (r, w1)" by fastforce
  with quietD [OF q, of w] have c: "calls w1 = calls w" by simp
  have "quiet (Call conn req body)" if "r = Inr conn" for conn
    using d that logsD(7) [OF assms]
    by (intro quiet_Call) (auto simp: DialFirecracker_def bindE_eq_Inr split: if_splits prod.splits)
  with d c show "calls (snd (fc_call fc i req body w)) = calls w"
    using quietD [of "Call conn req body" w1 for conn] by (cases r) (auto simp: fc_call_def io)
qed

lemma quiet_waitAgent [quiet]: "logs (fc_host fc) \<Longrightarrow> quiet (waitAgent fc i)"
proof -
  assume l: "logs (fc_host fc)"
  have "quiet (await_agent fc i e n)" for e n
    by (induction n arbitrary: e) (auto intro!: quiet quiet_fc_call l)
  then show ?thesis by (simp add: waitAgent_def)
qed

lemma boot_step_calls:
  assumes "logs (fc_host fc)"
  shows "calls (snd (boot_step fc i s w)) = calls w @ [(s, \<not> isl (fst (boot_step fc i s w)))]"
  using api_calls [OF assms, of i "fst s" "fst (snd s)" "snd (snd s)" w] quietD [OF quiet_Shutdown [OF assms]]
  by (auto simp: boot_step_def io split: prod.splits sum.splits)

text \<open>
  The log \<open>ds\<close> of a computation that makes the calls \<open>ss\<close> in order: they are a prefix of \<open>ss\<close>, every one before the
  last was accepted, and where the computation succeeded they are all of \<open>ss\<close>, each accepted.
\<close>

definition in_order :: "api_call list \<Rightarrow> bool \<Rightarrow> (api_call \<times> bool) list \<Rightarrow> bool" where
  "in_order ss good ds \<longleftrightarrow> map fst ds = take (length ds) ss \<and> list_all snd (butlast ds) \<and>
     (good \<longrightarrow> map fst ds = ss \<and> list_all snd ds)"

lemma in_order_Nil: "in_order ss good [] \<longleftrightarrow> (good \<longrightarrow> ss = [])"
  by (auto simp: in_order_def)

lemma in_order_Cons: "in_order ss good ds \<Longrightarrow> in_order (s # ss) good ((s, True) # ds)"
  by (auto simp: in_order_def)

lemma in_order_refused: "in_order (s # ss) False [(s, False)]"
  by (simp add: in_order_def)

lemma in_order_weaken: "in_order ss True ds \<Longrightarrow> in_order ss good ds"
  by (auto simp: in_order_def)

definition issues :: "api_call list \<Rightarrow> ('z lworld_scheme, unit) io \<Rightarrow> bool" where
  "issues ss m \<longleftrightarrow> (\<forall>w. \<exists>ds. calls (snd (m w)) = calls w @ ds \<and> in_order ss (\<not> isl (fst (m w))) ds)"

lemma issuesI:
  "(\<And>w r w'. m w = (r, w') \<Longrightarrow> \<exists>ds. calls w' = calls w @ ds \<and> in_order ss (\<not> isl r) ds) \<Longrightarrow> issues ss m"
  unfolding issues_def by (metis prod.collapse)

lemma issuesE:
  assumes "issues ss m" and "m w = (r, w')"
  obtains ds where "calls w' = calls w @ ds" "in_order ss (\<not> isl r) ds"
  using assms unfolding issues_def by (metis fst_conv snd_conv)

lemma issues_fail: "issues ss (fail e)"
  by (rule issuesI) (auto simp: io in_order_Nil)

lemma issues_after:
  assumes "quiet m" and "\<And>x. issues ss (f x)"
  shows "issues ss (bindE m f)"
proof (rule issuesI)
  fix w r w' assume b: "bindE m f w = (r, w')"
  obtain q w1 where m: "m w = (q, w1)" by fastforce
  with quietD [OF assms(1), of w] have c: "calls w1 = calls w" by simp
  show "\<exists>ds. calls w' = calls w @ ds \<and> in_order ss (\<not> isl r) ds"
  proof (cases q)
    case (Inl e)
    with m b c show ?thesis by (auto simp: bindE_def in_order_Nil)
  next
    case (Inr x)
    with m b have "f x w1 = (r, w')" by (simp add: bindE_def)
    with assms(2) [of x] c show ?thesis by (auto elim: issuesE)
  qed
qed

lemma issues_before:
  assumes "issues ss m" and "\<And>x. quiet (f x)"
  shows "issues ss (bindE m f)"
proof (rule issuesI)
  fix w r w' assume b: "bindE m f w = (r, w')"
  obtain q w1 where m: "m w = (q, w1)" by fastforce
  obtain ds where ds: "calls w1 = calls w @ ds" "in_order ss (\<not> isl q) ds" using issuesE [OF assms(1) m] .
  show "\<exists>ds. calls w' = calls w @ ds \<and> in_order ss (\<not> isl r) ds"
  proof (cases q)
    case (Inl e)
    with m b ds show ?thesis by (auto simp: bindE_def)
  next
    case (Inr x)
    with m b ds quietD [OF assms(2), of x w1] show ?thesis by (auto simp: bindE_def intro: in_order_weaken)
  qed
qed

lemma issues_boot_steps:
  assumes "logs (fc_host fc)"
  shows "issues ss (for_each ss (boot_step fc i))"
proof (induction ss)
  case Nil
  show ?case by (rule issuesI) (auto simp: io in_order_Nil)
next
  case (Cons s ss)
  show ?case
  proof (rule issuesI)
    fix w r w' assume b: "for_each (s # ss) (boot_step fc i) w = (r, w')"
    obtain q w1 where m: "boot_step fc i s w = (q, w1)" by fastforce
    with boot_step_calls [OF assms, of i s w] have c: "calls w1 = calls w @ [(s, \<not> isl q)]" by simp
    show "\<exists>ds. calls w' = calls w @ ds \<and> in_order (s # ss) (\<not> isl r) ds"
    proof (cases q)
      case (Inl e)
      with m b c show ?thesis by (auto simp: bindE_def in_order_refused)
    next
      case (Inr x)
      with m b have f: "for_each ss (boot_step fc i) w1 = (r, w')" by (simp add: bindE_def)
      obtain ds where "calls w' = calls w1 @ ds" "in_order ss (\<not> isl r) ds" using issuesE [OF Cons f] .
      with Inr c show ?thesis by (auto dest: in_order_Cons)
    qed
  qed
qed

lemma fc_Boot_issues:
  assumes "logs (fc_host fc)" and "\<not> fc_Running fc i w"
  shows "\<exists>ds. calls (snd (fc_Boot fc i workDir w)) = calls w @ ds \<and>
    map fst ds = take (length ds) (boot_steps fc) \<and> list_all snd (butlast ds) \<and>
    (\<not> isl (fst (fc_Boot fc i workDir w)) \<longrightarrow> map fst ds = boot_steps fc \<and> list_all snd ds)"
proof -
  let ?needs = "fail (Errorf ''firecracker backend needs a kernel and a root filesystem'' [] None)"
  have "issues (boot_steps fc) (bindE (attempt (on_fs (RemoveAll (vm_dir fc i)))) (\<lambda>_.
      bindE (gets umask) (\<lambda>um. bindE (on_fs (MkdirAll um (vm_dir fc i) mode_0755)) (\<lambda>_.
      bindE (boot_disks fc (vm_dir fc i) rootfs) (\<lambda>_. bindE (spawn fc i) (\<lambda>_.
      bindE (for_each (boot_steps fc) (boot_step fc i)) (\<lambda>_. waitAgent fc i)))))))" for rootfs
    by (intro issues_after issues_before issues_boot_steps quiet assms(1))
  then have "issues (boot_steps fc) (case RootFS (fc_cfg fc) of None \<Rightarrow> ?needs | Some rootfs \<Rightarrow>
      if KernelImage (fc_cfg fc) = [] then ?needs
      else bindE (attempt (on_fs (RemoveAll (vm_dir fc i)))) (\<lambda>_.
      bindE (gets umask) (\<lambda>um. bindE (on_fs (MkdirAll um (vm_dir fc i) mode_0755)) (\<lambda>_.
      bindE (boot_disks fc (vm_dir fc i) rootfs) (\<lambda>_. bindE (spawn fc i) (\<lambda>_.
      bindE (for_each (boot_steps fc) (boot_step fc i)) (\<lambda>_. waitAgent fc i)))))))" (is "issues _ ?m")
    by (simp only: issues_fail split: option.splits if_splits) simp
  moreover have "fc_Boot fc i workDir w = ?m w" using assms(2) by (simp add: fc_Boot_def bindE_def gets_def)
  ultimately show ?thesis by (simp add: issues_def in_order_def)
qed

text \<open>The order the calls of a boot must have, told apart from the list the code builds, and the call that starts the machine.\<close>

definition boot_order :: "bool \<Rightarrow> string list" where
  "boot_order over = [''/boot-source'', ''/drives/rootfs''] @ (if over then [''/drives/upper''] else []) @
     [''/machine-config'', ''/vsock'', ''/actions'']"

definition is_start :: "string \<times> string \<times> json \<Rightarrow> bool" where
  "is_start c \<longleftrightarrow> c = (''PUT'', ''/actions'', JObj [(''action_type'', JStr ''InstanceStart'')])"

lemma boot_steps_order:
  "map fst (boot_steps fc) = replicate (length (boot_steps fc)) ''PUT''"
  "map (fst \<circ> snd) (boot_steps fc) = boot_order (overlay fc)"
  "hd (boot_steps fc) = (''PUT'', ''/boot-source'',
     JObj [(''boot_args'', JStr (BootArgs (fc_cfg fc))), (''kernel_image_path'', JStr (KernelImage (fc_cfg fc)))])"
  "map is_start (boot_steps fc) = replicate (length (boot_steps fc) - 1) False @ [True]"
  by (simp_all add: boot_steps_def boot_order_def drive_def is_start_def map_json_def)

text \<open>
  Property C39. Booting a machine that is not running makes PUT calls in one fixed order: the kernel and its arguments
  (\<open>/boot-source\<close>), the root drive, in overlay mode the upper drive, \<open>/machine-config\<close>, \<open>/vsock\<close>, and \<open>/actions\<close> last. It
  stops at the first call refused. The call that starts the instance is the last of the order and no other, so it is made
  only after every configuration call was made and accepted; after a boot that succeeds all of them were.
\<close>

theorem fc_Boot_order:
  assumes "logs (fc_host fc)" and "\<not> fc_Running fc i w"
  shows "\<exists>ds. calls (snd (fc_Boot fc i workDir w)) = calls w @ ds \<and>
    map (\<lambda>((verb, p, body), ok). (verb, p)) ds =
      map (Pair ''PUT'') (take (length ds) (boot_order (DiskMode (fc_cfg fc) = ''overlay''))) \<and>
    (ds \<noteq> [] \<longrightarrow> snd (snd (fst (hd ds))) =
      JObj [(''boot_args'', JStr (BootArgs (fc_cfg fc))), (''kernel_image_path'', JStr (KernelImage (fc_cfg fc)))]) \<and>
    (\<forall>k < length ds. is_start (fst (ds ! k)) \<longleftrightarrow> Suc k = length (boot_order (DiskMode (fc_cfg fc) = ''overlay''))) \<and>
    list_all snd (butlast ds) \<and>
    (\<not> isl (fst (fc_Boot fc i workDir w)) \<longrightarrow>
      length ds = length (boot_order (DiskMode (fc_cfg fc) = ''overlay'')) \<and> list_all snd ds)"
proof -
  let ?order = "boot_order (DiskMode (fc_cfg fc) = ''overlay'')" and ?b = "boot_steps fc"
  obtain ds where ds: "calls (snd (fc_Boot fc i workDir w)) = calls w @ ds" "map fst ds = take (length ds) ?b"
    "list_all snd (butlast ds)" "\<not> isl (fst (fc_Boot fc i workDir w)) \<longrightarrow> map fst ds = ?b \<and> list_all snd ds"
    using fc_Boot_issues [OF assms, of workDir] by blast
  have len: "length ?b = length ?order" using arg_cong [OF boot_steps_order(2) [of fc], of length] by (simp add: overlay_def)
  have le: "length ds \<le> length ?b" using arg_cong [OF ds(2), of length] by simp
  have nth: "fst (ds ! k) = ?b ! k" if "k < length ds" for k
    using that le arg_cong [OF ds(2), of "\<lambda>l. l ! k"] by simp
  have verb: "fst (?b ! k) = ''PUT'' \<and> fst (snd (?b ! k)) = ?order ! k" if "k < length ?b" for k
    using that arg_cong [OF boot_steps_order(1) [of fc], of "\<lambda>l. l ! k"] arg_cong [OF boot_steps_order(2) [of fc], of "\<lambda>l. l ! k"]
    by (simp add: overlay_def)
  have start: "is_start (?b ! k) \<longleftrightarrow> Suc k = length ?b" if "k < length ?b" for k
    using that arg_cong [OF boot_steps_order(4) [of fc], of "\<lambda>l. l ! k"] by (auto simp: nth_append split: if_splits)
  have "map (\<lambda>((verb, p, body), ok). (verb, p)) ds = map (Pair ''PUT'') (take (length ds) ?order)"
    using le len nth verb by (intro nth_equalityI) (auto simp: case_prod_beta)
  moreover have "snd (snd (fst (hd ds))) =
      JObj [(''boot_args'', JStr (BootArgs (fc_cfg fc))), (''kernel_image_path'', JStr (KernelImage (fc_cfg fc)))]" if "ds \<noteq> []"
    using that le nth [of 0] boot_steps_order(3) [of fc] by (cases "?b = []") (simp_all add: hd_conv_nth)
  moreover have "is_start (fst (ds ! k)) \<longleftrightarrow> Suc k = length ?order" if "k < length ds" for k
    using that le len nth start by simp
  ultimately show ?thesis using ds len by (intro exI [of _ ds]) (auto dest: arg_cong [of _ _ length])
qed

subsection \<open>A host that logs\<close>

text \<open>
  The host of the witnesses: Firecracker accepts every call, its process is alive, and no agent answers.
\<close>

definition log_host :: "lworld fc_host" where
  "log_host = \<lparr>h_kill = \<lambda>pid sig. ret (), h_exists = \<lambda>pid w. True,
     h_proc = \<lambda>p w. Inr (if p = ''/proc/7/cmdline'' then ''firecracker --api-sock /m/api.sock'' else ''7 (firecracker) S''),
     h_start = \<lambda>argv d l. ret 7, h_dial = \<lambda>s. ret (),
     h_api = \<lambda>sock verb p body w. (Inr (204, ''204 No Content'', []), w\<lparr>calls := calls w @ [((verb, p, body), True)]\<rparr>),
     h_tool = \<lambda>argv. ret [], h_agent = \<lambda>s b. fail (Errorf ''no agent'' [] None), h_api_tries = 1, h_agent_tries = 1\<rparr>"

definition log_fc :: "lworld fc" where
  "log_fc = \<lparr>fc_cfg = \<lparr>FirecrackerBin = ''firecracker'', KernelImage = ''/k'', RootFS = Some [''r''], RunDir = Some [], VCPUs = 1, MemMiB = 512,
     BootArgs = DefaultBootArgs, AgentTimeout = 1, DiskMode = ''overlay'', UpperGiB = 8\<rparr>, fc_host = log_host\<rparr>"

definition log_world :: lworld where
  "log_world = \<lparr>hfs = fmap_of_list [([''m''], Dir mode_0755), ([''m'', ''pid''], File mode_0644 [Some (CHR ''7'')])], umask = 0, lseek_ok = True, zeroHashes = Map.empty,
     rand_bytes = (\<lambda>_. CHR ''r''), rand_pos = 0,
     clock = (\<lambda>_. zero_time), clock_pos = 0,
     kstats = (\<lambda>_ _. \<lparr>k_dev = 0, k_ino = 0, k_blocks = 0, k_mtime = 0\<rparr>), kstat_pos = 0, tempDir = [], environ = [], calls = []\<rparr>"

lemma log_host_logs: "logs (fc_host log_fc)"
  by (simp add: logs_def log_fc_def log_host_def accepted_def quiet_def io keeps_def)

lemma log_pid: "fc_pid log_fc ''m'' (hfs log_world) = 7"
proof -
  have "ReadFile (hfs log_world) (fp_join (vm_dir log_fc ''m'') ''pid'') = Inr ''7''" by code_simp
  moreover have "TrimSpace ''7'' = ''7''" and "unsigned_part ''7'' = ''7''" and "digit_val CHR ''7'' = Some 7" and "\<not> HasPrefix ''7'' ''-''"
    by code_simp+
  ultimately show ?thesis by (simp add: fc_pid_def Atoi_value_def)
qed

lemma log_world_runs: "fc_Running log_fc ''m'' log_world"
proof -
  have "alive log_host 7 log_world" and "path_text (apiSock log_fc ''m'') = ''/m/api.sock''" and "itoa 7 = ''7''"
    and "Contains ''firecracker --api-sock /m/api.sock'' ''/m/api.sock''" by code_simp+
  then show ?thesis by (simp add: fc_Running_def log_pid) (simp add: log_fc_def log_host_def)
qed

lemma log_world_idle: "\<not> fc_Running log_fc ''n'' log_world"
proof -
  have "isl (ReadFile (hfs log_world) (fp_join (vm_dir log_fc ''n'') ''pid''))" by code_simp
  then show ?thesis by (auto simp: fc_Running_def fc_pid_def alive_def split: sum.splits)
qed

theorem fc_Snapshot_resumes_witness:
  "\<exists>body snapped resumed. calls (snd (fc_Snapshot log_fc ''m'' [''out''] [] log_world)) =
     [(vm_state ''Paused'', True), ((''PUT'', ''/snapshot/create'', body), snapped), (vm_state ''Resumed'', resumed)]"
proof -
  have "fst (set_state log_fc ''m'' ''Paused'' log_world) = Inr ()"
    by (simp add: set_state_def api_def log_fc_def log_host_def io)
  with fc_Snapshot_resumes [OF log_host_logs log_world_runs, of "[''out'']" "[]"] show ?thesis
    by (auto simp: log_world_def)
qed

theorem fc_Boot_order_witness:
  "\<exists>ds. calls (snd (fc_Boot log_fc ''n'' [] log_world)) = ds \<and>
     map (\<lambda>((verb, p, body), ok). (verb, p)) ds = map (Pair ''PUT'')
       (take (length ds) [''/boot-source'', ''/drives/rootfs'', ''/drives/upper'', ''/machine-config'', ''/vsock'', ''/actions''])"
proof -
  have "boot_order (DiskMode (fc_cfg log_fc) = ''overlay'') =
      [''/boot-source'', ''/drives/rootfs'', ''/drives/upper'', ''/machine-config'', ''/vsock'', ''/actions'']"
    by (simp add: boot_order_def log_fc_def)
  with fc_Boot_order [OF log_host_logs log_world_idle, of "[]"] show ?thesis by (auto simp: log_world_def)
qed

end
