(* ===== verification/RepoTypes.thy ===== *)
theory RepoTypes
  imports RepoProps
begin

text \<open>
  The types of the records a repository loads, whatever its files hold: the decoder repairs strings that are not UTF-8,
  the parser keeps what the scanner checked, and each field is decoded within its range.
\<close>

section \<open>Types of the records read from disk\<close>

subsection \<open>Parsed documents\<close>

fun tok_ok :: "tok \<Rightarrow> bool" where
  "tok_ok (TStr s) = valid_utf8 s"
| "tok_ok (TNum s) = num_ok s"
| "tok_ok _ = True"

lemma punct_ok: "punct c = Some t \<Longrightarrow> tok_ok t"
  by (auto simp: punct_def split: if_splits)

lemma cons_tok_Some: "cons_tok t x = Some ts \<longleftrightarrow> (\<exists>us. x = Some us \<and> ts = t # us)"
  by (auto simp: cons_tok_def)

lemma scan_ok: "scan s = Some ts \<Longrightarrow> list_all tok_ok ts"
proof (induction "length s" arbitrary: s ts rule: less_induct)
  case less
  show ?case
  proof (cases s)
    case Nil
    with less.prems show ?thesis by simp
  next
    case (Cons c cs)
    have ih: "list_all tok_ok us" if "scan r = Some us" "length r \<le> length cs" for r us
      using less.hyps [of r us] that by (simp add: Cons)
    have rest: "list_all tok_ok ts" if "cons_tok t (scan r) = Some ts" "length r \<le> length cs" "tok_ok t" for t r
    proof -
      from that(1) obtain us where "scan r = Some us" "ts = t # us" unfolding cons_tok_Some by blast
      with ih that(2,3) show ?thesis by simp
    qed
    note eq = less.prems [unfolded Cons scan.simps Let_def]
    show ?thesis
    proof (cases "is_ws c")
      case True
      with eq ih [of cs ts] show ?thesis by (simp only: if_True)
    next
      case ws: False
      show ?thesis
      proof (cases "punct c")
        case (Some t)
        with eq ws rest [of t cs] punct_ok [of c t] show ?thesis by (simp only: if_False option.case)
      next
        case None
        let ?n = "takeWhile num_char (c # cs)"
        consider "c = quote" | "c \<noteq> quote" "is_digit c \<or> c = CHR ''-''"
          | "c \<noteq> quote" "\<not> (is_digit c \<or> c = CHR ''-'')" by blast
        then show ?thesis
        proof cases
          case 1
          with eq ws None obtain s' r where l: "lex_str cs = Some (s', r)" and "cons_tok (TStr (utf8_fix s')) (scan r) = Some ts"
            by (cases "lex_str cs") auto
          with lex_str_length [OF l] rest valid_utf8_fix show ?thesis by simp
        next
          case 2
          with eq ws None have "num_ok ?n" "cons_tok (TNum ?n) (scan (drop (length ?n - 1) cs)) = Some ts"
            by (simp_all only: if_False if_True option.case option.distinct split: if_splits)
          then show ?thesis by (intro rest [of "TNum ?n" "drop (length ?n - 1) cs"]) simp_all
        next
          case 3
          with eq ws None have "cons_tok TTrue (scan (drop 3 cs)) = Some ts \<or> cons_tok TFalse (scan (drop 4 cs)) = Some ts \<or>
              cons_tok TNull (scan (drop 3 cs)) = Some ts"
            by (simp only: if_False option.case option.distinct simp_thms split: if_splits)
          then show ?thesis
            using rest [of TTrue "drop 3 cs"] rest [of TFalse "drop 4 cs"] rest [of TNull "drop 3 cs"] by (auto simp del: join_toks_simps)
        qed
      qed
    qed
  qed
qed

text \<open>The last step of a parse: a token read whole, an empty array or object, or a list of elements or members.\<close>

lemma pval_Suc:
  assumes "pval (Suc n) ts = Some (j, r)"
  obtains (atom) t where "ts = t # r" "tok_ok t \<Longrightarrow> json_ok j"
    | (none) t u where "ts = t # u # r" "json_ok j"
    | (elems) us js where "ts = LBrack # us" "pelems n us = Some (js, r)" "j = JArr js"
    | (fields) us fs where "ts = LBrace # us" "pfields n us = Some (fs, r)" "j = JObj fs"
  using assms by (auto split: list.splits tok.splits option.splits)

lemma parsed_ok:
  "pval n ts = Some (j, r) \<Longrightarrow> list_all tok_ok ts \<Longrightarrow> json_ok j \<and> list_all tok_ok r"
  "pelems n ts = Some (js, r) \<Longrightarrow> list_all tok_ok ts \<Longrightarrow> list_all json_ok js \<and> list_all tok_ok r"
  "pfields n ts = Some (fs, r) \<Longrightarrow> list_all tok_ok ts \<Longrightarrow>
     list_all (\<lambda>f. valid_utf8 (fst f) \<and> json_ok (snd f)) fs \<and> list_all tok_ok r"
proof (induction n arbitrary: ts j js fs r)
  case (Suc n)
  {
    case 1
    then show ?case
    proof (cases rule: pval_Suc [consumes 1])
      case (elems us js)
      with 1 Suc.IH(2) [of us js r] show ?thesis by (simp add: list_all_iff)
    next
      case (fields us fs)
      with 1 Suc.IH(3) [of us fs r] show ?thesis by (simp add: list_all_iff)
    qed simp_all
  next
    case 2
    from 2(1) obtain j u where v: "pval n ts = Some (j, u)" by (auto split: option.splits)
    with 2 Suc.IH(1) [OF v] Suc.IH(2) [of "tl u"] show ?case
      by (auto split: list.splits tok.splits option.splits)
  next
    case 3
    from 3(1) obtain s us j u where s: "ts = TStr s # Colon # us" and v: "pval n us = Some (j, u)"
      by (auto split: list.splits tok.splits option.splits)
    with 3 Suc.IH(1) [OF v] Suc.IH(3) [of "tl u"] show ?case
      by (auto split: list.splits tok.splits option.splits)
  }
qed simp_all

lemma parse_json_ok:
  assumes "parse_json s = Some j"
  shows "json_ok j"
proof -
  from assms obtain ts where ts: "scan s = Some ts" and "(case pval (2 * length ts + 2) ts of Some (j, []) \<Rightarrow> Some j | _ \<Rightarrow> None) = Some j"
    unfolding parse_json_def by (auto simp del: pval.simps split: option.splits)
  then have "pval (2 * length ts + 2) ts = Some (j, [])" by (auto simp del: pval.simps split: option.splits list.splits)
  from parsed_ok(1) [OF this scan_ok [OF ts]] show ?thesis by simp
qed

subsection \<open>Decoded members\<close>

lemma member_ok: "fields_ok fs \<Longrightarrow> member n fs = Some j \<Longrightarrow> json_ok j"
  by (induction fs) (auto simp: member_simps fields_ok_simps split: option.splits if_splits)

lemma dec_str_ok: "fields_ok fs \<Longrightarrow> dec_str (member n fs) = Some s \<Longrightarrow> valid_utf8 s"
  using member_ok [of fs n] by (auto simp: dec_str_def valid_utf8.simps [of "[]"] split: option.splits json.splits)

lemma dec_int64_ok: "dec_int64 x = Some i \<Longrightarrow> int64 i = i"
  by (auto simp: dec_int64_def dec_int_def int64_id split: option.splits json.splits if_splits)

lemma dec_time_ok:
  assumes "dec_time x = Some t"
  shows "time_read t"
proof (cases x)
  case None
  with assms have "t = zero_time" by (simp add: dec_time_def)
  then show ?thesis by (simp add: zero_time_def time_read_def days_in_def)
next
  case (Some j)
  with assms show ?thesis
    by (auto simp: dec_time_def parse_time_read split: json.splits)
qed

lemma all_some_Some: "all_some xs = Some ys \<longleftrightarrow> xs = map Some ys"
  by (induction xs arbitrary: ys) (auto split: option.splits)

lemma dec_strs_ok:
  assumes "fields_ok fs" and "dec_list dec_str_elem (member n fs) = Some xs"
  shows "list_all valid_utf8 xs"
proof (cases "member n fs")
  case None
  with assms(2) show ?thesis by (simp add: dec_list_def)
next
  case (Some j)
  with assms(2) obtain js where j: "j = JArr js" "map dec_str_elem js = map Some xs"
    by (auto simp: dec_list_def all_some_Some split: json.splits)
  with member_ok [OF assms(1) Some] have "\<forall>j \<in> set js. json_ok j" by simp
  moreover have "valid_utf8 s" if "dec_str_elem j = Some s" "json_ok j" for j s
    using that by (auto simp: dec_str_elem_def dec_str_def valid_utf8.simps [of "[]"] split: json.splits if_splits)
  moreover have "\<exists>j \<in> set js. dec_str_elem j = Some x" if "x \<in> set xs" for x
    using arg_cong [OF j(2), of set] that by force
  ultimately show ?thesis unfolding list_all_iff by blast
qed

lemmas dec_ok = dec_str_ok dec_int64_ok dec_time_ok dec_strs_ok

text \<open>A loaded record is well typed but for the offset of its time, which may be one that is not written.\<close>

definition ckpt_typed :: "ckpt \<Rightarrow> bool" where
  "ckpt_typed c \<longleftrightarrow> ckpt_ok (c\<lparr>c_created := zero_time\<rparr>) \<and> time_read (c_created c)"

definition sandbox_typed :: "sandbox \<Rightarrow> bool" where
  "sandbox_typed s \<longleftrightarrow> sandbox_ok (s\<lparr>s_created := zero_time\<rparr>) \<and> time_read (s_created s)"

lemma zero_time_ok: "time_ok zero_time"
  by (simp add: zero_time_def time_ok_def time_read_def days_in_def)

lemma dec_ckpt_ok: "dec_ckpt fs = Some c \<Longrightarrow> fields_ok fs \<Longrightarrow> ckpt_typed c"
  by (clarsimp simp: dec_ckpt_def ckpt_typed_def ckpt_ok_def zero_time_ok bind_eq_Some_conv dec_ok)

lemma dec_sandbox_ok: "dec_sandbox fs = Some s \<Longrightarrow> fields_ok fs \<Longrightarrow> sandbox_typed s"
  by (clarsimp simp: dec_sandbox_def sandbox_typed_def sandbox_ok_def zero_time_ok bind_eq_Some_conv dec_ok)

lemma unmarshal_fields:
  assumes "unmarshal_with dec b = Some x"
  obtains fs where "dec fs = Some x" "fields_ok fs"
proof -
  from assms obtain j where j: "parse_json b = Some j" by (auto simp: unmarshal_with_def split: option.splits)
  from assms parse_json_ok [OF j] show thesis
    by (cases j) (auto simp: unmarshal_with_def j fields_ok_def intro: that)
qed

lemma getJSON_Inr:
  assumes "getJSON root d i dec f = Inr x"
  obtains fs where "dec fs = Some x" "fields_ok fs"
  using assms by (auto simp: getJSON_def split: sum.splits option.splits elim: unmarshal_fields)

lemma load_sandboxes_ok: "load_sandboxes root f ns = Inr ss \<Longrightarrow> list_all sandbox_typed ss"
  by (induction ns arbitrary: ss) (auto split: sum.splits elim!: getJSON_Inr intro: dec_sandbox_ok)

lemma Sandboxes_ok: "Sandboxes root f = Inr ss \<Longrightarrow> list_all sandbox_typed ss"
  by (auto simp: Sandboxes_def list_all_iff split: sum.splits dest!: load_sandboxes_ok)

lemma Sandbox_ok:
  assumes "Sandbox root f i = Inr s"
  shows "sandbox_typed s"
proof (cases "getJSON root ''sandboxes'' i dec_sandbox f")
  case (Inr s')
  with assms show ?thesis by (auto simp: Sandbox_def elim!: getJSON_Inr intro: dec_sandbox_ok)
next
  case (Inl e)
  with assms obtain ss where ss: "Sandboxes root f = Inr ss" and "find (\<lambda>sb. s_name sb = i) ss = Some s"
    by (auto simp: Sandbox_def split: sum.splits option.splits)
  then have "s \<in> set ss" by (auto simp: find_Some_iff)
  with Sandboxes_ok [OF ss] show ?thesis by (simp add: list_all_iff)
qed

lemma typed_roundtrip:
  "ckpt_typed c \<Longrightarrow> \<bar>t_off (c_created c)\<bar> < 24 * 60 \<Longrightarrow> unmarshal_with dec_ckpt (emit d (ckpt_json c)) = Some c"
  "sandbox_typed s \<Longrightarrow> \<bar>t_off (s_created s)\<bar> < 24 * 60 \<Longrightarrow> unmarshal_with dec_sandbox (emit d (sandbox_json s)) = Some s"
  by (rule ckpt_roundtrip; simp add: ckpt_typed_def ckpt_ok_def time_ok_def)
    (rule sandbox_roundtrip; simp add: sandbox_typed_def sandbox_ok_def time_ok_def)


text \<open>
  The witness: a checkpoint whose file holds a byte that is not UTF-8, a member of another letter case and a time with an
  offset.
\<close>

definition odd_fs :: fs where
  "odd_fs = fmap_of_list [([''v''], Dir mode_0755), ([''v'', ''checkpoints''], Dir mode_0755),
     ([''v'', ''checkpoints'', ''a.json''], File mode_0644 (map Some (''{'' @ str_text ''id'' @ '':'' @ str_text ''a'' @ '','' @
       str_text ''created'' @ '':'' @ str_text ''0004-05-06T7:08:09-03:30'' @ '','' @
       str_text ''Note'' @ '':'' @ [quote, CHR 0xFF, quote] @ ''}'')))]"

lemma odd_loads:
  "map_sum id (\<lambda>c. (c_note c, c_created c)) (Checkpoint [''v''] odd_fs ''a'') =
    Inr ([CHR 0xEF, CHR 0xBF, CHR 0xBD], At 4 5 6 7 8 9 0 (- 210))"
  by code_simp


end
