(* ===== verification/Spec2Isabelle.thy ===== *)
theory Spec2Isabelle
  imports PastProps FakeMachine S3Sync CliProps GuestProps AgentProps FcProps RepoTypes
begin

text \<open>
  Verification development of vitvm, ``git for virtual machines'': sandboxes whose every step is a
  checkpoint that can be read, compared, checked out, forked, pushed and pulled.

  \<^bold>\<open>The program.\<close> A repository is a directory. Its content-addressed store
  (\<open>internal/cas\<close>) holds blobs under the SHA-256 of their bytes and large images as a manifest of
  4 MiB chunks. A working directory is captured as a tree of entries (\<open>internal/tree\<close>) and put
  back by \<open>internal/snap\<close>. The engine (\<open>internal/engine\<close>) keeps records of sandboxes and
  checkpoints as JSON files, runs commands through a backend, checkpoints the result, checks
  earlier steps out and forks them; with a machine backend it also stores and resumes memory and
  disk images through a bounded cache. The machine backend (\<open>internal/fcvm\<close>) drives Firecracker over its
  REST API and talks to an agent in the guest (\<open>internal/agent\<close>, started by \<open>cmd/vit-guest\<close>). Push and
  pull move a history to and from an object store (\<open>internal/remote\<close>), a directory or S3. The command
  line (\<open>cmd/vit\<close>) puts these together.

  \<^bold>\<open>Theories.\<close>
  \<^item> \<open>Prelude\<close>: bytes, \<open>int64\<close>, errors, computations as state passing functions that return an error
    or a value with the state left behind, rules for them, package \<open>strings\<close>.
  \<^item> \<open>HostFs\<close>: the host filesystem the sources work on: a finite map from paths to directories,
    files (cells that are data or holes), links and special files; path resolution through links,
    the calls of package \<open>os\<close> with their errnos, \<open>WalkDir\<close>, \<open>SEEK_DATA\<close> and \<open>SEEK_HOLE\<close>.
  \<^item> \<open>GoJson\<close>, \<open>GoTime\<close>, \<open>GoUrl\<close>: \<open>encoding/json\<close>, the text of a UTC \<open>time.Time\<close>, both with round trips,
    and what is used of \<open>net/url\<close>.
  \<^item> \<open>BlobStore\<close> (cas.go), \<open>Chunked\<close> (chunked.go), \<open>Pool\<close> (\<open>parallel\<close> as a step relation),
    \<open>ChunkedCorrect\<close> and \<open>ChunkedRead\<close> (lemmas), \<open>CasProps\<close> (properties).
  \<^item> \<open>SnapTree\<close> (tree.go), \<open>Restore\<close> (restore.go), \<open>SnapProps\<close> (properties).
  \<^item> \<open>Repo\<close> (model.go, repo.go), \<open>RepoProps\<close> (properties), \<open>RepoTypes\<close> (the types of loaded records),
    \<open>RepoInv\<close> (the invariant of a repository).
  \<^item> \<open>Backend\<close> (backend.go, process\_backend.go), \<open>Cache\<close> (cache.go, diskusage\_linux.go), \<open>Engine\<close>
    (engine.go, memory.go), \<open>FakeMachine\<close> (fake\_machine.go), \<open>EngineProps\<close> (a checkpoint of a
    process sandbox), \<open>StepProps\<close> (run, checkout and fork), \<open>PastProps\<close> (all operations as a step relation,
    and what no sequence of them changes).
  \<^item> \<open>Sync\<close> (sync.go, remote/store.go, remote/dir.go), \<open>SyncProps\<close> (push and pull over any object
    store, proved in the locale \<open>object_map\<close>), \<open>DirStoreMap\<close> (its interpretation on the directory
    store), \<open>DemoRepo\<close> (concrete repositories), \<open>RemoteProps\<close> (properties).
  \<^item> \<open>S3\<close> (remote/s3.go), \<open>S3Props\<close> (properties, over a service that checks signatures), \<open>S3Sync\<close> (the
    interpretation of \<open>object_map\<close> on a bucket: pushing to it and pulling from it).
  \<^item> \<open>Agent\<close> (agent.go, client.go), \<open>AgentProps\<close> (properties), \<open>Guest\<close> (cmd/vit-guest: mounting, the
    overlay root, supervising the agent and serving connections as step relations, vsock), \<open>GuestProps\<close>.
  \<^item> \<open>Firecracker\<close> (fcvm: firecracker.go, guest.go, iface.go), \<open>FcProps\<close> (the order of the API's calls).
  \<^item> \<open>CliConfig\<close> (flags.go, config.go and the process's surroundings), \<open>Cli\<close> (main.go, remote.go),
    \<open>CliProps\<close> (properties).

  \<^bold>\<open>State.\<close> \<open>world\<close> holds the filesystem, the umask, whether the filesystem reports holes, and the
  store's memo of zero-chunk hashes; \<open>eworld\<close> extends it with the random bytes and clock readings
  to come, the kernel's answers to \<open>stat\<close>, the environment; the command line's world adds the working
  directory and the outputs, the fake machine's its machines. A Go method on a pointer is a function of
  the same name from its arguments and the world to a result and a world.

  \<^bold>\<open>Parameters.\<close> Code outside the repository is an argument: the hash (\<open>hasher\<close>), running a command on the
  host or in the guest, the HTTP client and the decoding of a listing's XML (\<open>S3\<close>), processes, \<open>/proc\<close>,
  sockets, tools and Firecracker's API (\<open>fc_host\<close>), the guest's kernel (\<open>Guest\<close>), the text of error values.
  Where a theorem needs the hash, it is collision-free on the byte strings considered.

  \<^bold>\<open>What is shown.\<close> The store is a content-addressed map whose operations keep it sound; chunked
  images store and give back exactly the bytes, overlays exactly the base with the data regions
  laid over it, under every interleaving of the workers, which always finish. Snapshot and restore
  are inverse up to the umask; a restore removes everything else. A diff lists exactly the
  differences. Records survive their JSON, whatever loads is well typed, a history is the chain of
  parents. A run extends the history by one checkpoint, a checkout brings the files of an earlier step back,
  a fork copies them, and no sequence of these changes what a past step recorded. A push is one update
  of the object map, pushing again moves nothing, a pull brings the same checkpoint and trusts no
  bytes that do not hash to their name. An S3 bucket addressed by host is a map from keys to bytes, so that a
  history pushed to it is pulled elsewhere, and a listing collects every page; one addressed by path refuses every signature. The agent stays below its
  root, lists the tree a snapshot would take, and gives back what it was given to write. The guest's
  init never has two agents. Booting and snapshotting a machine make the API's calls in order, and a paused machine is told to resume. Flags are read as
  written, the repository found is the nearest, a stored setting is the one read.

  \<^bold>\<open>Bounds.\<close> \<open>int64\<close> wraps and is kept at its width wherever the sources compute with it. A system call
  follows at most 40 links, \<open>EvalSymlinks\<close> at most 255. Deadlines of the Firecracker driver and the client of the
  agent are a number of tries, a parameter. The JSON parser's fuel is two calls per token and enough for
  every document that is printed (\<open>parse_toks\<close>). \<open>History\<close> and the listing of a bucket, whose loops may not end, are
  partial functions with \<open>None\<close> for not returning; the commands that follow a history inherit that.

  \<^bold>\<open>Not modelled.\<close> Errors the filesystem's state does not determine (no space, I/O errors), checks of file
  permissions, cancellation by contexts, the streaming of a command's output, mutexes (an operation of the fake
  machine is one step), the interleaving of bytes on one connection of the guest (it is served in one step),
  times with an offset from UTC, the control characters of \<open>text/tabwriter\<close> (vertical tab, form feed, escape), letters
  outside ASCII in \<open>ToUpper\<close>. \<open>bytesReader\<close> of the engine, a line that wraps \<open>bytes.NewReader\<close>,
  has no counterpart: the model reads lists of bytes. The stand-in for Firecracker under \<open>internal/fcvm/testdata\<close> is a program
  of the tests.
\<close>

end
